(* ===== verification/Kot_Prelude.thy ===== *)
theory Kot_Prelude
  imports Main "HOL-Library.Word"
begin

section \<open>Prelude: faults, commands, machine arithmetic\<close>

text \<open>
  The vocabulary shared by every component of the development: the ways in which kernel
  code can stop (\<open>fault\<close>), commands over an explicit state that either stop with a fault
  or return a value and a new state, a weakest-precondition reading of commands in the
  style of total correctness, unsigned 64-bit arithmetic on natural numbers with the
  wrap-around written out, spinlocks as they behave for the code that runs between an
  acquire and a release, and generic facts on lists and intervals.
\<close>

named_theorems wp_simps "weakest preconditions of the primitive commands"

subsection \<open>Faults and commands\<close>

text \<open>
  \<^item> \<open>NullDeref\<close>: a field is read or written through a null pointer;
  \<^item> \<open>OutOfBounds\<close>: an access outside the object or outside backed memory;
  \<^item> \<open>AssertFail\<close>: a failed \<^verbatim>\<open>assert\<close> (the kernel panics in \<^verbatim>\<open>__assert_fail\<close>);
  \<^item> \<open>Panic\<close>: an explicit \<^verbatim>\<open>panic\<close>;
  \<^item> \<open>NoReturn\<close>: the loop fuel of the model is used up, the code has not returned yet.
\<close>

datatype fault = NullDeref | OutOfBounds | AssertFail | Panic | NoReturn

type_synonym ('a, 's) cmd = "'s \<Rightarrow> fault + ('a \<times> 's)"

definition ret :: "'a \<Rightarrow> ('a, 's) cmd" where
  "ret x s = Inr (x, s)"

definition stop :: "fault \<Rightarrow> ('a, 's) cmd" where
  "stop e s = Inl e"

definition bindc :: "('a, 's) cmd \<Rightarrow> ('a \<Rightarrow> ('b, 's) cmd) \<Rightarrow> ('b, 's) cmd" where
  "bindc m f s = (case m s of Inl e \<Rightarrow> Inl e | Inr (x, t) \<Rightarrow> f x t)"

definition seqc :: "(unit, 's) cmd \<Rightarrow> ('b, 's) cmd \<Rightarrow> ('b, 's) cmd" where
  "seqc m k s = (case m s of Inl e \<Rightarrow> Inl e | Inr (_, t) \<Rightarrow> k t)"

definition getc :: "('s \<Rightarrow> 'a) \<Rightarrow> ('a, 's) cmd" where
  "getc f s = Inr (f s, s)"

definition modc :: "('s \<Rightarrow> 's) \<Rightarrow> (unit, 's) cmd" where
  "modc f s = Inr ((), f s)"

definition assertc :: "bool \<Rightarrow> (unit, 's) cmd" where
  "assertc b s = (if b then Inr ((), s) else Inl AssertFail)"

definition whenc :: "bool \<Rightarrow> (unit, 's) cmd \<Rightarrow> (unit, 's) cmd" where
  "whenc b m = (if b then m else ret ())"

text \<open>
  \<open>zoomc get put m\<close> runs a command of a component on its part of a larger state.
\<close>

definition zoomc :: "('s \<Rightarrow> 't) \<Rightarrow> ('t \<Rightarrow> 's \<Rightarrow> 's) \<Rightarrow> ('a, 't) cmd \<Rightarrow> ('a, 's) cmd" where
  "zoomc get put m s = (case m (get s) of Inl e \<Rightarrow> Inl e | Inr (x, t) \<Rightarrow> Inr (x, put t s))"

text \<open>
  \<open>wp m Q s\<close>: started in \<open>s\<close>, the command \<open>m\<close> does not stop with a fault and its result
  and final state satisfy \<open>Q\<close>.
\<close>

definition wp :: "('a, 's) cmd \<Rightarrow> ('a \<Rightarrow> 's \<Rightarrow> bool) \<Rightarrow> 's \<Rightarrow> bool" where
  "wp m Q s = (case m s of Inl _ \<Rightarrow> False | Inr (x, t) \<Rightarrow> Q x t)"

lemma wp_ret [wp_simps]: "wp (ret x) Q s = Q x s"
  by (simp add: wp_def ret_def)

lemma wp_stop [wp_simps]: "wp (stop e) Q s = False"
  by (simp add: wp_def stop_def)

lemma wp_bindc [wp_simps]: "wp (bindc m f) Q s = wp m (\<lambda>x t. wp (f x) Q t) s"
  by (auto simp: wp_def bindc_def split: sum.splits)

lemma wp_seqc [wp_simps]: "wp (seqc m k) Q s = wp m (\<lambda>_ t. wp k Q t) s"
  by (auto simp: wp_def seqc_def split: sum.splits)

lemma wp_getc [wp_simps]: "wp (getc f) Q s = Q (f s) s"
  by (simp add: wp_def getc_def)

lemma wp_modc [wp_simps]: "wp (modc f) Q s = Q () (f s)"
  by (simp add: wp_def modc_def)

lemma wp_assertc [wp_simps]: "wp (assertc b) Q s = (b \<and> Q () s)"
  by (simp add: wp_def assertc_def)

lemma wp_whenc [wp_simps]: "wp (whenc b m) Q s = (if b then wp m Q s else Q () s)"
  by (simp add: whenc_def wp_ret)

lemma wp_if [wp_simps]: "wp (if b then m else k) Q s = (if b then wp m Q s else wp k Q s)"
  by simp

lemma wp_zoomc [wp_simps]:
  "wp (zoomc get put m) Q s = wp m (\<lambda>x t. Q x (put t s)) (get s)"
  by (auto simp: wp_def zoomc_def split: sum.splits)

lemma wp_mono: "wp m P s \<Longrightarrow> (\<And>x t. P x t \<Longrightarrow> Q x t) \<Longrightarrow> wp m Q s"
  by (auto simp: wp_def split: sum.splits)

lemma wp_seqcI: "wp m (\<lambda>_. I) s \<Longrightarrow> (\<And>t. I t \<Longrightarrow> wp k Q t) \<Longrightarrow> wp (seqc m k) Q s"
  by (auto simp: wp_seqc intro: wp_mono)

lemma wp_Inr: "m s = Inr (x, t) \<Longrightarrow> wp m Q s = Q x t"
  by (simp add: wp_def)

lemma wpE: "wp m Q s \<Longrightarrow> (\<And>x t. m s = Inr (x, t) \<Longrightarrow> Q x t \<Longrightarrow> R) \<Longrightarrow> R"
  by (auto simp: wp_def split: sum.splits)

lemma wp_exI: "wp m Q s \<Longrightarrow> \<exists>x t. m s = Inr (x, t) \<and> Q x t"
  by (auto simp: wp_def split: sum.splits)

lemmas cmd_defs = ret_def stop_def bindc_def seqc_def getc_def modc_def assertc_def
  whenc_def zoomc_def

subsection \<open>Error numbers\<close>

text \<open>The values that functions of type \<^verbatim>\<open>int\<close> return: \<open>EOK\<close> is 0, the others the constants of
  \<^verbatim>\<open>errno.h\<close> under their names.\<close>

datatype errno = EOK | EACCES | EADDRNOTAVAIL | EAGAIN | EBADF | EBUSY | EEXIST | EINVAL | EIO
  | EISDIR | EMFILE | ENOENT | ENOMEM | ENOSYS | ENOTDIR | EPERM | ENOTEMPTY | EBADFD | ENOTSOCK
  | EFAULT | ERANGE | EXDEV | ENOTTY | ENAMETOOLONG | EAFNOSUPPORT | EPIPE | ETIMEDOUT | EPROTONOSUPPORT
  | EOPNOTSUPP | ECONNREFUSED

subsection \<open>Unsigned 64-bit arithmetic\<close>

text \<open>
  Sizes, indices and addresses are natural numbers below \<open>2 ^ 64\<close>; every addition and
  subtraction of the code that could wrap is written with these functions.
\<close>

definition u64 :: "nat \<Rightarrow> nat" where
  "u64 n = n mod 2 ^ 64"

definition u64_add :: "nat \<Rightarrow> nat \<Rightarrow> nat" where
  "u64_add a b = u64 (a + b)"

definition u64_sub :: "nat \<Rightarrow> nat \<Rightarrow> nat" where
  "u64_sub a b = u64 (a + (2 ^ 64 - u64 b))"

definition u64_mul :: "nat \<Rightarrow> nat \<Rightarrow> nat" where
  "u64_mul a b = u64 (a * b)"

lemma u64_small [simp]: "n < 18446744073709551616 \<Longrightarrow> u64 n = n"
  by (simp add: u64_def)

lemma u64_lt [simp]: "u64 n < 18446744073709551616"
  by (simp add: u64_def)

lemma u64_add_small: "a + b < 18446744073709551616 \<Longrightarrow> u64_add a b = a + b"
  unfolding u64_add_def by (rule u64_small)

lemma u64_mul_small: "a * b < 18446744073709551616 \<Longrightarrow> u64_mul a b = a * b"
  unfolding u64_mul_def by (rule u64_small)

lemma u64_sub_small:
  assumes "b \<le> a" "a < 18446744073709551616"
  shows "u64_sub a b = a - b"
proof -
  have "a + (2 ^ 64 - u64 b) = (a - b) + 2 ^ 64" using assms by simp
  then have "u64_sub a b = ((a - b) + 2 ^ 64) mod 2 ^ 64"
    by (simp only: u64_sub_def u64_def [of "a - b + 2 ^ 64"])
  also have "\<dots> = a - b" using assms by (simp only: mod_add_self2) simp
  finally show ?thesis .
qed

lemma u64_add_lt [simp]: "u64_add a b < 18446744073709551616"
  by (simp only: u64_add_def u64_lt)

lemma u64_sub_lt [simp]: "u64_sub a b < 18446744073709551616"
  by (simp only: u64_sub_def u64_lt)

lemma u64_mul_lt [simp]: "u64_mul a b < 18446744073709551616"
  by (simp only: u64_mul_def u64_lt)

text \<open>Rounding a size up to a multiple of \<open>k\<close>, as the code writes it in several places.\<close>

definition round_up :: "nat \<Rightarrow> nat \<Rightarrow> nat" where
  "round_up k n = (if n mod k \<noteq> 0 then u64_add (u64_sub n (n mod k)) k else n)"

lemma round_up_props:
  assumes "0 < k" "n + k \<le> 18446744073709551616"
  shows "n \<le> round_up k n" "round_up k n < n + k" "round_up k n mod k = 0"
proof -
  have *: "round_up k n = (if n mod k \<noteq> 0 then n - n mod k + k else n)" if "n mod k \<noteq> 0"
  proof -
    have b: "n - n mod k + k < 18446744073709551616"
      using assms(2) that mod_less_eq_dividend [of n k] by linarith
    have "n < 18446744073709551616" using assms by linarith
    then have "u64_sub n (n mod k) = n - n mod k" by (intro u64_sub_small) simp_all
    with b show ?thesis by (simp add: round_up_def u64_add_small)
  qed
  have m: "n mod k < k" "n mod k \<le> n" "(n - n mod k) mod k = 0"
    using assms(1) by (simp_all add: minus_mod_eq_mult_div)
  have e: "round_up k n = n \<and> n mod k = 0 \<or> 0 < n mod k \<and> round_up k n = n - n mod k + k"
    using * by (cases "n mod k = 0") (simp_all add: round_up_def)
  then show "n \<le> round_up k n" "round_up k n < n + k"
    using m(1,2) assms(1) by linarith+
  have "(n - n mod k + k) mod k = 0" using m(3) by (simp only: mod_add_self2)
  then show "round_up k n mod k = 0" using e by metis
qed

subsection \<open>Spinlocks in sequential code\<close>

text \<open>
  \<^verbatim>\<open>assert(!spinlock_acquire(&l))\<close> takes a free lock; a lock that nobody is going to
  release is retried a bounded number of times, after which \<^verbatim>\<open>spinlock_acquire\<close> returns
  -1 and the assertion fails. The sequential components carry the lock word as a boolean
  field, given here by its selector and its update.
\<close>

definition lock_acquire :: "('s \<Rightarrow> bool) \<Rightarrow> ((bool \<Rightarrow> bool) \<Rightarrow> 's \<Rightarrow> 's) \<Rightarrow> (unit, 's) cmd" where
  "lock_acquire held upd s = (if held s then Inl AssertFail else Inr ((), upd (\<lambda>_. True) s))"

definition lock_release :: "((bool \<Rightarrow> bool) \<Rightarrow> 's \<Rightarrow> 's) \<Rightarrow> (unit, 's) cmd" where
  "lock_release upd s = Inr ((), upd (\<lambda>_. False) s)"

lemma wp_lock_acquire [wp_simps]:
  "wp (lock_acquire held upd) Q s = (\<not> held s \<and> Q () (upd (\<lambda>_. True) s))"
  by (simp add: wp_def lock_acquire_def)

lemma wp_lock_release [wp_simps]: "wp (lock_release upd) Q s = Q () (upd (\<lambda>_. False) s)"
  by (simp add: wp_def lock_release_def)

subsection \<open>Parts of the state that a command keeps\<close>

text \<open>\<open>keeps f m\<close>: whenever \<open>m\<close> returns, the part \<open>f\<close> of the state is what it was.\<close>

named_theorems keeps_intros "commands that keep a part of the state"

definition keeps :: "('s \<Rightarrow> 'b) \<Rightarrow> ('a, 's) cmd \<Rightarrow> bool" where
  "keeps f m \<longleftrightarrow> (\<forall>s x t. m s = Inr (x, t) \<longrightarrow> f t = f s)"

lemma keeps_ret [keeps_intros]: "keeps f (ret x)"
  by (simp add: keeps_def ret_def)

lemma keeps_stop [keeps_intros]: "keeps f (stop e)"
  by (simp add: keeps_def stop_def)

lemma keeps_bindc [keeps_intros]: "keeps f m \<Longrightarrow> (\<And>x. keeps f (k x)) \<Longrightarrow> keeps f (bindc m k)"
  by (fastforce simp: keeps_def bindc_def split: sum.splits)

lemma keeps_seqc [keeps_intros]: "keeps f m \<Longrightarrow> keeps f k \<Longrightarrow> keeps f (seqc m k)"
  by (fastforce simp: keeps_def seqc_def split: sum.splits)

lemma keeps_getc [keeps_intros]: "keeps f (getc g)"
  by (simp add: keeps_def getc_def)

lemma keeps_modc [keeps_intros]: "(\<And>s. f (g s) = f s) \<Longrightarrow> keeps f (modc g)"
  by (simp add: keeps_def modc_def)

lemma keeps_assertc [keeps_intros]: "keeps f (assertc b)"
  by (simp add: keeps_def assertc_def)

lemma keeps_whenc [keeps_intros]: "keeps f m \<Longrightarrow> keeps f (whenc b m)"
  by (simp add: whenc_def keeps_ret)

lemma keeps_if [keeps_intros]: "keeps f m \<Longrightarrow> keeps f k \<Longrightarrow> keeps f (if b then m else k)"
  by simp

lemma keeps_option [keeps_intros]:
  "keeps f m \<Longrightarrow> (\<And>y. keeps f (k y)) \<Longrightarrow> keeps f (case x of None \<Rightarrow> m | Some y \<Rightarrow> k y)"
  by (simp split: option.split)

lemma keeps_let [keeps_intros]: "keeps f (m x) \<Longrightarrow> keeps f (let y = x in m y)"
  by simp

lemma keeps_zoomc [keeps_intros]: "(\<And>t s. f (put t s) = f s) \<Longrightarrow> keeps f (zoomc get put m)"
  by (auto simp: keeps_def zoomc_def split: sum.splits)

lemma keeps_lock [keeps_intros]:
  "(\<And>s. f (upd (\<lambda>_. True) s) = f s) \<Longrightarrow> keeps f (lock_acquire held upd)"
  "(\<And>s. f (upd (\<lambda>_. False) s) = f s) \<Longrightarrow> keeps f (lock_release upd)"
  by (auto simp: keeps_def lock_acquire_def lock_release_def)

lemma wp_keeps: "wp m Q s \<Longrightarrow> keeps f m \<Longrightarrow> wp m (\<lambda>x t. Q x t \<and> f t = f s) s"
  by (auto simp: keeps_def wp_def split: sum.splits)

end
