(* ===== verification/Bitmap.thy ===== *)
theory Bitmap
  imports Kot_Prelude
begin

unbundle bit_operations_syntax

section \<open>The bitmap of kernel/source/lib/bitmap.h\<close>

text \<open>
  A bitmap is the byte array behind a \<^verbatim>\<open>bitmap_t\<close>; an access outside the array is a fault.
  The macros work on the byte widened to 64 bits and store the result back into the byte,
  as the C promotions do.
\<close>

type_synonym bitmap_t = "8 word list"

definition BIT_SET :: "8 word \<Rightarrow> nat \<Rightarrow> 8 word" where
  "BIT_SET a b = ucast ((ucast a :: 64 word) OR push_bit b 1)"

definition BIT_CLEAR :: "8 word \<Rightarrow> nat \<Rightarrow> 8 word" where
  "BIT_CLEAR a b = ucast ((ucast a :: 64 word) AND NOT (push_bit b 1))"

definition BIT_GET :: "8 word \<Rightarrow> nat \<Rightarrow> bool" where
  "BIT_GET a b = ((ucast a :: 64 word) AND push_bit b 1 \<noteq> 0)"

definition bitmap_init :: "nat \<Rightarrow> bool \<Rightarrow> bitmap_t" where
  "bitmap_init sz default_value = replicate sz (if default_value then 0xff else 0)"

definition bitmap_get_bit :: "bitmap_t \<Rightarrow> nat \<Rightarrow> fault + bool" where
  "bitmap_get_bit bm index =
     (if index div 8 < length bm then Inr (BIT_GET (bm ! (index div 8)) (index mod 8))
      else Inl OutOfBounds)"

definition bitmap_set_bit :: "bitmap_t \<Rightarrow> nat \<Rightarrow> bool \<Rightarrow> fault + bitmap_t" where
  "bitmap_set_bit bm index v =
     (if index div 8 < length bm then
        Inr (if v then bm[index div 8 := BIT_SET (bm ! (index div 8)) (index mod 8)]
             else bm[index div 8 := BIT_CLEAR (bm ! (index div 8)) (index mod 8)])
      else Inl OutOfBounds)"

fun bitmap_set_bits :: "bitmap_t \<Rightarrow> nat \<Rightarrow> nat \<Rightarrow> bool \<Rightarrow> fault + bitmap_t" where
  "bitmap_set_bits bm index 0 v = Inr bm"
| "bitmap_set_bits bm index (Suc count) v =
     (case bitmap_set_bit bm index v of
        Inl e \<Rightarrow> Inl e
      | Inr bm' \<Rightarrow> bitmap_set_bits bm' (u64_add index 1) count v)"

definition bitmap_get_set_bit :: "bitmap_t \<Rightarrow> nat \<Rightarrow> bool \<Rightarrow> fault + (bool \<times> bitmap_t)" where
  "bitmap_get_set_bit bm index v =
     (case bitmap_get_bit bm index of
        Inl e \<Rightarrow> Inl e
      | Inr current \<Rightarrow>
          if current \<noteq> v then
            (case bitmap_set_bit bm index v of Inl e \<Rightarrow> Inl e | Inr bm' \<Rightarrow> Inr (current, bm'))
          else Inr (current, bm))"

subsection \<open>The set of bits of a bitmap\<close>

definition bm_bits :: "bitmap_t \<Rightarrow> nat set" where
  "bm_bits bm = {i. i < 8 * length bm \<and> bit (bm ! (i div 8)) (i mod 8)}"

lemma bit_8_ge: "8 \<le> n \<Longrightarrow> \<not> bit (a :: 8 word) n"
  using bit_imp_le_length [of a n] by auto

lemma BIT_GET_bit: "b < 8 \<Longrightarrow> BIT_GET a b = bit a b"
  using and_exp_eq_0_iff_not_bit [of "ucast a :: 64 word" b]
  by (simp add: BIT_GET_def bit_ucast_iff)

lemma bit_BIT_SET: "b < 8 \<Longrightarrow> n < 8 \<Longrightarrow> bit (BIT_SET a b) n = (n = b \<or> bit a n)"
  by (auto simp: BIT_SET_def bit_ucast_iff bit_or_iff bit_exp_iff)

lemma bit_BIT_CLEAR: "b < 8 \<Longrightarrow> n < 8 \<Longrightarrow> bit (BIT_CLEAR a b) n = (n \<noteq> b \<and> bit a n)"
  by (auto simp: BIT_CLEAR_def bit_ucast_iff bit_and_iff bit_not_iff bit_exp_iff)

lemma div8_lt_iff: "i div 8 < n \<longleftrightarrow> i < 8 * (n :: nat)"
  by (simp add: div_less_iff_less_mult mult.commute)

lemma bitmap_get_bit_eq:
  "bitmap_get_bit bm i = (if i < 8 * length bm then Inr (i \<in> bm_bits bm) else Inl OutOfBounds)"
  by (simp add: bitmap_get_bit_def bm_bits_def div8_lt_iff BIT_GET_bit)

lemma eq_div_mod8: "(i :: nat) div 8 = j div 8 \<Longrightarrow> i mod 8 = j mod 8 \<Longrightarrow> i = j"
  by (metis div_mult_mod_eq)

lemma bitmap_set_bit_eq:
  assumes "i < 8 * length bm"
  shows "\<exists>bm'. bitmap_set_bit bm i v = Inr bm' \<and> length bm' = length bm \<and>
    bm_bits bm' = (if v then insert i (bm_bits bm) else bm_bits bm - {i})"
proof -
  let ?a = "bm ! (i div 8)"
  define b' where "b' = (if v then BIT_SET ?a (i mod 8) else BIT_CLEAR ?a (i mod 8))"
  have lt: "i div 8 < length bm" using assms by (simp add: div8_lt_iff)
  have 1: "bitmap_set_bit bm i v = Inr (bm[i div 8 := b'])"
    using lt by (simp add: bitmap_set_bit_def b'_def)
  have b': "bit b' n = (if v then n = i mod 8 \<or> bit ?a n else n \<noteq> i mod 8 \<and> bit ?a n)"
    if "n < 8" for n
    using that by (simp add: b'_def bit_BIT_SET bit_BIT_CLEAR)
  have "j \<in> bm_bits (bm[i div 8 := b']) \<longleftrightarrow>
        j \<in> (if v then insert i (bm_bits bm) else bm_bits bm - {i})" for j
  proof (cases "j div 8 = i div 8")
    case True
    then have "j = i \<longleftrightarrow> j mod 8 = i mod 8" using eq_div_mod8 by blast
    moreover have "j < 8 * length bm" using lt True by (simp flip: div8_lt_iff)
    moreover have "bit b' (j mod 8) =
      (if v then j mod 8 = i mod 8 \<or> bit ?a (j mod 8) else j mod 8 \<noteq> i mod 8 \<and> bit ?a (j mod 8))"
      by (rule b') simp
    ultimately show ?thesis using True lt by (simp add: bm_bits_def conj_commute)
  next
    case False
    then have "j \<noteq> i" by auto
    with False show ?thesis by (simp add: bm_bits_def)
  qed
  then have "bm_bits (bm[i div 8 := b']) = (if v then insert i (bm_bits bm) else bm_bits bm - {i})"
    by (rule set_eqI)
  with 1 show ?thesis by (intro exI [of _ "bm[i div 8 := b']"]) simp
qed

lemma bitmap_set_bits_eq:
  assumes "index + count \<le> 8 * length bm" "8 * length bm < 18446744073709551616"
  shows "\<exists>bm'. bitmap_set_bits bm index count v = Inr bm' \<and> length bm' = length bm \<and>
    bm_bits bm' = (if v then bm_bits bm \<union> {index..<index + count}
                   else bm_bits bm - {index..<index + count})"
  using assms
proof (induction bm index count v rule: bitmap_set_bits.induct)
  case (1 bm index v)
  then show ?case by simp
next
  case (2 bm index count v)
  then have "index < 8 * length bm" by simp
  from bitmap_set_bit_eq [OF this, of v] obtain bm1 where
    bm1: "bitmap_set_bit bm index v = Inr bm1" "length bm1 = length bm"
      "bm_bits bm1 = (if v then insert index (bm_bits bm) else bm_bits bm - {index})"
    by blast
  have add: "u64_add index (Suc 0) = Suc index"
    using 2(2,3) by (simp add: u64_add_small)
  from 2(1) [OF bm1(1)] 2(2,3) bm1(2) obtain bm2 where
    bm2: "bitmap_set_bits bm1 (Suc index) count v = Inr bm2" "length bm2 = length bm"
      "bm_bits bm2 = (if v then bm_bits bm1 \<union> {Suc index..<Suc index + count}
                      else bm_bits bm1 - {Suc index..<Suc index + count})"
    by (auto simp: add)
  have iv: "{index..<index + Suc count} = insert index {Suc index..<Suc index + count}"
    by auto
  have "bm_bits bm2 = (if v then bm_bits bm \<union> {index..<index + Suc count}
                       else bm_bits bm - {index..<index + Suc count})"
    unfolding iv bm2(3) bm1(3) by auto
  then show ?case using bm1(1) bm2(1,2) by (simp add: add)
qed

lemma bitmap_get_set_bit_eq:
  assumes "i < 8 * length bm"
  shows "\<exists>bm'. bitmap_get_set_bit bm i v = Inr (i \<in> bm_bits bm, bm') \<and> length bm' = length bm \<and>
    bm_bits bm' = (if v then insert i (bm_bits bm) else bm_bits bm - {i})"
  using bitmap_set_bit_eq [OF assms, of v] assms
  by (auto simp: bitmap_get_set_bit_def bitmap_get_bit_eq insert_absorb)

lemma bitmap_get_set_bit_same:
  assumes "i < 8 * length bm" "i \<in> bm_bits bm \<longleftrightarrow> v"
  shows "bitmap_get_set_bit bm i v = Inr (v, bm)"
  using assms by (auto simp: bitmap_get_set_bit_def bitmap_get_bit_eq)

lemma bit_all_ones: "n < 8 \<Longrightarrow> bit (0xff :: 8 word) n"
proof -
  have "(0xff :: 8 word) = -1" by simp
  then show "n < 8 \<Longrightarrow> ?thesis" by (simp only: bit_minus_1_iff) simp
qed

lemma bm_bits_init: "bm_bits (bitmap_init sz v) = (if v then {i. i < 8 * sz} else {})"
  using bit_all_ones [OF mod_less_divisor [of 8]]
  by (auto simp: bm_bits_def bitmap_init_def div8_lt_iff)

lemma length_bitmap_init [simp]: "length (bitmap_init sz v) = sz"
  by (simp add: bitmap_init_def)

end
