(* ===== verification/Runs.thy ===== *)
theory Runs
  imports Kot_Prelude
begin

section \<open>Maximal runs of a set of page indices\<close>

text \<open>
  The free list of the page allocator has one element per maximal interval of free pages.
  This theory holds the combinatorics of such intervals: how the runs of a set change when
  a block is added to it or when a prefix of one run is taken away.
\<close>

definition run :: "nat set \<Rightarrow> nat \<Rightarrow> nat \<Rightarrow> bool" where
  "run F a b \<longleftrightarrow> a \<le> b \<and> {a..b} \<subseteq> F \<and> (a = 0 \<or> a - 1 \<notin> F) \<and> Suc b \<notin> F"

lemma runD:
  assumes "run F a b"
  shows "a \<le> b" "\<And>i. a \<le> i \<Longrightarrow> i \<le> b \<Longrightarrow> i \<in> F" "Suc b \<notin> F" "0 < a \<Longrightarrow> a - 1 \<notin> F"
    "a \<in> F" "b \<in> F"
  using assms by (auto simp: run_def)

lemma runI:
  assumes "a \<le> b" "\<And>i. a \<le> i \<Longrightarrow> i \<le> b \<Longrightarrow> i \<in> F" "Suc b \<notin> F" "0 < a \<Longrightarrow> a - 1 \<notin> F"
  shows "run F a b"
  using assms by (auto simp: run_def)

lemma run_end_le:
  assumes "run F a b" "run F a' b'" "a \<le> a'" "a' \<le> b"
  shows "b' \<le> b"
proof (rule ccontr)
  assume "\<not> b' \<le> b"
  then have "Suc b \<in> F" using assms runD(2) [OF assms(2), of "Suc b"] by simp
  then show False using runD(3) [OF assms(1)] by simp
qed

lemma run_start_le:
  assumes "run F a b" "run F a' b'" "a \<le> a'" "a' \<le> b"
  shows "a' = a"
proof (rule ccontr)
  assume "a' \<noteq> a"
  then have lt: "a < a'" using assms by simp
  then have "a' - 1 \<in> F" using assms runD(2) [OF assms(1), of "a' - 1"] by simp
  then show False using runD(4) [OF assms(2)] lt by simp
qed

lemma run_meet:
  assumes "run F a b" "run F a' b'" "a \<le> i" "i \<le> b" "a' \<le> i" "i \<le> b'"
  shows "a' = a" "b' = b"
proof -
  show *: "a' = a"
  proof (cases "a \<le> a'")
    case True
    then show ?thesis using run_start_le assms le_trans by blast
  next
    case False
    then show ?thesis using run_start_le [OF assms(2,1)] assms by simp
  qed
  have "b' \<le> b" "b \<le> b'"
    using run_end_le [OF assms(1,2)] run_end_le [OF assms(2,1)] assms * by auto
  then show "b' = b" by simp
qed

lemma run_same_start: "run F a b \<Longrightarrow> run F a b' \<Longrightarrow> b' = b"
  using run_meet(2) [of F a b a b' a] runD(1) by blast

lemma run_same_end: "run F a b \<Longrightarrow> run F a' b \<Longrightarrow> a' = a"
  using run_meet(1) [of F a b a' b b] runD(1) by blast

lemma run_ex_start:
  assumes "finite F" "i \<in> F" "0 < i \<Longrightarrow> i - 1 \<notin> F"
  shows "\<exists>b. run F i b"
proof -
  have ex: "\<exists>k. i \<le> k \<and> Suc k \<notin> F"
  proof -
    obtain m where "\<forall>x \<in> F. x \<le> m" using assms(1) by (meson finite_nat_set_iff_bounded_le)
    moreover then have "i \<le> m" using assms(2) by blast
    ultimately show ?thesis by (metis Suc_n_not_le_n)
  qed
  define b where "b = (LEAST k. i \<le> k \<and> Suc k \<notin> F)"
  have b: "i \<le> b \<and> Suc b \<notin> F" unfolding b_def by (rule LeastI_ex [OF ex])
  have "j \<in> F" if "i \<le> j" "j \<le> b" for j
    using that
  proof (induction j)
    case 0
    then show ?case using assms(2) by simp
  next
    case (Suc j)
    show ?case
    proof (cases "i = Suc j")
      case True
      then show ?thesis using assms(2) by simp
    next
      case False
      then have ij: "i \<le> j" "j < b" using Suc.prems by auto
      show ?thesis
      proof (rule ccontr)
        assume "Suc j \<notin> F"
        then have "b \<le> j" unfolding b_def using ij(1) by (intro Least_le) simp
        then show False using ij(2) by simp
      qed
    qed
  qed
  then show ?thesis using b assms by (intro exI [of _ b] runI) auto
qed

lemma run_ex_end:
  assumes "i \<in> F" "Suc i \<notin> F"
  shows "\<exists>a. run F a i"
proof -
  define a where "a = (LEAST k. k \<le> i \<and> {k..i} \<subseteq> F)"
  have ex: "\<exists>k. k \<le> i \<and> {k..i} \<subseteq> F" using assms by (intro exI [of _ i]) auto
  have a: "a \<le> i \<and> {a..i} \<subseteq> F" unfolding a_def by (rule LeastI_ex [OF ex])
  have "a - 1 \<notin> F" if "0 < a"
  proof
    assume "a - 1 \<in> F"
    moreover have "{a - 1..i} = insert (a - 1) {a..i}" using that a by auto
    ultimately have "a - 1 \<le> i \<and> {a - 1..i} \<subseteq> F" using a by auto
    then have "a \<le> a - 1" unfolding a_def by (rule Least_le)
    then show False using that by simp
  qed
  then show ?thesis using a assms by (intro exI [of _ a] runI) auto
qed

lemma run_ex_mem:
  assumes "finite F" "i \<in> F"
  shows "\<exists>a b. run F a b \<and> a \<le> i \<and> i \<le> b"
proof -
  have "\<exists>a. run (F \<inter> {..i}) a i" using assms by (intro run_ex_end) auto
  then obtain a where a: "run (F \<inter> {..i}) a i" ..
  have "\<exists>b. run F a b"
    using runD(1,4,5) [OF a] by (intro run_ex_start assms(1)) auto
  then obtain b where b: "run F a b" ..
  have "i \<le> b"
  proof (rule ccontr)
    assume "\<not> i \<le> b"
    then have "Suc b \<in> F" using runD(2) [OF a, of "Suc b"] runD(1) [OF b] by auto
    then show False using runD(3) [OF b] by simp
  qed
  then show ?thesis using b runD(1) [OF a] by blast
qed

subsection \<open>Taking a prefix of a run\<close>

lemma run_remove_prefix:
  assumes r: "run F i b" and n: "0 < n" "i + n \<le> Suc b"
  shows "run (F - {i..<i + n}) a' b' \<longleftrightarrow>
    (run F a' b' \<and> a' \<noteq> i) \<or> (a' = i + n \<and> b' = b \<and> i + n \<le> b)" (is "?L = ?R")
proof
  assume L: ?L
  then have a': "a' \<in> F" "\<not> (i \<le> a' \<and> a' < i + n)" using runD(5) [OF L] by auto
  show ?R
  proof (cases "i \<le> a' \<and> a' \<le> b")
    case True
    then have ge: "i + n \<le> a'" using a' by simp
    have "a' = i + n"
    proof (rule ccontr)
      assume ne: "a' \<noteq> i + n"
      then have "a' - 1 \<in> F - {i..<i + n}" using ge True runD(2) [OF r, of "a' - 1"] by auto
      moreover have "0 < a'" using ge n by simp
      ultimately show False using runD(4) [OF L] by blast
    qed
    moreover have "run (F - {i..<i + n}) (i + n) b"
      using True ge runD(2,3) [OF r] n by (intro runI) auto
    ultimately show ?thesis using run_same_start [of _ "i + n" b b'] L True by simp
  next
    case False
    have out: "b' < i \<or> b < a'"
    proof (rule ccontr)
      assume "\<not> ?thesis"
      then have "a' < i" "i \<le> b'" using False runD(1) [OF L] by auto
      then have "i \<in> F - {i..<i + n}" using runD(2) [OF L, of i] by simp
      then show False using n by simp
    qed
    have "run F a' b'"
    proof (rule runI)
      show "a' \<le> b'" by (rule runD(1) [OF L])
      show "\<And>k. a' \<le> k \<Longrightarrow> k \<le> b' \<Longrightarrow> k \<in> F" using runD(2) [OF L] by blast
      show "Suc b' \<notin> F"
      proof
        assume "Suc b' \<in> F"
        then have "i \<le> Suc b'" "Suc b' < i + n" using runD(3) [OF L] by auto
        then have "Suc b' = i" using out n runD(1) [OF L] by auto
        then show False using runD(4) [OF r] runD(6) [OF L] by auto
      qed
      show "a' - 1 \<notin> F" if "0 < a'"
      proof
        assume "a' - 1 \<in> F"
        then have "i \<le> a' - 1" "a' - 1 < i + n" using runD(4) [OF L that] by auto
        then have "a' = Suc b" using out n runD(1) [OF L] that by auto
        then show False using runD(3) [OF r] a' by simp
      qed
    qed
    then show ?thesis using False r runD(1) by blast
  qed
next
  assume ?R
  then show ?L
  proof
    assume A: "run F a' b' \<and> a' \<noteq> i"
    have out: "b' < i \<or> b < a'"
    proof (rule ccontr)
      assume "\<not> ?thesis"
      then have "a' \<le> max i a'" "max i a' \<le> b'" "max i a' \<le> b" "i \<le> max i a'"
        using runD(1) [OF r] runD(1) [of F a' b'] A by auto
      then show False using run_meet(1) [OF r, of a' b' "max i a'"] A by simp
    qed
    show ?L
    proof (rule runI)
      show "\<And>k. a' \<le> k \<Longrightarrow> k \<le> b' \<Longrightarrow> k \<in> F - {i..<i + n}"
        using A out n runD(2) [of F a' b'] by auto
    qed (use A in \<open>auto simp: run_def\<close>)
  next
    assume "a' = i + n \<and> b' = b \<and> i + n \<le> b"
    then show ?L using runD(2,3) [OF r] n by (intro runI) auto
  qed
qed

subsection \<open>Adding a block\<close>

text \<open>
  \<open>lo\<close> and \<open>hi\<close> are the ends of the run that contains the block \<open>{i..<i + n}\<close> once it has
  been added: the ends of the block itself, or those of the neighbouring runs.
\<close>

definition block_lo :: "nat set \<Rightarrow> nat \<Rightarrow> nat \<Rightarrow> bool" where
  "block_lo F i lo \<longleftrightarrow>
     (0 < i \<and> i - 1 \<in> F \<and> run F lo (i - 1)) \<or> ((i = 0 \<or> i - 1 \<notin> F) \<and> lo = i)"

definition block_hi :: "nat set \<Rightarrow> nat \<Rightarrow> nat \<Rightarrow> bool" where
  "block_hi F e hi \<longleftrightarrow> (e \<in> F \<and> run F e hi) \<or> (e \<notin> F \<and> Suc hi = e)"

lemma run_insert_block:
  assumes n: "0 < n" and dis: "{i..<i + n} \<inter> F = {}"
    and lo: "block_lo F i lo" and hi: "block_hi F (i + n) hi"
  shows "run (F \<union> {i..<i + n}) a' b' \<longleftrightarrow>
    (a' = lo \<and> b' = hi) \<or> (run F a' b' \<and> Suc b' \<noteq> i \<and> a' \<noteq> i + n)" (is "?L = ?R")
proof -
  have lo1: "lo \<le> i" "\<And>k. lo \<le> k \<Longrightarrow> k < i \<Longrightarrow> k \<in> F" "0 < lo \<Longrightarrow> lo - 1 \<notin> F"
    using lo by (auto simp: block_lo_def run_def)
  have hi1: "i + n \<le> Suc hi" "\<And>k. i + n \<le> k \<Longrightarrow> k \<le> hi \<Longrightarrow> k \<in> F" "Suc hi \<notin> F"
    using hi by (auto simp: block_hi_def run_def)
  have main: "run (F \<union> {i..<i + n}) lo hi"
  proof (rule runI)
    show "k \<in> F \<union> {i..<i + n}" if "lo \<le> k" "k \<le> hi" for k
      using lo1(2) hi1(2) that by (cases "k < i"; cases "k < i + n") auto
  qed (use lo1 hi1 n in auto)
  show ?thesis
  proof
    assume L: ?L
    show ?R
    proof (cases "a' \<le> hi \<and> lo \<le> b'")
      case True
      then have "a' \<le> max a' lo" "max a' lo \<le> b'" "lo \<le> max a' lo" "max a' lo \<le> hi"
        using runD(1) [OF L] runD(1) [OF main] by auto
      then show ?thesis using run_meet [OF main L, of "max a' lo"] by auto
    next
      case False
      then have out: "b' < lo \<or> hi < a'" by auto
      have sub: "k \<in> F" if "a' \<le> k" "k \<le> b'" for k
        using runD(2) [OF L that] that out lo1(1) hi1(1) by auto
      have "run F a' b'"
        using runD(1,3,4) [OF L] sub by (intro runI) auto
      moreover have "Suc b' \<noteq> i" using runD(3) [OF L] n by auto
      moreover have "a' \<noteq> i + n" using runD(4) [OF L] n by auto
      ultimately show ?thesis by simp
    qed
  next
    assume ?R
    then show ?L
    proof
      assume "a' = lo \<and> b' = hi"
      then show ?L using main by simp
    next
      assume A: "run F a' b' \<and> Suc b' \<noteq> i \<and> a' \<noteq> i + n"
      have "Suc b' \<notin> {i..<i + n}"
      proof
        assume B: "Suc b' \<in> {i..<i + n}"
        then have "b' \<in> {i..<i + n}" using A by auto
        then show False using dis runD(6) A by blast
      qed
      moreover have "a' - 1 \<notin> {i..<i + n}" if "0 < a'"
      proof
        assume B: "a' - 1 \<in> {i..<i + n}"
        then have "a' \<in> {i..<i + n}" using A that by auto
        then show False using dis runD(5) A by blast
      qed
      ultimately show ?L using A runD [of F a' b'] by (intro runI) auto
    qed
  qed
qed

lemma block_lo_ex: "\<exists>lo. block_lo F i lo" if "i \<notin> F"
  using run_ex_end [of "i - 1" F] that by (cases "0 < i \<and> i - 1 \<in> F") (auto simp: block_lo_def)

lemma block_hi_ex: "\<exists>hi. block_hi F e hi" if "finite F" "0 < e" "e - 1 \<notin> F"
proof (cases "e \<in> F")
  case True
  then show ?thesis using run_ex_start [of F e] that by (auto simp: block_hi_def)
next
  case False
  then show ?thesis using that by (intro exI [of _ "e - 1"]) (simp add: block_hi_def)
qed

end
