(* ===== verification/Pmm.thy ===== *)
theory Pmm
  imports Bitmap Runs
begin

section \<open>The physical page allocator (kernel/source/global/pmm.c)\<close>

text \<open>
  The allocator keeps one bit per page and, inside the free pages themselves, a doubly
  linked list of the maximal free segments. A \<^verbatim>\<open>free_list_info_t\<close> sits at the start of the
  first page of its segment and a \<^verbatim>\<open>free_list_info_end_t\<close> at the start of the last one; as
  both begin with the same two fields, one record per page holds either of them, and the
  aliasing of the two structures on a one-page segment is the one of the code. All these
  structures are page aligned, so a pointer to one is a page index (\<open>None\<close> is the null
  pointer); a pointer to a page that the machine does not have faults.
\<close>

subsection \<open>State\<close>

record free_list_info =
  hdr_end :: "nat option"
  hdr_start :: "nat option"
  index_start :: nat
  index_end :: nat
  page_count :: nat
  seg_last :: "nat option"
  seg_next :: "nat option"

record pmm_state =
  available_pages :: "64 word"
  used_pages :: "64 word"
  reserved_pages :: "64 word"
  total_pages :: "64 word"
  highest_page_index :: nat
  pmm_bitmap :: bitmap_t
  pmm_lock :: bool
  pmm_first_free_page_index :: nat
  pmm_last_free_entry_free_list :: "nat option"
  pages :: "nat \<Rightarrow> free_list_info"

definition PAGE_SIZE :: nat where
  "PAGE_SIZE = 0x1000"

definition pmm_address_to_index :: "nat \<Rightarrow> nat" where
  "pmm_address_to_index address = address div 2 ^ 12"

definition pmm_convert_index_to_address :: "nat \<Rightarrow> nat" where
  "pmm_convert_index_to_address index = u64 (index * 2 ^ 12)"

subsection \<open>Field accesses through a pointer\<close>

definition fread :: "nat option \<Rightarrow> (free_list_info, pmm_state) cmd" where
  "fread p s = (case p of
      None \<Rightarrow> Inl NullDeref
    | Some i \<Rightarrow> if i < highest_page_index s then Inr (pages s i, s) else Inl OutOfBounds)"

definition fwrite :: "nat option \<Rightarrow> (free_list_info \<Rightarrow> free_list_info) \<Rightarrow> (unit, pmm_state) cmd" where
  "fwrite p f s = (case p of
      None \<Rightarrow> Inl NullDeref
    | Some i \<Rightarrow>
        if i < highest_page_index s then Inr ((), s\<lparr>pages := (pages s)(i := f (pages s i))\<rparr>)
        else Inl OutOfBounds)"

definition bm_get :: "nat \<Rightarrow> (bool, pmm_state) cmd" where
  "bm_get i s = (case bitmap_get_bit (pmm_bitmap s) i of Inl e \<Rightarrow> Inl e | Inr b \<Rightarrow> Inr (b, s))"

definition bm_set_bits :: "nat \<Rightarrow> nat \<Rightarrow> bool \<Rightarrow> (unit, pmm_state) cmd" where
  "bm_set_bits index n v s = (case bitmap_set_bits (pmm_bitmap s) index n v of
      Inl e \<Rightarrow> Inl e | Inr bm \<Rightarrow> Inr ((), s\<lparr>pmm_bitmap := bm\<rparr>))"

abbreviation page_ptr :: "nat \<Rightarrow> nat option" where
  "page_ptr index \<equiv> Some (pmm_address_to_index (pmm_convert_index_to_address index))"

subsection \<open>The free list\<close>

text \<open>
  The relinking that both \<^verbatim>\<open>pmm_remove_pages_to_free_list\<close> and the merge of two
  neighbours in \<^verbatim>\<open>pmm_add_page_to_free_list\<close> do on the segment header they drop.
\<close>

definition free_list_unlink :: "nat option \<Rightarrow> (unit, pmm_state) cmd" where
  "free_list_unlink p =
     bindc (fread p) (\<lambda>info.
     seqc (whenc (seg_last info \<noteq> None)
             (fwrite (seg_last info) (\<lambda>h. h\<lparr>seg_next := seg_next info\<rparr>)))
    (bindc (fread p) (\<lambda>info.
     seqc (whenc (seg_next info \<noteq> None)
             (fwrite (seg_next info) (\<lambda>h. h\<lparr>seg_last := seg_last info\<rparr>)))
    (bindc (fread p) (\<lambda>info.
     bindc (getc pmm_last_free_entry_free_list) (\<lambda>entry.
     whenc (p = entry)
       (modc (\<lambda>s. s\<lparr>pmm_last_free_entry_free_list := seg_last info\<rparr>))))))))"

definition pmm_remove_pages_to_free_list :: "nat \<Rightarrow> nat \<Rightarrow> (unit, pmm_state) cmd" where
  "pmm_remove_pages_to_free_list index n =
     bindc (fread (page_ptr index)) (\<lambda>info.
     if page_count info = n then free_list_unlink (page_ptr index)
     else
       (let new = page_ptr (u64_add index n) in
        seqc (fwrite new (\<lambda>h. h\<lparr>seg_next := seg_next info, seg_last := seg_last info\<rparr>))
       (bindc (getc pmm_last_free_entry_free_list) (\<lambda>entry.
        seqc (whenc (page_ptr index = entry)
                (modc (\<lambda>s. s\<lparr>pmm_last_free_entry_free_list := new\<rparr>)))
       (seqc (fwrite new (\<lambda>h. h\<lparr>page_count := u64_sub (page_count info) n,
                index_start := u64_add (index_start info) n,
                index_end := index_end info, hdr_end := hdr_end info\<rparr>))
       (bindc (fread new) (\<lambda>nh.
        fwrite (hdr_end nh) (\<lambda>h. h\<lparr>hdr_start := new\<rparr>))))))))"

text \<open>The four branches of \<^verbatim>\<open>pmm_add_page_to_free_list\<close>, by which neighbour is free.\<close>

definition pmm_merge_both :: "nat \<Rightarrow> nat \<Rightarrow> (unit, pmm_state) cmd" where
  "pmm_merge_both index n =
     (let nxt = page_ptr (u64_add index n) in
      bindc (fread (page_ptr (u64_sub index 1))) (\<lambda>info_end.
      let lst = hdr_start info_end in
      bindc (fread nxt) (\<lambda>info_next.
      seqc (fwrite lst (\<lambda>h. h\<lparr>hdr_end := hdr_end info_next\<rparr>))
     (bindc (fread lst) (\<lambda>info_last.
      seqc (fwrite (hdr_end info_last) (\<lambda>h. h\<lparr>hdr_start := lst\<rparr>))
     (bindc (fread nxt) (\<lambda>info_next.
      seqc (fwrite lst (\<lambda>h. h\<lparr>index_end := index_end info_next,
              page_count := u64_add (page_count h) (u64_add n (page_count info_next))\<rparr>))
     (free_list_unlink nxt))))))))"

definition pmm_merge_next :: "nat \<Rightarrow> nat \<Rightarrow> (unit, pmm_state) cmd" where
  "pmm_merge_next index n =
     (let nxt = page_ptr (u64_add index n); new = page_ptr index in
      bindc (fread nxt) (\<lambda>info_next.
      seqc (fwrite new (\<lambda>h. h\<lparr>hdr_end := hdr_end info_next\<rparr>))
     (bindc (fread new) (\<lambda>info_new.
      seqc (fwrite (hdr_end info_new) (\<lambda>h. h\<lparr>hdr_start := new\<rparr>))
     (bindc (fread nxt) (\<lambda>info_next.
      seqc (fwrite new (\<lambda>h. h\<lparr>index_start := index,
              page_count := u64_add (page_count info_next) n,
              index_end := index_end info_next,
              seg_next := seg_next info_next, seg_last := seg_last info_next\<rparr>))
     (bindc (getc pmm_last_free_entry_free_list) (\<lambda>entry.
      whenc (nxt = entry)
        (modc (\<lambda>s. s\<lparr>pmm_last_free_entry_free_list := new\<rparr>))))))))))"

definition pmm_merge_last :: "nat \<Rightarrow> nat \<Rightarrow> (unit, pmm_state) cmd" where
  "pmm_merge_last index n =
     bindc (fread (page_ptr (u64_sub index 1))) (\<lambda>info_end.
     let lst = hdr_start info_end; new_end = page_ptr (u64_sub (u64_add index n) 1) in
     seqc (fwrite lst (\<lambda>h. h\<lparr>page_count := u64_add (page_count h) n,
             index_end := u64_sub (u64_add index n) 1, hdr_end := new_end\<rparr>))
    (fwrite new_end (\<lambda>h. h\<lparr>hdr_start := lst\<rparr>)))"

definition pmm_new_segment :: "nat \<Rightarrow> nat \<Rightarrow> (unit, pmm_state) cmd" where
  "pmm_new_segment index n =
     (let new = page_ptr index; new_end = page_ptr (u64_sub (u64_add index n) 1) in
      seqc (fwrite new (\<lambda>h. h\<lparr>index_start := index,
              index_end := u64_sub (u64_add index n) 1, page_count := n,
              hdr_end := new_end\<rparr>))
     (seqc (fwrite new_end (\<lambda>h. h\<lparr>hdr_start := new\<rparr>))
     (bindc (getc pmm_last_free_entry_free_list) (\<lambda>entry.
      seqc (fwrite new (\<lambda>h. h\<lparr>seg_last := entry, seg_next := None\<rparr>))
     (seqc (whenc (entry \<noteq> None) (fwrite entry (\<lambda>h. h\<lparr>seg_next := new\<rparr>)))
     (modc (\<lambda>s. s\<lparr>pmm_last_free_entry_free_list := new\<rparr>)))))))"

definition pmm_add_page_to_free_list :: "nat \<Rightarrow> nat \<Rightarrow> (unit, pmm_state) cmd" where
  "pmm_add_page_to_free_list index n =
     bindc (bm_get (u64_add index n)) (\<lambda>next_used.
     bindc (bm_get (u64_sub index 1)) (\<lambda>last_used.
     if \<not> next_used then
       (if \<not> last_used then pmm_merge_both index n else pmm_merge_next index n)
     else if \<not> last_used then pmm_merge_last index n
     else pmm_new_segment index n))"

subsection \<open>Freeing, locking and reserving\<close>

definition pmm_free_pages_index :: "nat \<Rightarrow> nat \<Rightarrow> (unit, pmm_state) cmd" where
  "pmm_free_pages_index index n =
     seqc (lock_acquire pmm_lock pmm_lock_update)
    (seqc (pmm_add_page_to_free_list index n)
    (seqc (bm_set_bits index n False)
    (seqc (modc (\<lambda>s. s\<lparr>available_pages := available_pages s + of_nat n,
                      used_pages := used_pages s - of_nat n\<rparr>))
    (seqc (modc (\<lambda>s. if index < pmm_first_free_page_index s
                     then s\<lparr>pmm_first_free_page_index := index\<rparr> else s))
    (lock_release pmm_lock_update)))))"

definition pmm_free_page_index :: "nat \<Rightarrow> (unit, pmm_state) cmd" where
  "pmm_free_page_index index = pmm_free_pages_index index 1"

definition pmm_lock_pages_index :: "nat \<Rightarrow> nat \<Rightarrow> (unit, pmm_state) cmd" where
  "pmm_lock_pages_index index n =
     seqc (bm_set_bits index n True)
    (modc (\<lambda>s. s\<lparr>available_pages := available_pages s - of_nat n,
               used_pages := used_pages s + of_nat n\<rparr>))"

definition pmm_lock_page_index :: "nat \<Rightarrow> (unit, pmm_state) cmd" where
  "pmm_lock_page_index index = pmm_lock_pages_index index 1"

definition pmm_unreserve_page_index :: "nat \<Rightarrow> (unit, pmm_state) cmd" where
  "pmm_unreserve_page_index index =
     seqc (modc (\<lambda>s. s\<lparr>reserved_pages := reserved_pages s - 1\<rparr>)) (pmm_free_page_index index)"

definition pmm_unreserve_pages_index :: "nat \<Rightarrow> nat \<Rightarrow> (unit, pmm_state) cmd" where
  "pmm_unreserve_pages_index index n =
     seqc (modc (\<lambda>s. s\<lparr>reserved_pages := reserved_pages s - of_nat n\<rparr>))
       (pmm_free_pages_index index n)"

definition pmm_reserve_page_index :: "nat \<Rightarrow> (unit, pmm_state) cmd" where
  "pmm_reserve_page_index index =
     seqc (modc (\<lambda>s. s\<lparr>reserved_pages := reserved_pages s + 1\<rparr>)) (pmm_lock_page_index index)"

definition pmm_reserve_pages_index :: "nat \<Rightarrow> nat \<Rightarrow> (unit, pmm_state) cmd" where
  "pmm_reserve_pages_index index n =
     seqc (modc (\<lambda>s. s\<lparr>reserved_pages := reserved_pages s + of_nat n\<rparr>))
       (pmm_lock_pages_index index n)"

definition pmm_init_bitmap :: "nat \<Rightarrow> bool \<Rightarrow> (unit, pmm_state) cmd" where
  "pmm_init_bitmap sz lock_all = modc (\<lambda>s. s\<lparr>pmm_bitmap := bitmap_init sz lock_all\<rparr>)"

subsection \<open>Allocation\<close>

text \<open>The scan of \<^verbatim>\<open>pmm_allocate_page\<close>: the first clear bit from \<open>index\<close> on, already set.\<close>

function pmm_scan :: "nat \<Rightarrow> nat \<Rightarrow> bitmap_t \<Rightarrow> fault + (nat \<times> bitmap_t) option" where
  "pmm_scan highest index bm =
     (if index < highest then
        (case bitmap_get_set_bit bm index True of
           Inl e \<Rightarrow> Inl e
         | Inr (was, bm') \<Rightarrow>
             if \<not> was then Inr (Some (index, bm')) else pmm_scan highest (Suc index) bm')
      else Inr None)"
  by pat_completeness auto
termination
  by (relation "measure (\<lambda>(highest, index, bm). highest - index)") auto

declare pmm_scan.simps [simp del]

definition pmm_take_first :: "(nat, pmm_state) cmd" where
  "pmm_take_first s =
     (case pmm_scan (highest_page_index s) (pmm_first_free_page_index s) (pmm_bitmap s) of
        Inl e \<Rightarrow> Inl e
      | Inr None \<Rightarrow> Inl Panic
      | Inr (Some (index, bm)) \<Rightarrow> Inr (index, s\<lparr>pmm_bitmap := bm\<rparr>))"

definition pmm_allocate_page :: "(nat, pmm_state) cmd" where
  "pmm_allocate_page =
     seqc (lock_acquire pmm_lock pmm_lock_update)
    (bindc pmm_take_first (\<lambda>index.
     seqc (modc (\<lambda>s. s\<lparr>pmm_first_free_page_index := index,
                      available_pages := available_pages s - 1,
                      used_pages := used_pages s + 1\<rparr>))
    (seqc (pmm_remove_pages_to_free_list index 1)
    (seqc (lock_release pmm_lock_update)
    (ret (u64_mul index PAGE_SIZE))))))"

text \<open>
  The walk of \<^verbatim>\<open>pmm_allocate_pages\<close> along the \<open>last\<close> links. Stale links can make the list
  cyclic, so the walk has fuel.
\<close>

fun pmm_find_segment :: "nat \<Rightarrow> nat option \<Rightarrow> nat \<Rightarrow> (nat option, pmm_state) cmd" where
  "pmm_find_segment 0 p n = stop NoReturn"
| "pmm_find_segment (Suc fuel) p n =
     bindc (fread p) (\<lambda>info.
     if page_count info < n then
       (if seg_last info \<noteq> None then pmm_find_segment fuel (seg_last info) n else stop Panic)
     else ret p)"

definition pmm_allocate_pages :: "nat \<Rightarrow> nat \<Rightarrow> (nat, pmm_state) cmd" where
  "pmm_allocate_pages fuel n =
     seqc (lock_acquire pmm_lock pmm_lock_update)
    (bindc (getc pmm_last_free_entry_free_list) (\<lambda>entry.
     bindc (pmm_find_segment fuel entry n) (\<lambda>p.
     bindc (fread p) (\<lambda>info.
     let index = index_start info in
     seqc (pmm_lock_pages_index index n)
    (seqc (pmm_remove_pages_to_free_list index n)
    (seqc (lock_release pmm_lock_update)
    (ret (u64_mul index PAGE_SIZE))))))))"

subsection \<open>The interface on addresses\<close>

definition pmm_free_page :: "nat \<Rightarrow> (unit, pmm_state) cmd" where
  "pmm_free_page address = pmm_free_page_index (pmm_address_to_index address)"

definition pmm_free_pages :: "nat \<Rightarrow> nat \<Rightarrow> (unit, pmm_state) cmd" where
  "pmm_free_pages address n = pmm_free_pages_index (pmm_address_to_index address) n"

definition pmm_lock_page :: "nat \<Rightarrow> (unit, pmm_state) cmd" where
  "pmm_lock_page address = pmm_lock_page_index (pmm_address_to_index address)"

definition pmm_lock_pages :: "nat \<Rightarrow> nat \<Rightarrow> (unit, pmm_state) cmd" where
  "pmm_lock_pages address n = pmm_lock_pages_index (pmm_address_to_index address) n"

definition pmm_unreserve_page :: "nat \<Rightarrow> (unit, pmm_state) cmd" where
  "pmm_unreserve_page address = pmm_unreserve_page_index (pmm_address_to_index address)"

definition pmm_unreserve_pages :: "nat \<Rightarrow> nat \<Rightarrow> (unit, pmm_state) cmd" where
  "pmm_unreserve_pages address n = pmm_unreserve_pages_index (pmm_address_to_index address) n"

definition pmm_reserve_page :: "nat \<Rightarrow> (unit, pmm_state) cmd" where
  "pmm_reserve_page address = pmm_reserve_page_index (pmm_address_to_index address)"

definition pmm_reserve_pages :: "nat \<Rightarrow> nat \<Rightarrow> (unit, pmm_state) cmd" where
  "pmm_reserve_pages address n = pmm_reserve_pages_index (pmm_address_to_index address) n"

definition pmm_get_available :: "pmm_state \<Rightarrow> 64 word" where
  "pmm_get_available s = available_pages s * of_nat PAGE_SIZE"

definition pmm_get_reserved :: "pmm_state \<Rightarrow> 64 word" where
  "pmm_get_reserved s = reserved_pages s * of_nat PAGE_SIZE"

definition pmm_get_used :: "pmm_state \<Rightarrow> 64 word" where
  "pmm_get_used s = used_pages s * of_nat PAGE_SIZE"

end
