(* ===== verification/Pmm_Correct.thy ===== *)
theory Pmm_Correct
  imports Pmm
begin

section \<open>Correctness of the page allocator\<close>

text \<open>
  The abstract allocator is the set of free pages. The invariant \<open>pmm_inv\<close> ties the bitmap,
  the segment headers stored in the free pages and the search hint to that set; it is kept
  by every operation. The links between segments are deliberately left out of it: it only
  says that they point into physical memory.
\<close>

subsection \<open>The invariant\<close>

definition free_pages :: "pmm_state \<Rightarrow> nat set" where
  "free_pages s = {i. i < 8 * length (pmm_bitmap s)} - bm_bits (pmm_bitmap s)"

definition link_ok :: "pmm_state \<Rightarrow> nat option \<Rightarrow> bool" where
  "link_ok s p = pred_option (\<lambda>i. i < highest_page_index s) p"

definition links_ok :: "pmm_state \<Rightarrow> nat \<Rightarrow> bool" where
  "links_ok s i \<longleftrightarrow> link_ok s (seg_last (pages s i)) \<and> link_ok s (seg_next (pages s i))"

definition seg_ok :: "pmm_state \<Rightarrow> nat \<Rightarrow> nat \<Rightarrow> bool" where
  "seg_ok s a b \<longleftrightarrow>
     index_start (pages s a) = a \<and> index_end (pages s a) = b \<and>
     page_count (pages s a) = Suc b - a \<and> hdr_end (pages s a) = Some b \<and>
     hdr_start (pages s b) = Some a \<and> links_ok s a"

definition pmm_geom :: "pmm_state \<Rightarrow> bool" where
  "pmm_geom s \<longleftrightarrow> highest_page_index s \<le> 2 ^ 52 \<and>
     highest_page_index s < 8 * length (pmm_bitmap s) \<and>
     8 * length (pmm_bitmap s) < 2 ^ 64 \<and>
     free_pages s \<subseteq> {0<..<highest_page_index s}"

definition segs_ok :: "pmm_state \<Rightarrow> nat set \<Rightarrow> bool" where
  "segs_ok s F \<longleftrightarrow> link_ok s (pmm_last_free_entry_free_list s) \<and> (\<forall>a b. run F a b \<longrightarrow> seg_ok s a b)"

definition pmm_inv :: "pmm_state \<Rightarrow> bool" where
  "pmm_inv s \<longleftrightarrow> pmm_geom s \<and> \<not> pmm_lock s \<and> segs_ok s (free_pages s) \<and>
     (\<forall>i < pmm_first_free_page_index s. i \<notin> free_pages s)"

lemma finite_free_pages [simp]: "finite (free_pages s)"
  by (simp add: free_pages_def)

subsection \<open>Weakest preconditions of the field accesses\<close>

lemma wp_fread [wp_simps]:
  "wp (fread p) Q s = (\<exists>i. p = Some i \<and> i < highest_page_index s \<and> Q (pages s i) s)"
  by (simp add: wp_def fread_def split: option.split)

lemma wp_fwrite [wp_simps]:
  "wp (fwrite p f) Q s = (\<exists>i. p = Some i \<and> i < highest_page_index s \<and>
     Q () (s\<lparr>pages := (pages s)(i := f (pages s i))\<rparr>))"
  by (simp add: wp_def fwrite_def split: option.split)

lemma wp_bm_get [wp_simps]:
  "wp (bm_get i) Q s = (i < 8 * length (pmm_bitmap s) \<and> Q (i \<in> bm_bits (pmm_bitmap s)) s)"
  by (simp add: wp_def bm_get_def bitmap_get_bit_eq)

lemma page_index_id [simp]:
  "i < 4503599627370496 \<Longrightarrow> pmm_address_to_index (pmm_convert_index_to_address i) = i"
  by (simp add: pmm_address_to_index_def pmm_convert_index_to_address_def)

lemma page_ptr_id: "pmm_geom s \<Longrightarrow> i < highest_page_index s \<Longrightarrow> page_ptr i = Some i"
  by (simp add: pmm_geom_def)

subsection \<open>Frames\<close>

text \<open>
  \<open>touches X s t\<close>: from \<open>s\<close> to \<open>t\<close> only page headers and the list entry have changed, and
  outside the pages of \<open>X\<close> only links have, each to a link into physical memory.
\<close>

definition core :: "free_list_info \<Rightarrow> nat option \<times> nat option \<times> nat \<times> nat \<times> nat" where
  "core h = (hdr_end h, hdr_start h, index_start h, index_end h, page_count h)"

definition same_rest :: "pmm_state \<Rightarrow> pmm_state \<Rightarrow> bool" where
  "same_rest s t \<longleftrightarrow> available_pages t = available_pages s \<and> used_pages t = used_pages s \<and>
     reserved_pages t = reserved_pages s \<and> total_pages t = total_pages s \<and>
     highest_page_index t = highest_page_index s \<and> pmm_bitmap t = pmm_bitmap s \<and>
     pmm_lock t = pmm_lock s \<and> pmm_first_free_page_index t = pmm_first_free_page_index s"

definition touches :: "nat set \<Rightarrow> pmm_state \<Rightarrow> pmm_state \<Rightarrow> bool" where
  "touches X s t \<longleftrightarrow> same_rest s t \<and>
     (\<forall>i. i \<notin> X \<longrightarrow> core (pages t i) = core (pages s i) \<and> (links_ok s i \<longrightarrow> links_ok t i))"

lemma touches_refl [simp]: "touches X s s"
  by (simp add: touches_def same_rest_def)

lemma touches_trans: "touches X s t \<Longrightarrow> touches X t u \<Longrightarrow> touches X s u"
  by (auto simp: touches_def same_rest_def)

lemma touches_mono: "touches X s t \<Longrightarrow> X \<subseteq> Y \<Longrightarrow> touches Y s t"
  by (auto simp: touches_def)

lemma touches_links: "touches X s t \<Longrightarrow> touches {} t u \<Longrightarrow> touches X s u"
  by (rule touches_trans, assumption) (rule touches_mono, assumption, simp)

lemma touches_entry [simp]: "touches X s (t\<lparr>pmm_last_free_entry_free_list := e\<rparr>) = touches X s t"
  by (simp add: touches_def same_rest_def links_ok_def link_ok_def)

lemma touches_highest: "touches X s t \<Longrightarrow> highest_page_index t = highest_page_index s"
  by (simp add: touches_def same_rest_def)

lemma link_ok_cong: "highest_page_index t = highest_page_index s \<Longrightarrow> link_ok t p = link_ok s p"
  by (simp add: link_ok_def)

lemma seg_ok_touches:
  assumes "touches X s t" "seg_ok s a b" "a \<notin> X" "b \<notin> X"
  shows "seg_ok t a b"
  using assms by (auto simp: touches_def seg_ok_def core_def)

lemma touches_write:
  "i \<in> X \<Longrightarrow> touches X s (s\<lparr>pages := (pages s)(i := h)\<rparr>)"
  by (auto simp: touches_def same_rest_def links_ok_def link_ok_def)

lemma touches_link_write:
  assumes "link_ok s l"
  shows "touches X s (s\<lparr>pages := (pages s)(i := (pages s i)\<lparr>seg_next := l\<rparr>)\<rparr>)"
    "touches X s (s\<lparr>pages := (pages s)(i := (pages s i)\<lparr>seg_last := l\<rparr>)\<rparr>)"
  using assms
  by (auto simp: touches_def same_rest_def core_def links_ok_def link_ok_def)

subsection \<open>The list operations keep the segment headers\<close>

lemma free_list_unlink_wp:
  assumes p: "p < highest_page_index s" "links_ok s p" and e: "link_ok s (pmm_last_free_entry_free_list s)"
  shows "wp (free_list_unlink (Some p))
    (\<lambda>_ t. touches {} s t \<and> link_ok t (pmm_last_free_entry_free_list t)) s"
proof -
  let ?I = "\<lambda>t. touches {} s t \<and> links_ok t p \<and> link_ok t (pmm_last_free_entry_free_list t)"
  have step: "wp (whenc (l \<noteq> None) (fwrite l f)) (\<lambda>_. ?I) t"
    if t: "?I t" and l: "link_ok t l"
      and f: "f = (\<lambda>h. h\<lparr>seg_next := l'\<rparr>) \<or> f = (\<lambda>h. h\<lparr>seg_last := l'\<rparr>)" "link_ok t l'" for l l' f t
  proof (cases l)
    case None
    then show ?thesis using t by (simp add: wp_simps)
  next
    case (Some i)
    let ?u = "t\<lparr>pages := (pages t)(i := f (pages t i))\<rparr>"
    have tu: "touches {} t ?u" using f touches_link_write [of t l' "{}" i] by auto
    then have "touches {} s ?u" using touches_trans t by blast
    moreover have "links_ok ?u p" using tu t by (auto simp: touches_def)
    moreover have "link_ok ?u (pmm_last_free_entry_free_list ?u)" using t by (simp add: link_ok_def)
    ultimately show ?thesis using Some l by (simp add: wp_simps link_ok_def)
  qed
  have I0: "?I s" using assms by simp
  have lk: "link_ok t (seg_last (pages t p))" "link_ok t (seg_next (pages t p))" "p < highest_page_index t" 
    if "?I t" for t using that p touches_highest [of "{}" s t] by (auto simp: links_ok_def)
  have wI: "wp (bindc (fread (Some p)) g) Q t" if "?I t" "wp (g (pages t p)) Q t" for g t
      and Q :: "unit \<Rightarrow> pmm_state \<Rightarrow> bool"
    using that lk by (simp add: wp_simps)
  note stepN = step [OF _ _ disjI1 [OF refl]] and stepL = step [OF _ _ disjI2 [OF refl]]
  have entry: "wp (bindc (getc pmm_last_free_entry_free_list) (\<lambda>entry. whenc (Some p = entry)
      (modc (\<lambda>s. s\<lparr>pmm_last_free_entry_free_list := seg_last (pages t p)\<rparr>))))
    (\<lambda>_ t. touches {} s t \<and> link_ok t (pmm_last_free_entry_free_list t)) t" if "?I t" for t
    using that lk(1) [OF that] by (simp add: wp_simps link_ok_def)
  show ?thesis
    unfolding free_list_unlink_def
    by (rule wI [OF I0], rule wp_seqcI, rule stepN [OF I0 lk(1,2) [OF I0]], rule wI, assumption,
      rule wp_seqcI, rule stepL, assumption, erule lk, erule lk, rule wI, assumption, rule entry)
qed

lemma pmm_remove_wp:
  assumes h: "highest_page_index s \<le> 4503599627370496" and seg: "seg_ok s i b"
    and b: "b < highest_page_index s" and n: "0 < n" "i + n \<le> Suc b"
    and e: "link_ok s (pmm_last_free_entry_free_list s)"
  shows "wp (pmm_remove_pages_to_free_list i n) (\<lambda>_ t. touches {i + n, b} s t \<and>
    link_ok t (pmm_last_free_entry_free_list t) \<and> (i + n \<le> b \<longrightarrow> seg_ok t (i + n) b)) s"
proof -
  have i: "i < highest_page_index s" "i < 4503599627370496" using h b n by auto
  have pc: "page_count (pages s i) = Suc b - i" using seg by (simp add: seg_ok_def)
  show ?thesis
  proof (cases "Suc b - i = n")
    case True
    then have "wp (pmm_remove_pages_to_free_list i n)
      (\<lambda>_ t. touches {} s t \<and> link_ok t (pmm_last_free_entry_free_list t)) s"
      using free_list_unlink_wp [OF i(1) _ e] seg i pc
      by (simp add: pmm_remove_pages_to_free_list_def wp_simps seg_ok_def)
    then show ?thesis
      using True n by (auto elim!: wp_mono touches_mono)
  next
    case False
    then have in': "i + n < highest_page_index s" "i + n < 4503599627370496" "i + n \<le> b"
      using n h b by auto
    define e' where "e' = (if Some i = pmm_last_free_entry_free_list s then Some (i + n)
       else pmm_last_free_entry_free_list s)"
    define P where "P = (pages s)(i + n := (pages s (i + n))\<lparr>seg_next := seg_next (pages s i),
      seg_last := seg_last (pages s i), page_count := Suc b - (i + n), index_start := i + n,
      index_end := b, hdr_end := Some b\<rparr>)"
    define t where "t = s\<lparr>pages := P(b := (P b)\<lparr>hdr_start := Some (i + n)\<rparr>),
      pmm_last_free_entry_free_list := e'\<rparr>"
    have sub: "u64_sub (Suc b - i) n = Suc b - (i + n)"
      using in' b h by (subst u64_sub_small) auto
    have "wp (pmm_remove_pages_to_free_list i n) (\<lambda>_ u. u = t) s"
      using False in' i pc seg b n sub
      by (simp add: pmm_remove_pages_to_free_list_def wp_simps seg_ok_def u64_add_small u64_sub_small
         t_def P_def e'_def Let_def fun_upd_twist)
    moreover have "touches {i + n, b} s t"
      by (auto simp: t_def P_def touches_def same_rest_def links_ok_def link_ok_def)
    moreover have "link_ok t e'" using e in' by (simp add: link_ok_def e'_def t_def)
    moreover have "seg_ok t (i + n) b"
      using seg in' by (auto simp: seg_ok_def t_def P_def links_ok_def link_ok_def)
    ultimately show ?thesis by (auto elim!: wp_mono simp: t_def)
  qed
qed

lemma pmm_merge_both_wp:
  assumes h: "highest_page_index s \<le> 4503599627370496"
    and lo: "seg_ok s lo (i - 1)" "lo < i" and hi: "seg_ok s (i + n) hi" "i + n \<le> hi"
    and b: "hi < highest_page_index s" and e: "link_ok s (pmm_last_free_entry_free_list s)"
  shows "wp (pmm_merge_both i n) (\<lambda>_ t. touches {lo, hi} s t \<and>
    link_ok t (pmm_last_free_entry_free_list t) \<and> seg_ok t lo hi) s"
proof -
  have b': "i - 1 < highest_page_index s" "i - 1 < 4503599627370496" "lo < highest_page_index s"
    "i + n < highest_page_index s" "i + n < 4503599627370496" "lo \<noteq> i + n" "lo \<noteq> hi" "hi \<noteq> lo"
    "i + n \<noteq> lo" using assms by auto
  have ar: "u64_add i n = i + n" "u64_sub i (Suc 0) = i - 1"
    "u64_add (i - lo) (u64_add n (Suc hi - (i + n))) = Suc hi - lo"
    using b' lo hi b h by (simp_all add: u64_add_small u64_sub_small)
  define P where "P = (pages s)(lo := (pages s lo)\<lparr>hdr_end := Some hi, index_end := hi,
     page_count := Suc hi - lo\<rparr>, hi := (pages s hi)\<lparr>hdr_start := Some lo\<rparr>)"
  define u where "u = s\<lparr>pages := P\<rparr>"
  have tu: "touches {lo, hi} s u"
    by (auto simp: u_def P_def touches_def same_rest_def links_ok_def link_ok_def)
  have su: "seg_ok u lo hi" "links_ok u (i + n)" "link_ok u (pmm_last_free_entry_free_list u)"
    "i + n < highest_page_index u"
    using lo hi b' e by (auto simp: u_def P_def seg_ok_def links_ok_def link_ok_def)
  have un: "wp (free_list_unlink (Some (i + n))) (\<lambda>_ t. touches {lo, hi} s t \<and>
    link_ok t (pmm_last_free_entry_free_list t) \<and> seg_ok t lo hi) u"
    using free_list_unlink_wp [OF su(4,2,3)] 
    by (rule wp_mono) (use touches_links [OF tu] seg_ok_touches [of "{}", OF _ su(1)] in simp)
  have ups: "(pages s)(lo := pages s lo\<lparr>hdr_end := Some hi\<rparr>,
         hi := pages s hi\<lparr>hdr_start := Some lo\<rparr>,
         lo := pages s lo \<lparr>hdr_end := Some hi, index_end := hi, page_count := Suc hi - lo\<rparr>) = P"
     using b' by (simp add: P_def fun_upd_twist)
  have f: "hdr_start (pages s (i - 1)) = Some lo" "page_count (pages s lo) = i - lo"
    "hdr_end (pages s (i + n)) = Some hi" "index_end (pages s (i + n)) = hi"
    "page_count (pages s (i + n)) = Suc hi - (i + n)"
    using lo hi by (auto simp: seg_ok_def)
  have eq: "wp (pmm_merge_both i n) Q s = wp (free_list_unlink (Some (i + n))) Q u" for Q
  proof (cases "hi = i + n")
    case True
    then show ?thesis
      unfolding pmm_merge_both_def Let_def u_def
      using f b' ar b ups by (simp add: wp_simps)
  next
    case False
    then show ?thesis
      unfolding pmm_merge_both_def Let_def u_def
      using f b' ar b ups by (simp add: wp_simps)
  qed
  show ?thesis unfolding eq by (rule un)
qed

lemma pmm_merge_next_wp:
  assumes h: "highest_page_index s \<le> 4503599627370496"
    and n: "0 < n" and hi: "seg_ok s (i + n) hi" "i + n \<le> hi"
    and b: "hi < highest_page_index s" and e: "link_ok s (pmm_last_free_entry_free_list s)"
  shows "wp (pmm_merge_next i n) (\<lambda>_ t. touches {i, hi} s t \<and>
    link_ok t (pmm_last_free_entry_free_list t) \<and> seg_ok t i hi) s"
proof -
  have b': "i < highest_page_index s" "i < 4503599627370496" "i + n < highest_page_index s"
    "i + n < 4503599627370496" "i \<noteq> i + n" "i \<noteq> hi" "hi \<noteq> i" using assms by auto
  have ar: "u64_add i n = i + n" "u64_add (Suc hi - (i + n)) n = Suc hi - i"
    using b' hi b h by (simp_all add: u64_add_small)
  have f: "hdr_end (pages s (i + n)) = Some hi" "index_end (pages s (i + n)) = hi"
    "page_count (pages s (i + n)) = Suc hi - (i + n)"
    using hi by (auto simp: seg_ok_def)
  define t where "t = s\<lparr>pages := (pages s)(hi := (pages s hi)\<lparr>hdr_start := Some i\<rparr>,
     i := (pages s i)\<lparr>hdr_end := Some hi, index_start := i,
     page_count := Suc hi - i, index_end := hi, seg_next := seg_next (pages s (i + n)),
     seg_last := seg_last (pages s (i + n))\<rparr>),
     pmm_last_free_entry_free_list := (if Some (i + n) = pmm_last_free_entry_free_list s
        then Some i else pmm_last_free_entry_free_list s)\<rparr>"
  have "wp (pmm_merge_next i n) (\<lambda>_ u. u = t) s"
    unfolding pmm_merge_next_def Let_def t_def
    using f b' ar b by (cases "hi = i + n") (simp_all add: wp_simps)
  moreover have "touches {i, hi} s t"
    by (auto simp: t_def touches_def same_rest_def links_ok_def link_ok_def)
  moreover have "link_ok t (pmm_last_free_entry_free_list t)"
    using e b' by (simp add: t_def link_ok_def)
  moreover have "seg_ok t i hi"
    using b' hi by (auto simp: t_def seg_ok_def links_ok_def link_ok_def)
  ultimately show ?thesis by (auto elim!: wp_mono)
qed

lemma pmm_merge_last_wp:
  assumes h: "highest_page_index s \<le> 4503599627370496"
    and n: "0 < n" and lo: "seg_ok s lo (i - 1)" "lo < i"
    and b: "i + n \<le> highest_page_index s"
  shows "wp (pmm_merge_last i n) (\<lambda>_ t. touches {lo, i + n - 1} s t \<and>
    pmm_last_free_entry_free_list t = pmm_last_free_entry_free_list s \<and>
    seg_ok t lo (i + n - 1)) s"
proof -
  have b': "i - 1 < highest_page_index s" "i - 1 < 4503599627370496" "lo < highest_page_index s"
    "i + n - 1 < highest_page_index s" "i + n - 1 < 4503599627370496" "lo \<noteq> i + n - 1"
    using assms by auto
  have ar: "u64_sub (u64_add i n) (Suc 0) = i + n - 1" "u64_sub i (Suc 0) = i - 1"
    "u64_add (i - lo) n = i + n - lo"
    using b' lo b h n by (simp_all add: u64_add_small u64_sub_small)
  have f: "hdr_start (pages s (i - 1)) = Some lo" "page_count (pages s lo) = i - lo"
    using lo by (auto simp: seg_ok_def)
  define t where "t = s\<lparr>pages := (pages s)(lo := (pages s lo)\<lparr>page_count := i + n - lo,
     index_end := i + n - 1, hdr_end := Some (i + n - 1)\<rparr>,
     i + n - 1 := (pages s (i + n - 1))\<lparr>hdr_start := Some lo\<rparr>)\<rparr>"
  have "wp (pmm_merge_last i n) (\<lambda>_ u. u = t) s"
    unfolding pmm_merge_last_def Let_def t_def
    using f b' ar b by (simp add: wp_simps)
  moreover have "touches {lo, i + n - 1} s t"
    by (auto simp: t_def touches_def same_rest_def links_ok_def link_ok_def)
  moreover have "seg_ok t lo (i + n - 1)"
    using b' lo n by (auto simp: t_def seg_ok_def links_ok_def link_ok_def)
  ultimately show ?thesis by (auto elim!: wp_mono simp: t_def)
qed

lemma pmm_new_segment_wp:
  assumes h: "highest_page_index s \<le> 4503599627370496"
    and n: "0 < n" and b: "i + n \<le> highest_page_index s"
    and e: "link_ok s (pmm_last_free_entry_free_list s)"
  shows "wp (pmm_new_segment i n) (\<lambda>_ t. touches {i, i + n - 1} s t \<and>
    link_ok t (pmm_last_free_entry_free_list t) \<and> seg_ok t i (i + n - 1)) s"
proof -
  define l where "l = i + n - 1"
  have b': "i < highest_page_index s" "i < 4503599627370496"
    "l < highest_page_index s" "l < 4503599627370496" and n': "n = Suc l - i"
    using assms by (auto simp: l_def)
  have ar: "u64_sub (u64_add i n) (Suc 0) = l"
    using b' b h n by (simp_all add: u64_add_small u64_sub_small l_def)
  define u where "u = (let P = (pages s)(i := (pages s i)\<lparr>index_start := i,
       index_end := l, page_count := n, hdr_end := Some (l)\<rparr>);
     R = P(l := (P (l))\<lparr>hdr_start := Some i\<rparr>) in
     s\<lparr>pages := R(i := (R i)\<lparr>seg_last := pmm_last_free_entry_free_list s, seg_next := None\<rparr>)\<rparr>)"
  have su: "touches {i, l} s u" "seg_ok u i (l)"
    "pmm_last_free_entry_free_list u = pmm_last_free_entry_free_list s"
    "highest_page_index u = highest_page_index s"
    using e n' by (auto simp: u_def Let_def touches_def same_rest_def seg_ok_def links_ok_def link_ok_def)
  define t where "t = (case pmm_last_free_entry_free_list s of None \<Rightarrow> u
     | Some j \<Rightarrow> u\<lparr>pages := (pages u)(j := (pages u j)\<lparr>seg_next := Some i\<rparr>)\<rparr>)"
  have w: "wp (pmm_new_segment i n) (\<lambda>_ v. v = t\<lparr>pmm_last_free_entry_free_list := Some i\<rparr>) s"
    unfolding pmm_new_segment_def t_def u_def Let_def
    using b' ar e
    by (cases "pmm_last_free_entry_free_list s") (simp_all add: wp_simps link_ok_def del: fun_upd_apply)
  have ut: "touches {} u t"
    using touches_link_write(1) [of u "Some i" "{}"] b' su(4)
    by (auto simp: t_def link_ok_def split: option.split)
  have "touches {i, l} s t" by (rule touches_links [OF su(1) ut])
  moreover have "seg_ok t i (l)" using seg_ok_touches [OF ut su(2)] by simp
  moreover have "seg_ok (t\<lparr>pmm_last_free_entry_free_list := Some i\<rparr>) = seg_ok t"
    by (intro ext) (simp add: seg_ok_def links_ok_def link_ok_def)
  moreover have "link_ok (t\<lparr>pmm_last_free_entry_free_list := Some i\<rparr>) (Some i)"
    using b' su(4) by (simp add: link_ok_def t_def split: option.split)
  ultimately show ?thesis unfolding l_def [symmetric] using w by (auto elim!: wp_mono)
qed

lemma other_run_apart:
  assumes n: "0 < n" and dis: "{i..<i + n} \<inter> F = {}"
    and lo: "block_lo F i lo" and hi: "block_hi F (i + n) hi"
    and r: "run F a b" "Suc b \<noteq> i" "a \<noteq> i + n"
  shows "a \<notin> {lo, hi}" "b \<notin> {lo, hi}"
proof -
  note ins = run_insert_block [OF n dis lo hi]
  have m: "run (F \<union> {i..<i + n}) lo hi" and r': "run (F \<union> {i..<i + n}) a b"
    using ins r by auto
  have "i \<in> {i..<i + n}" using n by simp
  then have "i \<notin> F" using dis by blast
  then have i: "lo \<le> i" "i \<le> hi" "i \<notin> F"
    using lo hi n by (auto simp: block_lo_def block_hi_def run_def)
  have "\<not> (\<exists>k. lo \<le> k \<and> k \<le> hi \<and> a \<le> k \<and> k \<le> b)"
  proof
    assume "\<exists>k. lo \<le> k \<and> k \<le> hi \<and> a \<le> k \<and> k \<le> b"
    then have "a = lo" "b = hi" using run_meet [OF m r'] by blast+
    then show False using runD(2) [OF r(1), of i] i by simp
  qed
  moreover have "lo \<le> hi" "a \<le> b" using i runD(1) [OF r(1)] by auto
  ultimately show "a \<notin> {lo, hi}" "b \<notin> {lo, hi}" by auto
qed

lemma segs_ok_insert:
  assumes n: "0 < n" and dis: "{i..<i + n} \<inter> F = {}"
    and lo: "block_lo F i lo" and hi: "block_hi F (i + n) hi" and s: "segs_ok s F"
    and t: "touches {lo, hi} s t" "link_ok t (pmm_last_free_entry_free_list t)" "seg_ok t lo hi"
  shows "segs_ok t (F \<union> {i..<i + n})"
  unfolding segs_ok_def run_insert_block [OF n dis lo hi]
  using s t other_run_apart [OF n dis lo hi] seg_ok_touches [OF t(1)]
  by (auto simp: segs_ok_def)

lemma pmm_add_wp:
  assumes g: "pmm_geom s" and so: "segs_ok s (free_pages s)"
    and n: "0 < n" "0 < i" "i + n \<le> highest_page_index s"
    and dis: "{i..<i + n} \<inter> free_pages s = {}"
  shows "wp (pmm_add_page_to_free_list i n)
    (\<lambda>_ t. same_rest s t \<and> segs_ok t (free_pages s \<union> {i..<i + n})) s"
proof -
  let ?F = "free_pages s"
  have h: "highest_page_index s \<le> 4503599627370496" "highest_page_index s < 8 * length (pmm_bitmap s)"
    and F: "?F \<subseteq> {0<..<highest_page_index s}"
    using g by (auto simp: pmm_geom_def)
  have ar: "u64_add i n = i + n" "u64_sub i (Suc 0) = i - 1"
    using h n by (simp_all add: u64_add_small u64_sub_small)
  have bits: "i + n < 8 * length (pmm_bitmap s)" "i - 1 < 8 * length (pmm_bitmap s)"
    "i + n \<in> bm_bits (pmm_bitmap s) \<longleftrightarrow> i + n \<notin> ?F" "i - 1 \<in> bm_bits (pmm_bitmap s) \<longleftrightarrow> i - 1 \<notin> ?F"
    using h n by (auto simp: free_pages_def)
  have "i \<in> {i..<i + n}" "i + n - 1 \<in> {i..<i + n}" using n by auto
  then have "i \<notin> ?F" "i + n - 1 \<notin> ?F" using dis by blast+
  then obtain lo hi where lo: "block_lo ?F i lo" and hi: "block_hi ?F (i + n) hi"
    using block_lo_ex [of i ?F] block_hi_ex [of ?F "i + n"] n by auto
  have fin: "wp m (\<lambda>_ t. same_rest s t \<and> segs_ok t (?F \<union> {i..<i + n})) s"
    if "wp m (\<lambda>_ t. touches {lo, hi} s t \<and> link_ok t (pmm_last_free_entry_free_list t) \<and> seg_ok t lo hi) s"
    for m :: "(unit, pmm_state) cmd"
    using that
    by (rule wp_mono) (use segs_ok_insert [OF n(1) dis lo hi so] in \<open>auto simp: touches_def\<close>)
  have e: "link_ok s (pmm_last_free_entry_free_list s)" using so by (simp add: segs_ok_def)
  have L: "seg_ok s lo (i - 1)" "lo < i" if "i - 1 \<in> ?F"
    using lo so that n runD(1) [of ?F lo "i - 1"] by (auto simp: block_lo_def segs_ok_def)
  have H: "seg_ok s (i + n) hi" "i + n \<le> hi" "hi < highest_page_index s" if "i + n \<in> ?F"
    using hi so that n runD(1,6) [of ?F "i + n" hi] F by (auto simp: block_hi_def segs_ok_def)
  have L': "lo = i" if "i - 1 \<notin> ?F" using lo that by (auto simp: block_lo_def)
  have H': "hi = i + n - 1" if "i + n \<notin> ?F" using hi that by (auto simp: block_hi_def)
  let ?Q = "\<lambda>_ t. touches {lo, hi} s t \<and> link_ok t (pmm_last_free_entry_free_list t) \<and> seg_ok t lo hi"
  have sel: "wp (pmm_add_page_to_free_list i n) Q s =
    wp (if i + n \<in> ?F then (if i - 1 \<in> ?F then pmm_merge_both i n else pmm_merge_next i n)
        else if i - 1 \<in> ?F then pmm_merge_last i n else pmm_new_segment i n) Q s" for Q
    using bits by (simp add: pmm_add_page_to_free_list_def wp_simps ar)
  show ?thesis
  proof (rule fin, unfold sel)
    have both: "wp (pmm_merge_both i n) ?Q s" if "i - 1 \<in> ?F" "i + n \<in> ?F"
      using pmm_merge_both_wp [OF h(1) L H e] that by blast
    have nxt: "wp (pmm_merge_next i n) ?Q s" if "i - 1 \<notin> ?F" "i + n \<in> ?F"
      using pmm_merge_next_wp [OF h(1) n(1) H e] L' that by simp
    have lst: "wp (pmm_merge_last i n) ?Q s" if "i - 1 \<in> ?F" "i + n \<notin> ?F"
      using pmm_merge_last_wp [OF h(1) n(1) L n(3)] H' e that
      by (auto elim!: wp_mono simp: touches_def same_rest_def link_ok_def)
    have new: "wp (pmm_new_segment i n) ?Q s" if "i - 1 \<notin> ?F" "i + n \<notin> ?F"
      using pmm_new_segment_wp [OF h(1) n(1) n(3) e] H' L' that by simp
    show "wp (if i + n \<in> ?F then (if i - 1 \<in> ?F then pmm_merge_both i n else pmm_merge_next i n)
        else if i - 1 \<in> ?F then pmm_merge_last i n else pmm_new_segment i n) ?Q s"
      using both nxt lst new by presburger
  qed
qed

subsection \<open>Freeing\<close>

lemma segs_ok_cong:
  assumes "pages t = pages s" "highest_page_index t = highest_page_index s"
    "pmm_last_free_entry_free_list t = pmm_last_free_entry_free_list s"
  shows "segs_ok t F = segs_ok s F"
  using assms by (simp add: segs_ok_def seg_ok_def links_ok_def link_ok_def)

lemma segs_ok_simps [simp]:
  "segs_ok (s\<lparr>pmm_lock := l\<rparr>) F = segs_ok s F"
  "segs_ok (s\<lparr>pmm_bitmap := bm\<rparr>) F = segs_ok s F"
  "segs_ok (s\<lparr>available_pages := w\<rparr>) F = segs_ok s F"
  "segs_ok (s\<lparr>used_pages := w\<rparr>) F = segs_ok s F"
  "segs_ok (s\<lparr>reserved_pages := w\<rparr>) F = segs_ok s F"
  "segs_ok (s\<lparr>pmm_first_free_page_index := i\<rparr>) F = segs_ok s F"
  by (rule segs_ok_cong; simp)+

lemma free_pages_simps [simp]:
  "free_pages (s\<lparr>pmm_lock := l\<rparr>) = free_pages s"
  "free_pages (s\<lparr>available_pages := w\<rparr>) = free_pages s"
  "free_pages (s\<lparr>used_pages := w\<rparr>) = free_pages s"
  "free_pages (s\<lparr>reserved_pages := w\<rparr>) = free_pages s"
  "free_pages (s\<lparr>pmm_first_free_page_index := i\<rparr>) = free_pages s"
  by (simp_all add: free_pages_def)

lemma wp_bm_set_bits:
  assumes "i + n \<le> 8 * length (pmm_bitmap s)" "8 * length (pmm_bitmap s) < 18446744073709551616"
    and "\<And>bm. length bm = length (pmm_bitmap s) \<Longrightarrow>
      bm_bits bm = (if v then bm_bits (pmm_bitmap s) \<union> {i..<i + n}
                    else bm_bits (pmm_bitmap s) - {i..<i + n}) \<Longrightarrow> Q () (s\<lparr>pmm_bitmap := bm\<rparr>)"
  shows "wp (bm_set_bits i n v) Q s"
  using bitmap_set_bits_eq [OF assms(1,2), of v] assms(3)
  by (auto simp: wp_def bm_set_bits_def)

lemma pmm_geom_lens:
  assumes "pmm_geom s"
  shows "8 * length (pmm_bitmap s) < 18446744073709551616" "highest_page_index s \<le> 4503599627370496"
    "highest_page_index s < 8 * length (pmm_bitmap s)" "free_pages s \<subseteq> {0<..<highest_page_index s}"
  using assms by (auto simp: pmm_geom_def)

definition same_config :: "pmm_state \<Rightarrow> pmm_state \<Rightarrow> bool" where
  "same_config s t \<longleftrightarrow> reserved_pages t = reserved_pages s \<and> total_pages t = total_pages s \<and>
     highest_page_index t = highest_page_index s"

lemma pmm_free_pages_index_wp:
  assumes inv: "pmm_inv s" and n: "0 < n" "0 < i" "i + n \<le> highest_page_index s"
    and dis: "{i..<i + n} \<inter> free_pages s = {}"
  shows "wp (pmm_free_pages_index i n) (\<lambda>_ t. pmm_inv t \<and> same_config s t \<and>
    free_pages t = free_pages s \<union> {i..<i + n} \<and>
    available_pages t = available_pages s + of_nat n \<and> used_pages t = used_pages s - of_nat n) s"
proof -
  let ?F = "free_pages s" and ?s = "s\<lparr>pmm_lock := True\<rparr>"
  have g: "pmm_geom s" "\<not> pmm_lock s" "segs_ok s ?F" "\<forall>k < pmm_first_free_page_index s. k \<notin> ?F"
    using inv by (auto simp: pmm_inv_def)
  note ln = pmm_geom_lens [OF g(1)]
  have fs: "free_pages ?s = ?F" by (simp add: free_pages_def)
  have "pmm_geom ?s" using g(1) fs by (simp add: pmm_geom_def)
  then have add: "wp (pmm_add_page_to_free_list i n)
    (\<lambda>_ t. same_rest ?s t \<and> segs_ok t (?F \<union> {i..<i + n})) ?s"
    using pmm_add_wp [of ?s n i] g(3) n dis fs by simp
  have F: "free_pages (t\<lparr>pmm_bitmap := bm\<rparr>) = ?F \<union> {i..<i + n}"
    if "length bm = length (pmm_bitmap s)" "bm_bits bm = bm_bits (pmm_bitmap s) - {i..<i + n}" for t bm
    using that n ln by (auto simp: free_pages_def)
  have rest: "wp (seqc (bm_set_bits i n False)
    (seqc (modc (\<lambda>s. s\<lparr>available_pages := available_pages s + of_nat n,
                      used_pages := used_pages s - of_nat n\<rparr>))
    (seqc (modc (\<lambda>s. if i < pmm_first_free_page_index s
                     then s\<lparr>pmm_first_free_page_index := i\<rparr> else s))
    (lock_release pmm_lock_update)))) (\<lambda>_ t. pmm_inv t \<and> same_config s t \<and>
    free_pages t = free_pages s \<union> {i..<i + n} \<and>
    available_pages t = available_pages s + of_nat n \<and> used_pages t = used_pages s - of_nat n) t"
    if t: "same_rest ?s t \<and> segs_ok t (?F \<union> {i..<i + n})" for t
    unfolding wp_seqc
  proof (rule wp_bm_set_bits)
    show "i + n \<le> 8 * length (pmm_bitmap t)" "8 * length (pmm_bitmap t) < 18446744073709551616"
      using t n ln by (auto simp: same_rest_def)
    fix bm :: bitmap_t
    assume bm: "length bm = length (pmm_bitmap t)"
      "bm_bits bm = (if False then bm_bits (pmm_bitmap t) \<union> {i..<i + n}
         else bm_bits (pmm_bitmap t) - {i..<i + n})"
    then have Ft: "free_pages (t\<lparr>pmm_bitmap := bm\<rparr>) = ?F \<union> {i..<i + n}"
      using F t by (simp add: same_rest_def)
    show "wp (modc (\<lambda>s. s\<lparr>available_pages := available_pages s + of_nat n,
        used_pages := used_pages s - of_nat n\<rparr>))
     (\<lambda>_. wp (modc (\<lambda>s. if i < pmm_first_free_page_index s
                     then s\<lparr>pmm_first_free_page_index := i\<rparr> else s))
        (\<lambda>_. wp (lock_release pmm_lock_update) (\<lambda>_ t. pmm_inv t \<and> same_config s t \<and>
    free_pages t = free_pages s \<union> {i..<i + n} \<and>
    available_pages t = available_pages s + of_nat n \<and> used_pages t = used_pages s - of_nat n)))
     (t\<lparr>pmm_bitmap := bm\<rparr>)"
      using t g(4) Ft bm(1) n ln
      by (auto simp: wp_simps pmm_inv_def same_config_def same_rest_def pmm_geom_def)
  qed
  show ?thesis
    unfolding pmm_free_pages_index_def
    using g(2) wp_seqcI [OF add rest] by (simp add: wp_simps)
qed

subsection \<open>Allocation of one page\<close>

lemma pmm_scan_none:
  assumes "h \<le> 8 * length bm" "\<forall>k. i \<le> k \<and> k < h \<longrightarrow> k \<in> bm_bits bm"
  shows "pmm_scan h i bm = Inr None"
  using assms
proof (induction h i bm rule: pmm_scan.induct)
  case (1 h i bm)
  show ?case
  proof (cases "i < h")
    case True
    then have "bitmap_get_set_bit bm i True = Inr (True, bm)"
      using 1(2,3) by (intro bitmap_get_set_bit_same) auto
    with 1 True show ?thesis by (subst pmm_scan.simps) simp
  qed (simp add: pmm_scan.simps)
qed

lemma pmm_scan_some:
  assumes "h \<le> 8 * length bm" "i \<le> k" "k < h" "k \<notin> bm_bits bm"
    "\<forall>j. i \<le> j \<and> j < k \<longrightarrow> j \<in> bm_bits bm"
  shows "\<exists>bm'. pmm_scan h i bm = Inr (Some (k, bm')) \<and> length bm' = length bm \<and>
           bm_bits bm' = insert k (bm_bits bm)"
  using assms
proof (induction h i bm rule: pmm_scan.induct)
  case (1 h i bm)
  have ih: "i < h" using 1 by simp
  show ?case
  proof (cases "i = k")
    case True
    with 1(2,4,5) show ?thesis
      using bitmap_get_set_bit_eq [of i bm True] by (subst pmm_scan.simps) auto
  next
    case False
    then have "bitmap_get_set_bit bm i True = Inr (True, bm)"
      using 1(2-) by (intro bitmap_get_set_bit_same) auto
    with 1 False ih show ?thesis by (subst pmm_scan.simps) simp
  qed
qed

lemma run_notin:
  assumes "run F i b" "run F a' b'" "a' \<noteq> i" "i \<le> k" "k \<le> Suc b"
  shows "a' \<noteq> k" "b' \<noteq> k"
proof -
  have "k \<notin> {a'..b'}"
  proof (cases "k = Suc b")
    case True
    then show ?thesis using runD(3) [OF assms(1)] runD(2) [OF assms(2)] by auto
  next
    case False
    then show ?thesis using run_meet(1) [OF assms(1,2), of k] assms(3-5) by auto
  qed
  then show "a' \<noteq> k" "b' \<noteq> k" using runD(1) [OF assms(2)] by auto
qed

lemma pmm_remove_segs:
  assumes so: "segs_ok s F" and r: "run F i b" and h: "highest_page_index s \<le> 4503599627370496"
    and b: "b < highest_page_index s" and n: "0 < n" "i + n \<le> Suc b"
  shows "wp (pmm_remove_pages_to_free_list i n)
    (\<lambda>_ t. same_rest s t \<and> segs_ok t (F - {i..<i + n})) s"
proof (rule wp_mono [OF pmm_remove_wp [OF h _ b n]])
  show "seg_ok s i b" "link_ok s (pmm_last_free_entry_free_list s)"
    using so r by (auto simp: segs_ok_def)
  fix u t
  assume t: "touches {i + n, b} s t \<and> link_ok t (pmm_last_free_entry_free_list t) \<and>
    (i + n \<le> b \<longrightarrow> seg_ok t (i + n) b)"
  have "seg_ok t a' b'" if r': "run (F - {i..<i + n}) a' b'" for a' b'
  proof (cases "a' = i + n \<and> b' = b \<and> i + n \<le> b")
    case True
    then show ?thesis using t by simp
  next
    case False
    with run_remove_prefix [OF r n] r' have o: "run F a' b'" "a' \<noteq> i" by auto
    have "i \<le> b" using runD(1) [OF r] .
    then have "a' \<notin> {i + n, b}" "b' \<notin> {i + n, b}"
      using run_notin [OF r o, of "i + n"] run_notin [OF r o, of b] n by auto
    with o so t show ?thesis by (auto simp: segs_ok_def intro: seg_ok_touches)
  qed
  with t show "same_rest s t \<and> segs_ok t (F - {i..<i + n})"
    by (simp add: segs_ok_def touches_def)
qed

lemma pmm_allocate_page_wp:
  assumes inv: "pmm_inv s" and ne: "free_pages s \<noteq> {}" and k: "k = Min (free_pages s)"
  shows "wp pmm_allocate_page (\<lambda>a t. a = k * 4096 \<and> pmm_inv t \<and> same_config s t \<and>
    free_pages t = free_pages s - {k} \<and>
    available_pages t = available_pages s - 1 \<and> used_pages t = used_pages s + 1) s"
proof -
  let ?F = "free_pages s"
  have g: "pmm_geom s" "\<not> pmm_lock s" "segs_ok s ?F" "\<forall>k < pmm_first_free_page_index s. k \<notin> ?F"
    using inv by (auto simp: pmm_inv_def)
  note ln = pmm_geom_lens [OF g(1)]
  have kF: "k \<in> ?F" "\<And>j. j < k \<Longrightarrow> j \<notin> ?F"
    using k ne Min_in [of ?F] Min_le [of ?F] by (auto simp flip: not_le)
  then have kh: "k < highest_page_index s" "0 < k" "pmm_first_free_page_index s \<le> k"
    using ln(4) g(4) by (auto simp flip: not_less)
  obtain b where r: "run ?F k b" using run_ex_start [of ?F k] kF by (auto simp: kh(2))
  have bF: "b \<in> ?F" "k \<le> b" using runD [OF r] by auto
  then have bh: "b < highest_page_index s" using ln(4) by auto
  have "k \<notin> bm_bits (pmm_bitmap s)"
    "\<forall>j. pmm_first_free_page_index s \<le> j \<and> j < k \<longrightarrow> j \<in> bm_bits (pmm_bitmap s)"
    using kF kh ln by (auto simp: free_pages_def)
  from pmm_scan_some [OF _ kh(3) kh(1) this] ln(3) obtain bm where
    bm: "pmm_scan (highest_page_index s) (pmm_first_free_page_index s) (pmm_bitmap s) = Inr (Some (k, bm))"
      "length bm = length (pmm_bitmap s)" "bm_bits bm = insert k (bm_bits (pmm_bitmap s))"
    by auto
  let ?s = "s\<lparr>pmm_lock := True, pmm_bitmap := bm, pmm_first_free_page_index := k,
               available_pages := available_pages s - 1, used_pages := used_pages s + 1\<rparr>"
  have F: "free_pages t = ?F - {k}" if "pmm_bitmap t = bm" for t
    using bm that by (auto simp: free_pages_def)
  have rem: "wp (pmm_remove_pages_to_free_list k (Suc 0))
    (\<lambda>_ t. same_rest ?s t \<and> segs_ok t (?F - {k..<k + Suc 0})) ?s"
    by (rule pmm_remove_segs) (use g(3) r ln bh bF in \<open>simp_all\<close>)
  have "wp (pmm_remove_pages_to_free_list k (Suc 0)) (\<lambda>_ t. pmm_inv (t\<lparr>pmm_lock := False\<rparr>) \<and>
    same_config s t \<and> free_pages t = ?F - {k} \<and>
    available_pages t = available_pages s - 1 \<and> used_pages t = used_pages s + 1) ?s"
  proof (rule wp_mono [OF rem], goal_cases)
    case (1 u t)
    then have "free_pages t = ?F - {k}" by (intro F) (simp add: same_rest_def)
    with 1 g ln bm(2) kF(2) show ?case
      by (auto simp: pmm_inv_def pmm_geom_def same_rest_def same_config_def)
  qed
  moreover have "u64_mul k PAGE_SIZE = k * 4096"
    using kh ln by (simp add: u64_mul_small PAGE_SIZE_def)
  moreover have "wp pmm_take_first Q (s\<lparr>pmm_lock := True\<rparr>) =
    Q k (s\<lparr>pmm_lock := True, pmm_bitmap := bm\<rparr>)" for Q
    using bm(1) by (simp add: wp_def pmm_take_first_def)
  ultimately show ?thesis
    using g(2) by (simp add: pmm_allocate_page_def wp_simps same_config_def)
qed

lemma pmm_allocate_page_none:
  assumes inv: "pmm_inv s" and "free_pages s = {}"
  shows "pmm_allocate_page s = Inl Panic"
proof -
  have "pmm_geom s" "\<not> pmm_lock s" using inv by (auto simp: pmm_inv_def)
  moreover have "pmm_scan (highest_page_index s) (pmm_first_free_page_index s) (pmm_bitmap s) = Inr None"
    using assms(2) pmm_geom_lens [OF calculation(1)] by (intro pmm_scan_none) (auto simp: free_pages_def)
  ultimately show ?thesis
    by (simp add: pmm_allocate_page_def pmm_take_first_def lock_acquire_def cmd_defs)
qed

subsection \<open>Allocation of several pages\<close>

text \<open>\<open>fl_chain s p xs\<close>: from \<open>p\<close> the \<open>last\<close> links lead through exactly the headers \<open>xs\<close>.\<close>

fun fl_chain :: "pmm_state \<Rightarrow> nat option \<Rightarrow> nat list \<Rightarrow> bool" where
  "fl_chain s p [] = (p = None)"
| "fl_chain s p (x # xs) =
     (p = Some x \<and> x < highest_page_index s \<and> fl_chain s (seg_last (pages s x)) xs)"

lemma fl_chain_update [simp]: "fl_chain (s\<lparr>pmm_lock := l\<rparr>) p xs = fl_chain s p xs"
  by (induction xs arbitrary: p) simp_all

lemma fread_Some: "i < highest_page_index s \<Longrightarrow> fread (Some i) s = Inr (pages s i, s)"
  by (simp add: fread_def)

lemma pmm_find_segment_eq:
  assumes "fl_chain s p xs" "xs \<noteq> []" "length xs \<le> fuel"
  shows "pmm_find_segment fuel p n s =
    (case find (\<lambda>x. n \<le> page_count (pages s x)) xs of None \<Rightarrow> Inl Panic | Some x \<Rightarrow> Inr (Some x, s))"
  using assms
proof (induction xs arbitrary: p fuel)
  case (Cons x xs)
  then obtain f where f: "fuel = Suc f" by (cases fuel) auto
  show ?case
  proof (cases xs)
    case Nil
    then show ?thesis using Cons.prems f by (simp add: bindc_def fread_Some cmd_defs)
  next
    case (Cons y ys)
    then have "seg_last (pages s x) \<noteq> None" using Cons.prems by auto
    then show ?thesis using Cons Cons.prems Cons.IH [of "seg_last (pages s x)" f] f
      by (simp add: bindc_def fread_Some cmd_defs)
  qed
qed simp

lemma pmm_lock_pages_index_wp:
  assumes "i + n \<le> 8 * length (pmm_bitmap s)" "8 * length (pmm_bitmap s) < 18446744073709551616"
    and "\<And>bm. length bm = length (pmm_bitmap s) \<Longrightarrow> bm_bits bm = bm_bits (pmm_bitmap s) \<union> {i..<i + n} \<Longrightarrow>
      Q () (s\<lparr>pmm_bitmap := bm, available_pages := available_pages s - of_nat n,
              used_pages := used_pages s + of_nat n\<rparr>)"
  shows "wp (pmm_lock_pages_index i n) Q s"
  unfolding pmm_lock_pages_index_def wp_seqc
  by (rule wp_bm_set_bits [OF assms(1,2)]) (simp add: assms(3) wp_simps)

lemma pmm_allocate_pages_wp:
  assumes inv: "pmm_inv s" and n: "0 < n"
    and ch: "fl_chain s (pmm_last_free_entry_free_list s) xs" "xs \<noteq> []" "length xs \<le> fuel"
    and fd: "find (\<lambda>x. n \<le> page_count (pages s x)) xs = Some i" and r: "run (free_pages s) i b"
  shows "wp (pmm_allocate_pages fuel n) (\<lambda>a t. a = i * 4096 \<and> pmm_inv t \<and> same_config s t \<and>
    i + n \<le> Suc b \<and> free_pages t = free_pages s - {i..<i + n} \<and>
    available_pages t = available_pages s - of_nat n \<and> used_pages t = used_pages s + of_nat n) s"
proof -
  let ?F = "free_pages s" and ?s = "s\<lparr>pmm_lock := True\<rparr>"
  have g: "pmm_geom s" "\<not> pmm_lock s" "segs_ok s ?F" "\<forall>k < pmm_first_free_page_index s. k \<notin> ?F"
    using inv by (auto simp: pmm_inv_def)
  note ln = pmm_geom_lens [OF g(1)]
  have "seg_ok s i b" using g(3) r by (simp add: segs_ok_def)
  moreover have "n \<le> page_count (pages s i)" using fd by (auto simp: find_Some_iff)
  ultimately have seg: "index_start (pages s i) = i" "i + n \<le> Suc b"
    using runD(1) [OF r] by (auto simp: seg_ok_def)
  have bh: "b < highest_page_index s" "i \<le> b" "i < highest_page_index s"
    using runD(1,5,6) [OF r] ln(4) by auto
  have find: "wp (pmm_find_segment fuel (pmm_last_free_entry_free_list s) n) Q ?s = Q (Some i) ?s" for Q
    using pmm_find_segment_eq [of ?s, OF _ ch(2,3), of _ n] ch(1) fd by (simp add: wp_def)
  have rest: "wp (pmm_remove_pages_to_free_list i n)
      (\<lambda>_ t. pmm_inv (t\<lparr>pmm_lock := False\<rparr>) \<and> same_config s t \<and> free_pages t = ?F - {i..<i + n} \<and>
        available_pages t = available_pages s - of_nat n \<and> used_pages t = used_pages s + of_nat n)
      (?s\<lparr>pmm_bitmap := bm, available_pages := available_pages ?s - of_nat n,
          used_pages := used_pages ?s + of_nat n\<rparr>)"
    if bm: "length bm = length (pmm_bitmap ?s)" "bm_bits bm = bm_bits (pmm_bitmap ?s) \<union> {i..<i + n}" for bm
  proof (rule wp_mono [OF pmm_remove_segs [where F = ?F and i = i and b = b and n = n]], goal_cases)
    case (7 u t)
    have "free_pages t = ?F - {i..<i + n}" using 7 bm by (auto simp: free_pages_def same_rest_def)
    with 7 g bm ln(4) show ?case
      by (auto simp: pmm_inv_def pmm_geom_def same_rest_def same_config_def)
  qed (use g(3) r ln bh seg n in \<open>simp_all\<close>)
  have lock: "wp (pmm_lock_pages_index i n) (\<lambda>_. wp (pmm_remove_pages_to_free_list i n)
      (\<lambda>_ t. pmm_inv (t\<lparr>pmm_lock := False\<rparr>) \<and> same_config s t \<and> free_pages t = ?F - {i..<i + n} \<and>
        available_pages t = available_pages s - of_nat n \<and> used_pages t = used_pages s + of_nat n)) ?s"
  proof (rule pmm_lock_pages_index_wp, goal_cases)
    case (3 bm)
    then show ?case by (rule rest)
  qed (use ln bh seg n in simp_all)
  have "u64_mul i PAGE_SIZE = i * 4096"
    using bh ln by (simp add: u64_mul_small PAGE_SIZE_def)
  with g(2) find lock bh(3) seg show ?thesis
    by (simp add: pmm_allocate_pages_def wp_simps Let_def same_config_def)
qed

lemma pmm_allocate_pages_none:
  assumes inv: "pmm_inv s"
    and ch: "fl_chain s (pmm_last_free_entry_free_list s) xs" "xs \<noteq> []" "length xs \<le> fuel"
    and fd: "find (\<lambda>x. n \<le> page_count (pages s x)) xs = None"
  shows "pmm_allocate_pages fuel n s = Inl Panic"
proof -
  have "\<not> pmm_lock s" using inv by (simp add: pmm_inv_def)
  moreover have "pmm_find_segment fuel (pmm_last_free_entry_free_list s) n (s\<lparr>pmm_lock := True\<rparr>) = Inl Panic"
    using pmm_find_segment_eq [of "s\<lparr>pmm_lock := True\<rparr>", OF _ ch(2,3), of _ n] ch(1) fd by simp
  ultimately show ?thesis
    by (simp add: pmm_allocate_pages_def lock_acquire_def cmd_defs)
qed

end
