(* ===== verification/Pmm_Boot.thy ===== *)
theory Pmm_Boot
  imports Pmm_Correct
begin

section \<open>Start of the physical memory manager from the boot memory map\<close>

text \<open>
  Model of \<^verbatim>\<open>boot/limine/pmm.c\<close>: the scan of the memory map that the boot loader hands
  over, the choice of the region that holds the bitmap, and \<^verbatim>\<open>pmm_init\<close>, which reserves
  every page and then releases the usable ones. The map is the list of its entries; the
  pointer comparison \<^verbatim>\<open>entries[i] != bitmap_memmap_entry\<close> is a comparison of positions.
  The bytes of the bitmap are the field \<^verbatim>\<open>pmm_bitmap\<close> of the state, so its address matters
  only through the pages that are kept back for it.
\<close>

record memmap_entry =
  mm_base :: nat
  mm_length :: nat
  mm_type :: nat

definition LIMINE_MEMMAP_USABLE :: nat where
  "LIMINE_MEMMAP_USABLE = 0"

definition PHYSICAL_ADDRESS_RESERVED_END :: nat where
  "PHYSICAL_ADDRESS_RESERVED_END = 0x100000"

definition DIV_ROUNDUP :: "nat \<Rightarrow> nat \<Rightarrow> nat" where
  "DIV_ROUNDUP a b = u64_add a (u64_sub b 1) div b"

definition pmm_get_memory_end :: "memmap_entry list \<Rightarrow> nat" where
  "pmm_get_memory_end entries =
     foldl (\<lambda>last_address e.
       let entry_last_address = u64_add (mm_base e) (mm_length e) in
       if entry_last_address > last_address then entry_last_address else last_address) 0 entries"

definition pmm_get_memory_size :: "memmap_entry list \<Rightarrow> nat" where
  "pmm_get_memory_size entries = foldl (\<lambda>sz e. u64_add sz (mm_length e)) 0 entries"

definition pmm_entry_fits :: "nat \<Rightarrow> memmap_entry \<Rightarrow> bool" where
  "pmm_entry_fits minimum_size e \<longleftrightarrow>
     mm_type e = LIMINE_MEMMAP_USABLE \<and> mm_length e \<ge> minimum_size \<and>
     (if mm_base e < PHYSICAL_ADDRESS_RESERVED_END
      then mm_length e \<ge> PHYSICAL_ADDRESS_RESERVED_END - mm_base e \<and>
           mm_length e - (PHYSICAL_ADDRESS_RESERVED_END - mm_base e) \<ge> minimum_size
      else True)"

fun pmm_find_free_entry :: "memmap_entry list \<Rightarrow> nat \<Rightarrow> nat option" where
  "pmm_find_free_entry [] minimum_size = None"
| "pmm_find_free_entry (e # es) minimum_size =
     (if pmm_entry_fits minimum_size e then Some 0
      else map_option Suc (pmm_find_free_entry es minimum_size))"

definition pmm_init_range ::
  "nat \<Rightarrow> bool \<Rightarrow> memmap_entry \<Rightarrow> nat \<Rightarrow> nat \<Rightarrow> (unit, pmm_state) cmd" where
  "pmm_init_range bitmap_size is_bitmap e base sz =
     (if \<not> is_bitmap then pmm_unreserve_pages base (sz div PAGE_SIZE)
      else whenc (mm_length e \<noteq> bitmap_size)
        (let bitmap_end = u64_add base bitmap_size;
             rounded = (if bitmap_end mod PAGE_SIZE \<noteq> 0
                        then u64_add (u64_sub bitmap_end (bitmap_end mod PAGE_SIZE)) PAGE_SIZE
                        else bitmap_end)
         in pmm_unreserve_pages rounded (u64_sub (mm_length e) bitmap_size div PAGE_SIZE)))"

definition pmm_init_entry :: "nat \<Rightarrow> bool \<Rightarrow> memmap_entry \<Rightarrow> (unit, pmm_state) cmd" where
  "pmm_init_entry bitmap_size is_bitmap e =
     whenc (mm_type e = LIMINE_MEMMAP_USABLE)
       (if mm_base e \<le> PHYSICAL_ADDRESS_RESERVED_END then
          whenc (mm_length e > PHYSICAL_ADDRESS_RESERVED_END - mm_base e)
            (pmm_init_range bitmap_size is_bitmap e PHYSICAL_ADDRESS_RESERVED_END
               (mm_length e - (PHYSICAL_ADDRESS_RESERVED_END - mm_base e)))
        else pmm_init_range bitmap_size is_bitmap e (mm_base e) (mm_length e))"

fun pmm_init_loop :: "nat \<Rightarrow> nat \<Rightarrow> nat \<Rightarrow> memmap_entry list \<Rightarrow> (unit, pmm_state) cmd" where
  "pmm_init_loop bitmap_size bitmap_entry i [] = ret ()"
| "pmm_init_loop bitmap_size bitmap_entry i (e # es) =
     seqc (pmm_init_entry bitmap_size (i = bitmap_entry) e)
       (pmm_init_loop bitmap_size bitmap_entry (Suc i) es)"

definition pmm_init :: "memmap_entry list \<Rightarrow> (unit, pmm_state) cmd" where
  "pmm_init entries =
     (let memory_end = pmm_get_memory_end entries;
          total_page_count = DIV_ROUNDUP memory_end PAGE_SIZE;
          bitmap_size = total_page_count div 8 + 1 in
      seqc (modc (\<lambda>s. s\<lparr>available_pages := 0, used_pages := 0,
                        total_pages := of_nat total_page_count,
                        reserved_pages := of_nat total_page_count,
                        highest_page_index := total_page_count\<rparr>))
     (case pmm_find_free_entry entries bitmap_size of
        None \<Rightarrow> stop AssertFail
      | Some k \<Rightarrow> seqc (pmm_init_bitmap bitmap_size True) (pmm_init_loop bitmap_size k 0 entries)))"

subsection \<open>What the start leaves free\<close>

text \<open>
  \<open>entry_pages bs b e\<close> are the pages that an entry contributes: all of them, except that the
  entry of the bitmap keeps back the first \<open>\<lceil>bs / 4096\<rceil>\<close> pages.
\<close>

definition entry_pages :: "nat \<Rightarrow> bool \<Rightarrow> memmap_entry \<Rightarrow> nat set" where
  "entry_pages bs b e =
     (if mm_type e = LIMINE_MEMMAP_USABLE \<and> PHYSICAL_ADDRESS_RESERVED_END \<le> mm_base e
      then {mm_base e div 4096 + (if b then (bs + 4095) div 4096 else 0)..<
            (mm_base e + mm_length e) div 4096} else {})"

fun map_pages :: "nat \<Rightarrow> nat \<Rightarrow> nat \<Rightarrow> memmap_entry list \<Rightarrow> nat set" where
  "map_pages bs k i [] = {}"
| "map_pages bs k i (e # es) = entry_pages bs (i = k) e \<union> map_pages bs k (Suc i) es"

text \<open>
  What is required of an entry: page-aligned bounds below \<open>2 ^ 64\<close>, not empty, and a usable
  entry does not straddle the first megabyte.
\<close>

definition entry_ok :: "memmap_entry \<Rightarrow> bool" where
  "entry_ok e \<longleftrightarrow> mm_base e mod 4096 = 0 \<and> mm_length e mod 4096 = 0 \<and> 0 < mm_length e \<and>
     mm_base e + mm_length e < 2 ^ 64 \<and>
     (mm_type e = LIMINE_MEMMAP_USABLE \<longrightarrow> PHYSICAL_ADDRESS_RESERVED_END \<le> mm_base e \<or>
        mm_base e + mm_length e \<le> PHYSICAL_ADDRESS_RESERVED_END)"

definition apart :: "memmap_entry \<Rightarrow> memmap_entry \<Rightarrow> bool" where
  "apart e e' \<longleftrightarrow> mm_base e + mm_length e \<le> mm_base e' \<or> mm_base e' + mm_length e' \<le> mm_base e"

lemma pmm_unreserve_pages_wp:
  assumes inv: "pmm_inv s" and n: "0 < n" "0 < i" "i + n \<le> highest_page_index s"
    and dis: "{i..<i + n} \<inter> free_pages s = {}"
  shows "wp (pmm_unreserve_pages (i * 4096) n) (\<lambda>_ t. pmm_inv t \<and>
    highest_page_index t = highest_page_index s \<and> total_pages t = total_pages s \<and>
    free_pages t = free_pages s \<union> {i..<i + n} \<and> reserved_pages t = reserved_pages s - of_nat n \<and>
    available_pages t = available_pages s + of_nat n \<and> used_pages t = used_pages s - of_nat n) s"
proof -
  let ?s = "s\<lparr>reserved_pages := reserved_pages s - of_nat n\<rparr>"
  have "pmm_inv ?s" using inv by (simp add: pmm_inv_def pmm_geom_def)
  from pmm_free_pages_index_wp [OF this n(1,2)] n dis show ?thesis
    by (simp add: pmm_unreserve_pages_def pmm_unreserve_pages_index_def wp_simps
        pmm_address_to_index_def PAGE_SIZE_def same_config_def conj_ac cong: conj_cong)
qed

lemma pmm_init_range_bitmap:
  assumes "base mod 4096 = 0" "mm_length e mod 4096 = 0" "0 < bs" "bs + 4096 \<le> mm_length e"
    "base + mm_length e < 2 ^ 64"
  shows "pmm_init_range bs True e base sz =
    pmm_unreserve_pages ((base div 4096 + (bs + 4095) div 4096) * 4096)
      ((base + mm_length e) div 4096 - (base div 4096 + (bs + 4095) div 4096))"
proof -
  obtain p q where pq: "base = 4096 * p" "mm_length e = 4096 * q" using assms(1,2) by (auto elim!: dvdE simp flip: dvd_eq_mod_eq_0)
  obtain c d where bs: "bs = 4096 * c + d" "d < 4096"
    by (metis mod_less_divisor mult_div_mod_eq zero_less_numeral)
  have md: "(4096 * p + (4096 * c + d)) mod 4096 = d" using bs(2)
    by (metis add.assoc add_mult_distrib2 mod_less mod_mult_self4 mult.commute add.commute)
  have dv: "(4096 * c + d + 4095) div 4096 = (if d = 0 then c else Suc c)" using bs(2) by auto
  have len: "(4096 * q - (4096 * c + d)) div 4096 = q - (if d = 0 then c else Suc c)"
    using assms(4) bs pq by auto
  show ?thesis
    using assms md dv len bs
    by (simp add: pmm_init_range_def whenc_def Let_def PAGE_SIZE_def u64_add_small u64_sub_small pq
       algebra_simps)
qed

definition entry_spec :: "pmm_state \<Rightarrow> nat set \<Rightarrow> pmm_state \<Rightarrow> bool" where
  "entry_spec s X t \<longleftrightarrow> pmm_inv t \<and>
    highest_page_index t = highest_page_index s \<and> total_pages t = total_pages s \<and>
    free_pages t = free_pages s \<union> X \<and> reserved_pages t = reserved_pages s - of_nat (card X) \<and>
    available_pages t = available_pages s + of_nat (card X) \<and>
    used_pages t = used_pages s - of_nat (card X)"

lemma entry_spec_refl: "pmm_inv s \<Longrightarrow> entry_spec s {} s"
  by (simp add: entry_spec_def)

lemma entry_spec_trans:
  assumes "entry_spec s X t" "entry_spec t Y u" "finite X" "finite Y" "X \<inter> Y = {}"
  shows "entry_spec s (X \<union> Y) u"
  using assms by (auto simp: entry_spec_def card_Un_disjoint)

lemma pmm_init_entry_wp:
  assumes inv: "pmm_inv s" and e: "entry_ok e" and h: "mm_base e + mm_length e \<le> highest_page_index s * 4096"
    and b: "b \<longrightarrow> PHYSICAL_ADDRESS_RESERVED_END \<le> mm_base e \<and> 0 < bs \<and> bs + 4096 \<le> mm_length e"
    and dis: "entry_pages bs b e \<inter> free_pages s = {}"
  shows "wp (pmm_init_entry bs b e) (\<lambda>_. entry_spec s (entry_pages bs b e)) s"
proof (cases "mm_type e = LIMINE_MEMMAP_USABLE \<and> PHYSICAL_ADDRESS_RESERVED_END \<le> mm_base e")
  case False
  then show ?thesis using e inv
    by (auto simp: pmm_init_entry_def entry_pages_def wp_simps entry_ok_def entry_spec_refl)
next
  case True
  define i where "i = mm_base e div 4096 + (if b then (bs + 4095) div 4096 else 0)"
  define n where "n = (mm_base e + mm_length e) div 4096 - i"
  have al: "mm_base e mod 4096 = 0" "mm_length e mod 4096 = 0" "0 < mm_length e"
    "mm_base e + mm_length e < 2 ^ 64"
    using e by (auto simp: entry_ok_def)
  obtain p q where pq: "mm_base e = 4096 * p" "mm_length e = 4096 * q" using al(1,2) by (auto elim!: dvdE simp flip: dvd_eq_mod_eq_0)
  have n: "0 < n" "0 < i" "i + n = (mm_base e + mm_length e) div 4096"
    using True b al(3) pq by (auto simp: n_def i_def PHYSICAL_ADDRESS_RESERVED_END_def)
  have ih: "i + n \<le> highest_page_index s" using h n(3) by simp
  have ep: "entry_pages bs b e = {i..<i + n}" using True n(3) by (simp add: entry_pages_def i_def)
  have "pmm_init_entry bs b e = pmm_init_range bs b e (mm_base e) (mm_length e)"
    using True al by (cases "mm_base e = PHYSICAL_ADDRESS_RESERVED_END") (auto simp: pmm_init_entry_def whenc_def)
  also have "\<dots> = pmm_unreserve_pages (i * 4096) n"
  proof (cases b)
    case True
    then show ?thesis using pmm_init_range_bitmap [OF al(1,2) _ _ al(4), of bs] b
      by (simp add: i_def n_def)
  next
    case False
    then show ?thesis using pq by (simp add: pmm_init_range_def i_def n_def PAGE_SIZE_def mult.commute)
  qed
  finally show ?thesis
    using wp_mono [OF pmm_unreserve_pages_wp [OF inv n(1,2) ih]] dis ep by (simp add: entry_spec_def)
qed

lemma entry_pages_sub:
  "entry_pages bs b e \<subseteq> {mm_base e div 4096..<(mm_base e + mm_length e) div 4096}"
  by (auto simp: entry_pages_def)

lemma entry_pages_apart:
  assumes "apart e e'"
  shows "entry_pages bs b e \<inter> entry_pages bs b' e' = {}"
proof -
  have "(mm_base e + mm_length e) div 4096 \<le> mm_base e' div 4096 \<or>
        (mm_base e' + mm_length e') div 4096 \<le> mm_base e div 4096"
    using assms div_le_mono [of _ _ 4096] by (auto simp: apart_def)
  then show ?thesis using entry_pages_sub [of bs b e] entry_pages_sub [of bs b' e'] by fastforce
qed

lemma entry_pages_map: "\<forall>e' \<in> set es. apart e e' \<Longrightarrow> entry_pages bs b e \<inter> map_pages bs k i es = {}"
  by (induction es arbitrary: i) (auto dest: entry_pages_apart)

lemma finite_entry_pages [simp]: "finite (entry_pages bs b e)" "finite (map_pages bs k i es)"
  by (simp add: entry_pages_def) (induction es arbitrary: i; simp add: entry_pages_def)

lemma pmm_init_loop_wp:
  assumes "pmm_inv s" "\<forall>e \<in> set es. entry_ok e \<and> mm_base e + mm_length e \<le> highest_page_index s * 4096"
    "sorted_wrt apart es" "map_pages bs k i es \<inter> free_pages s = {}"
    "\<forall>j < length es. i + j = k \<longrightarrow> PHYSICAL_ADDRESS_RESERVED_END \<le> mm_base (es ! j) \<and> 0 < bs \<and>
      bs + 4096 \<le> mm_length (es ! j)"
  shows "wp (pmm_init_loop bs k i es) (\<lambda>_. entry_spec s (map_pages bs k i es)) s"
  using assms
proof (induction es arbitrary: s i)
  case (Cons e es)
  have e: "wp (pmm_init_entry bs (i = k) e) (\<lambda>_. entry_spec s (entry_pages bs (i = k) e)) s"
    using Cons.prems(5) [rule_format, of 0] Cons.prems(1,2,4) by (intro pmm_init_entry_wp) auto
  have dj: "entry_pages bs (i = k) e \<inter> map_pages bs k (Suc i) es = {}"
    using Cons.prems(3) by (intro entry_pages_map) simp
  have last: "\<forall>j < length es. Suc i + j = k \<longrightarrow> PHYSICAL_ADDRESS_RESERVED_END \<le> mm_base (es ! j) \<and>
      0 < bs \<and> bs + 4096 \<le> mm_length (es ! j)"
    using Cons.prems(5) by (metis Suc_less_eq add_Suc_shift length_Cons nth_Cons_Suc)
  show ?case unfolding pmm_init_loop.simps
  proof (rule wp_seqcI [OF e])
    fix t assume t: "entry_spec s (entry_pages bs (i = k) e) t"
    then have "wp (pmm_init_loop bs k (Suc i) es) (\<lambda>_. entry_spec t (map_pages bs k (Suc i) es)) t"
      using Cons.prems(2-4) dj last by (intro Cons.IH) (auto simp: entry_spec_def)
    then show "wp (pmm_init_loop bs k (Suc i) es) (\<lambda>_. entry_spec s (map_pages bs k i (e # es))) t"
      by (rule wp_mono) (use entry_spec_trans [OF t _ _ _ dj] in simp)
  qed
qed (simp add: wp_simps entry_spec_refl)

lemma memory_end_fold:
  assumes "\<forall>e \<in> set es. entry_ok e" "a mod 4096 = 0" "a < 18446744073709551616"
  shows "let m = foldl (\<lambda>l e. let x = u64_add (mm_base e) (mm_length e) in if x > l then x else l) a es in
    a \<le> m \<and> m mod 4096 = 0 \<and> m < 18446744073709551616 \<and> (\<forall>e \<in> set es. mm_base e + mm_length e \<le> m)"
  using assms
proof (induction es arbitrary: a)
  case (Cons e es)
  let ?x = "mm_base e + mm_length e"
  have e: "u64_add (mm_base e) (mm_length e) = ?x" "?x mod 4096 = 0" "?x < 18446744073709551616"
    using Cons.prems(1) by (auto simp: entry_ok_def u64_add_small mod_add_eq [symmetric])
  show ?case using Cons.IH [of "if a < ?x then ?x else a"] Cons.prems e
    by (auto simp: Let_def split: if_splits)
qed (simp add: Let_def)

definition memmap_ok :: "memmap_entry list \<Rightarrow> bool" where
  "memmap_ok es \<longleftrightarrow> (\<forall>e \<in> set es. entry_ok e) \<and> sorted_wrt apart es"

lemma memory_end_page_count:
  assumes "memmap_ok es"
  defines "h \<equiv> DIV_ROUNDUP (pmm_get_memory_end es) PAGE_SIZE"
  shows "h < 4503599627370496" "\<forall>e \<in> set es. mm_base e + mm_length e \<le> h * 4096"
proof -
  let ?m = "pmm_get_memory_end es"
  have m: "?m mod 4096 = 0" "?m < 18446744073709551616" "\<forall>e \<in> set es. mm_base e + mm_length e \<le> ?m"
    using memory_end_fold [of es 0] assms(1) by (auto simp: memmap_ok_def pmm_get_memory_end_def Let_def)
  then obtain c where c: "?m = 4096 * c" by (auto elim!: dvdE simp flip: dvd_eq_mod_eq_0)
  then have "h = c" using m(2)
    by (simp add: h_def DIV_ROUNDUP_def PAGE_SIZE_def u64_sub_small u64_add_small)
  then show "h < 4503599627370496" "\<forall>e \<in> set es. mm_base e + mm_length e \<le> h * 4096" using m c by auto
qed

lemma find_free_entry_Some:
  "pmm_find_free_entry es n = Some k \<Longrightarrow> k < length es \<and> pmm_entry_fits n (es ! k)"
  by (induction es arbitrary: k) (auto split: if_splits)

definition pmm_static :: "pmm_state \<Rightarrow> bool" where
  "pmm_static s \<longleftrightarrow> \<not> pmm_lock s \<and> pmm_last_free_entry_free_list s = None \<and>
     pmm_first_free_page_index s = 0"

text \<open>The global variables of the manager before \<^verbatim>\<open>pmm_init\<close> runs.\<close>

definition pmm_zero :: pmm_state where
  "pmm_zero = \<lparr>available_pages = 0, used_pages = 0, reserved_pages = 0, total_pages = 0,
     highest_page_index = 0, pmm_bitmap = [], pmm_lock = False, pmm_first_free_page_index = 0,
     pmm_last_free_entry_free_list = None,
     pages = (\<lambda>_. \<lparr>hdr_end = None, hdr_start = None, index_start = 0, index_end = 0, page_count = 0,
                 seg_last = None, seg_next = None\<rparr>)\<rparr>"

lemma pmm_static_zero: "pmm_static pmm_zero"
  by (simp add: pmm_static_def pmm_zero_def)

lemma pmm_init_wp:
  assumes ok: "memmap_ok es" and st: "pmm_static s"
    and bs: "bs = DIV_ROUNDUP (pmm_get_memory_end es) PAGE_SIZE div 8 + 1"
    and k: "pmm_find_free_entry es bs = Some k" and room: "bs + 4096 \<le> mm_length (es ! k)"
  shows "wp (pmm_init es) (\<lambda>_ t. pmm_inv t \<and> free_pages t = map_pages bs k 0 es \<and>
    available_pages t = of_nat (card (free_pages t)) \<and> used_pages t = - of_nat (card (free_pages t)) \<and>
    reserved_pages t = total_pages t - of_nat (card (free_pages t))) s"
proof -
  define h where "h = DIV_ROUNDUP (pmm_get_memory_end es) PAGE_SIZE"
  note me = memory_end_page_count [OF ok, folded h_def]
  let ?s = "s\<lparr>available_pages := 0, used_pages := 0, total_pages := of_nat h,
     reserved_pages := of_nat h, highest_page_index := h, pmm_bitmap := bitmap_init bs True\<rparr>"
  have F: "free_pages ?s = {}" by (auto simp: free_pages_def bm_bits_init length_bitmap_init)
  have nr: "\<not> run {} a b" for a b using runD(5) [of "{}" a b] by blast
  have inv: "pmm_inv ?s"
    using st me bs F nr
    by (auto simp: pmm_inv_def pmm_geom_def pmm_static_def segs_ok_def link_ok_def length_bitmap_init
        h_def [symmetric])
  have kk: "k < length es" "pmm_entry_fits bs (es ! k)" "entry_ok (es ! k)"
    using find_free_entry_Some [OF k] ok by (auto simp: memmap_ok_def)
  have "PHYSICAL_ADDRESS_RESERVED_END \<le> mm_base (es ! k)"
    using kk bs by (auto simp: pmm_entry_fits_def entry_ok_def)
  then have "wp (pmm_init_loop bs k 0 es) (\<lambda>_. entry_spec ?s (map_pages bs k 0 es)) ?s"
    using inv ok me F room bs by (intro pmm_init_loop_wp) (auto simp: memmap_ok_def)
  then have "wp (pmm_init es) (\<lambda>_. entry_spec ?s (map_pages bs k 0 es)) s"
    using k bs by (simp add: pmm_init_def Let_def wp_simps pmm_init_bitmap_def h_def)
  then show ?thesis by (rule wp_mono) (use F in \<open>auto simp: entry_spec_def\<close>)
qed

definition example_map :: "memmap_entry list" where
  "example_map =
     [\<lparr>mm_base = 0, mm_length = 0x9F000, mm_type = 0\<rparr>, \<lparr>mm_base = 0xF0000, mm_length = 0x10000, mm_type = 1\<rparr>,
      \<lparr>mm_base = 0x100000, mm_length = 0x8000, mm_type = 0\<rparr>, \<lparr>mm_base = 0x108000, mm_length = 0x4000, mm_type = 0\<rparr>]"

lemma example_map_facts:
  "memmap_ok example_map" "34 = DIV_ROUNDUP (pmm_get_memory_end example_map) PAGE_SIZE div 8 + 1"
  "pmm_find_free_entry example_map 34 = Some 2" "34 + 4096 \<le> mm_length (example_map ! 2)"
  "map_pages 34 2 0 example_map = {257..<268}"
  by (simp add: memmap_ok_def example_map_def entry_ok_def apart_def LIMINE_MEMMAP_USABLE_def
        PHYSICAL_ADDRESS_RESERVED_END_def,
      simp add: example_map_def pmm_get_memory_end_def DIV_ROUNDUP_def PAGE_SIZE_def Let_def
        u64_add_def u64_sub_def u64_def,
      simp add: example_map_def pmm_entry_fits_def LIMINE_MEMMAP_USABLE_def
        PHYSICAL_ADDRESS_RESERVED_END_def,
      simp add: example_map_def,
      auto simp: example_map_def entry_pages_def LIMINE_MEMMAP_USABLE_def
        PHYSICAL_ADDRESS_RESERVED_END_def)

lemma boot_example:
  obtains t where "pmm_init example_map pmm_zero = Inr ((), t)" "pmm_inv t"
    "free_pages t = {257..<268}" "available_pages t = 11"
  using wp_exI [OF pmm_init_wp [OF example_map_facts(1) pmm_static_zero example_map_facts(2-4)]]
  by (auto simp: example_map_facts(5))

subsection \<open>Correctness of the start\<close>

text \<open>
  C4: for a memory map whose entries are page-aligned, disjoint and do not straddle the first
  megabyte, and whose bitmap region has a page to spare, \<^verbatim>\<open>pmm_init\<close> returns in a state that
  satisfies the invariant of the manager; the free pages are exactly the usable pages above
  the first megabyte that the bitmap does not occupy; \<^verbatim>\<open>available_pages\<close> is their number,
  \<^verbatim>\<open>reserved_pages\<close> the rest of the memory. \<^verbatim>\<open>used_pages\<close> starts at 0 and every release
  subtracts from it, so it holds the negated number, wrapped around.
\<close>

theorem pmm_init_correct:
  assumes ok: "memmap_ok es" and st: "pmm_static s"
    and bs: "bs = DIV_ROUNDUP (pmm_get_memory_end es) PAGE_SIZE div 8 + 1"
    and k: "pmm_find_free_entry es bs = Some k" and room: "bs + 4096 \<le> mm_length (es ! k)"
  shows "\<exists>t. pmm_init es s = Inr ((), t) \<and> pmm_inv t \<and> free_pages t = map_pages bs k 0 es \<and>
    available_pages t = of_nat (card (free_pages t)) \<and> used_pages t = - of_nat (card (free_pages t)) \<and>
    reserved_pages t = total_pages t - of_nat (card (free_pages t))"
  using wp_exI [OF pmm_init_wp [OF assms]] by simp

theorem pmm_init_correct_witness:
  "\<exists>t. pmm_init example_map pmm_zero = Inr ((), t) \<and> pmm_inv t \<and> free_pages t = {257..<268}"
  using pmm_init_correct [OF example_map_facts(1) pmm_static_zero example_map_facts(2-4)]
  by (auto simp: example_map_facts(5))

end
