(* ===== verification/Page_Allocator.thy ===== *)
theory Page_Allocator
  imports Pmm_Boot
begin

section \<open>The page allocator as its clients see it\<close>

text \<open>
  The contract of \<^verbatim>\<open>pmm_allocate_page\<close> that the other parts of the kernel rely on, what
  follows from it for code that allocates in a loop, the proof that the manager of
  \<^verbatim>\<open>global/pmm.c\<close> meets it, and the properties of the manager: which page an allocation
  returns, when it fails, that releasing gives the page back, and that over any sequence
  of allocations and releases no page is ever handed out twice.
\<close>

text \<open>\<open>repeatc n m\<close>: the results of running \<open>m\<close> \<open>n\<close> times in a row.\<close>

primrec repeatc :: "nat \<Rightarrow> ('a, 's) cmd \<Rightarrow> ('a list, 's) cmd" where
  "repeatc 0 m = ret []"
| "repeatc (Suc n) m = bindc m (\<lambda>x. bindc (repeatc n m) (\<lambda>xs. ret (x # xs)))"

locale page_allocator =
  fixes alloc :: "(nat, 's) cmd"
    and free_set :: "'s \<Rightarrow> nat set"
    and inv :: "'s \<Rightarrow> bool"
  assumes finite_free: "finite (free_set s)"
    and alloc_some: "inv s \<Longrightarrow> free_set s \<noteq> {} \<Longrightarrow>
      wp alloc (\<lambda>a t. inv t \<and> a mod 4096 = 0 \<and> a div 4096 \<in> free_set s \<and>
                      free_set t = free_set s - {a div 4096}) s"
    and alloc_none: "inv s \<Longrightarrow> free_set s = {} \<Longrightarrow> alloc s = Inl Panic"
begin

lemma repeat_alloc:
  assumes "inv s" "n \<le> card (free_set s)"
  shows "wp (repeatc n alloc) (\<lambda>as t. inv t \<and> length as = n \<and> distinct as \<and>
    (\<forall>a \<in> set as. a mod 4096 = 0) \<and> (\<lambda>a. a div 4096) ` set as \<subseteq> free_set s \<and>
    free_set t = free_set s - (\<lambda>a. a div 4096) ` set as) s"
  using assms
proof (induction n arbitrary: s)
  case (Suc n)
  then have "free_set s \<noteq> {}" by auto
  note al = alloc_some [OF Suc.prems(1) this]
  show ?case unfolding repeatc.simps wp_bindc wp_ret
  proof (rule wp_mono [OF al])
    fix a t
    assume t: "inv t \<and> a mod 4096 = 0 \<and> a div 4096 \<in> free_set s \<and> free_set t = free_set s - {a div 4096}"
    then have "n \<le> card (free_set t)" using Suc.prems(2) finite_free [of s] by simp
    with t have ih: "wp (repeatc n alloc) (\<lambda>as u. inv u \<and> length as = n \<and> distinct as \<and>
      (\<forall>a \<in> set as. a mod 4096 = 0) \<and> (\<lambda>a. a div 4096) ` set as \<subseteq> free_set t \<and>
      free_set u = free_set t - (\<lambda>a. a div 4096) ` set as) t"
      by (intro Suc.IH) simp_all
    show "wp (repeatc n alloc) (\<lambda>as u. inv u \<and> length (a # as) = Suc n \<and>
      distinct (a # as) \<and> (\<forall>a \<in> set (a # as). a mod 4096 = 0) \<and>
      (\<lambda>a. a div 4096) ` set (a # as) \<subseteq> free_set s \<and>
      free_set u = free_set s - (\<lambda>a. a div 4096) ` set (a # as)) t"
      by (rule wp_mono [OF ih]) (use t in auto)
  qed
qed (simp add: wp_simps)

lemma repeat_alloc_fails:
  assumes "inv s" "card (free_set s) < n"
  shows "repeatc n alloc s = Inl Panic"
  using assms
proof (induction n arbitrary: s)
  case (Suc n)
  show ?case
  proof (cases "free_set s = {}")
    case True
    then show ?thesis using alloc_none Suc.prems(1) by (simp add: bindc_def)
  next
    case False
    from wp_exI [OF alloc_some [OF Suc.prems(1) False]] obtain a t where
      t: "alloc s = Inr (a, t)" "inv t" "a div 4096 \<in> free_set s" "free_set t = free_set s - {a div 4096}"
      by auto
    have "card (free_set s) = Suc (card (free_set t))"
      using t finite_free [of s] by (metis card.remove)
    then have "card (free_set t) < n" using Suc.prems(2) by simp
    with Suc.IH t show ?thesis by (simp add: bindc_def)
  qed
qed simp

end

interpretation pmm: page_allocator pmm_allocate_page free_pages pmm_inv
proof
  fix s assume s: "pmm_inv s" "free_pages s \<noteq> {}"
  then have "Min (free_pages s) \<in> free_pages s" by (intro Min_in) simp_all
  then show "wp pmm_allocate_page (\<lambda>a t. pmm_inv t \<and> a mod 4096 = 0 \<and> a div 4096 \<in> free_pages s \<and>
     free_pages t = free_pages s - {a div 4096}) s"
    using pmm_allocate_page_wp [OF s refl] by (elim wp_mono) auto
qed (simp_all add: pmm_allocate_page_none)

subsection \<open>Sequences of allocations and releases\<close>

text \<open>
  One step of the clients of the manager together: an allocation, or the release of a block
  of pages they own. \<open>O\<close> is the set of the pages handed out and not yet released.
\<close>

inductive pmm_step :: "pmm_state \<times> nat set \<Rightarrow> pmm_state \<times> nat set \<Rightarrow> bool" where
  alloc: "pmm_allocate_page s = Inr (a, t) \<Longrightarrow> pmm_step (s, own) (t, insert (a div 4096) own)"
| free: "{i..<i + n} \<subseteq> own \<Longrightarrow> 0 < n \<Longrightarrow> pmm_free_pages (i * 4096) n s = Inr ((), t) \<Longrightarrow>
    pmm_step (s, own) (t, own - {i..<i + n})"

inductive_cases pmm_step_cases: "pmm_step (s, own) (t, own')"

text \<open>The pages of \<open>P\<close> are partitioned into free and owned ones, and the counters agree.\<close>

definition pmm_owned :: "nat set \<Rightarrow> pmm_state \<Rightarrow> nat set \<Rightarrow> bool" where
  "pmm_owned P s own \<longleftrightarrow> pmm_inv s \<and> free_pages s \<union> own = P \<and> free_pages s \<inter> own = {} \<and>
     P \<subseteq> {0<..<highest_page_index s} \<and> available_pages s = of_nat (card (free_pages s))"

lemma pmm_free_pages_eq:
  "pmm_free_pages (i * 4096) n = pmm_free_pages_index i n"
  by (simp add: pmm_free_pages_def pmm_address_to_index_def PAGE_SIZE_def)

lemma interval_below:
  fixes i n h :: nat
  assumes "{i..<i + n} \<subseteq> {0<..<h}" "0 < n"
  shows "0 < i" "i + n \<le> h"
proof -
  have "i \<in> {i..<i + n}" "i + n - 1 \<in> {i..<i + n}" using assms(2) by auto
  with assms(1) have "i \<in> {0<..<h}" "i + n - 1 \<in> {0<..<h}" by blast+
  then show "0 < i" "i + n \<le> h" by auto
qed

lemma owned_alloc:
  assumes "pmm_owned P s own" "free_pages s \<noteq> {}"
  shows "wp pmm_allocate_page (\<lambda>a t. pmm_owned P t (insert (a div 4096) own) \<and>
    a div 4096 \<in> free_pages s \<and> a div 4096 \<notin> own) s"
proof -
  have s: "pmm_inv s" using assms(1) by (simp add: pmm_owned_def)
  have k: "Min (free_pages s) \<in> free_pages s" using assms(2) by (intro Min_in) simp_all
  have "card (free_pages s) = Suc (card (free_pages s - {Min (free_pages s)}))"
    using k by (metis card.remove finite_free_pages)
  then show ?thesis
    using assms(1) k
    by (intro wp_mono [OF pmm_allocate_page_wp [OF s assms(2) refl]])
      (auto simp: pmm_owned_def same_config_def)
qed

lemma owned_free:
  assumes o: "pmm_owned P s own" and n: "{i..<i + n} \<subseteq> own" "0 < n"
  shows "wp (pmm_free_pages (i * 4096) n) (\<lambda>_ t. pmm_owned P t (own - {i..<i + n})) s"
proof -
  have s: "pmm_inv s" and dis: "{i..<i + n} \<inter> free_pages s = {}"
    and b: "{i..<i + n} \<subseteq> {0<..<highest_page_index s}"
    using o n by (auto simp: pmm_owned_def)
  have "card (free_pages s \<union> {i..<i + n}) = card (free_pages s) + n"
    using dis by (subst card_Un_disjoint) auto
  then show ?thesis
    unfolding pmm_free_pages_eq
    using o n dis
    by (intro wp_mono [OF pmm_free_pages_index_wp [OF s n(2) interval_below [OF b n(2)] dis]])
      (auto simp: pmm_owned_def same_config_def)
qed

lemma owned_step:
  assumes "pmm_owned P s own" "pmm_step (s, own) (t, own')"
  shows "pmm_owned P t own'"
proof (rule pmm_step_cases [OF assms(2)])
  fix a assume a: "own' = insert (a div 4096) own" "pmm_allocate_page s = Inr (a, t)"
  then have "free_pages s \<noteq> {}"
    using assms(1) pmm_allocate_page_none by (force simp: pmm_owned_def)
  then show ?thesis using owned_alloc [OF assms(1)] a by (simp add: wp_Inr)
next
  fix i n assume "own' = own - {i..<i + n}" "{i..<i + n} \<subseteq> own" "0 < n"
    "pmm_free_pages (i * 4096) n s = Inr ((), t)"
  then show ?thesis using owned_free [OF assms(1), of i n] by (simp add: wp_Inr)
qed

lemma owned_steps:
  assumes "pmm_step\<^sup>*\<^sup>* (s, own) (t, own')" "pmm_owned P s own"
  shows "pmm_owned P t own'"
  using assms
  by (induction "(t, own')" arbitrary: t own' rule: rtranclp_induct) (auto intro: owned_step)

subsection \<open>Properties of the manager\<close>

text \<open>
  C2: with the invariant, \<^verbatim>\<open>pmm_allocate_page\<close> returns the address of the lowest free page,
  takes exactly this page out of the free ones, moves it from \<^verbatim>\<open>available_pages\<close> to
  \<^verbatim>\<open>used_pages\<close> and keeps the invariant; it panics when, and only when, no page is free.
\<close>

theorem pmm_allocate_page_correct:
  assumes "pmm_inv s"
  shows "case pmm_allocate_page s of
      Inl e \<Rightarrow> e = Panic \<and> free_pages s = {}
    | Inr (a, t) \<Rightarrow> free_pages s \<noteq> {} \<and> a = Min (free_pages s) * 4096 \<and> pmm_inv t \<and>
        free_pages t = free_pages s - {Min (free_pages s)} \<and>
        available_pages t = available_pages s - 1 \<and> used_pages t = used_pages s + 1"
proof (cases "free_pages s = {}")
  case False
  then show ?thesis
    using pmm_allocate_page_wp [OF assms False refl]
    by (simp add: wp_def split: sum.splits prod.splits)
qed (simp add: pmm_allocate_page_none assms)

theorem pmm_allocate_page_correct_witness:
  "\<exists>s t. pmm_init example_map pmm_zero = Inr ((), s) \<and>
         pmm_allocate_page s = Inr (257 * 4096, t) \<and> free_pages t = {258..<268}"
proof -
  obtain s where s: "pmm_init example_map pmm_zero = Inr ((), s)" "pmm_inv s" "free_pages s = {257..<268}"
    by (rule boot_example)
  have "Min {257..<268 :: nat} = 257" "{257..<268 :: nat} - {257} = {258..<268}"
    by (auto intro: Min_eqI)
  with pmm_allocate_page_correct [OF s(2)] s show ?thesis
    by (auto split: sum.splits)
qed

text \<open>
  C3: releasing a block of pages that is not free adds exactly these pages to the free ones,
  merges them into the free segments (the invariant describes every maximal free segment
  through its header), moves them from \<^verbatim>\<open>used_pages\<close> to \<^verbatim>\<open>available_pages\<close> and does not fault.
\<close>

theorem pmm_free_pages_correct:
  assumes "pmm_inv s" "0 < n" "0 < i" "i + n \<le> highest_page_index s"
    and "{i..<i + n} \<inter> free_pages s = {}"
  shows "\<exists>t. pmm_free_pages (i * 4096) n s = Inr ((), t) \<and> pmm_inv t \<and>
    free_pages t = free_pages s \<union> {i..<i + n} \<and>
    available_pages t = available_pages s + of_nat n \<and> used_pages t = used_pages s - of_nat n"
  unfolding pmm_free_pages_eq using wp_exI [OF pmm_free_pages_index_wp [OF assms]] by auto

definition pmm_blank :: "nat \<Rightarrow> pmm_state" where
  "pmm_blank h = pmm_zero\<lparr>highest_page_index := h, pmm_bitmap := bitmap_init (h div 8 + 1) True\<rparr>"

lemma pmm_blank_inv:
  assumes "h < 4503599627370496"
  shows "pmm_inv (pmm_blank h)" "free_pages (pmm_blank h) = {}"
proof -
  have nr: "\<not> run {} a b" for a b using runD(5) [of "{}" a b] by blast
  show F: "free_pages (pmm_blank h) = {}"
    by (auto simp: pmm_blank_def free_pages_def bm_bits_init)
  have "pmm_geom (pmm_blank h)" unfolding pmm_geom_def F using assms by (auto simp: pmm_blank_def)
  then show "pmm_inv (pmm_blank h)" using F nr
    by (auto simp: pmm_inv_def pmm_blank_def pmm_zero_def segs_ok_def link_ok_def)
qed

lemma highest_blank: "highest_page_index (pmm_blank h) = h"
  by (simp add: pmm_blank_def)

theorem pmm_free_pages_correct_witness:
  "\<exists>t. pmm_free_pages (3 * 4096) 5 (pmm_blank 16) = Inr ((), t) \<and> pmm_inv t \<and> free_pages t = {3..<8}"
  using pmm_free_pages_correct [OF pmm_blank_inv(1) [of 16], of 5 3]
  by (auto simp: pmm_blank_inv highest_blank)

text \<open>
  C6: releasing the page that an allocation has just returned restores the set of free pages
  and the counters.
\<close>

theorem pmm_allocate_free_roundtrip:
  assumes "pmm_inv s" "free_pages s \<noteq> {}"
  shows "\<exists>a t u. pmm_allocate_page s = Inr (a, t) \<and> pmm_free_page a t = Inr ((), u) \<and> pmm_inv u \<and>
    free_pages u = free_pages s \<and> available_pages u = available_pages s \<and> used_pages u = used_pages s"
proof -
  let ?k = "Min (free_pages s)"
  have k: "?k \<in> free_pages s" using assms(2) by (intro Min_in) simp_all
  have kh: "0 < ?k" "?k < highest_page_index s"
    using k pmm_geom_lens(4) [of s] assms(1) by (auto simp: pmm_inv_def)
  obtain t where t: "pmm_allocate_page s = Inr (?k * 4096, t)" "pmm_inv t" "same_config s t"
    "free_pages t = free_pages s - {?k}" "available_pages t = available_pages s - 1"
    "used_pages t = used_pages s + 1"
    using wp_exI [OF pmm_allocate_page_wp [OF assms refl]] by blast
  have "?k + 1 \<le> highest_page_index t" using t(3) kh by (simp add: same_config_def)
  from wp_exI [OF pmm_free_pages_index_wp [OF t(2) _ kh(1) this]] t k obtain u where
    "pmm_free_pages_index ?k 1 t = Inr ((), u)" "pmm_inv u" "free_pages u = free_pages s"
    "available_pages u = available_pages s" "used_pages u = used_pages s"
    by (auto simp: insert_absorb)
  with t show ?thesis
    by (auto simp: pmm_free_page_def pmm_free_page_index_def pmm_address_to_index_def PAGE_SIZE_def)
qed

theorem pmm_allocate_free_roundtrip_witness:
  "\<exists>s a t u. pmm_init example_map pmm_zero = Inr ((), s) \<and> pmm_allocate_page s = Inr (a, t) \<and>
     pmm_free_page a t = Inr ((), u) \<and> free_pages u = {257..<268}"
proof -
  obtain s where s: "pmm_init example_map pmm_zero = Inr ((), s)" "pmm_inv s" "free_pages s = {257..<268}"
    by (rule boot_example)
  from pmm_allocate_free_roundtrip [OF s(2)] s show ?thesis by fastforce
qed

text \<open>
  C1: over any sequence of allocations and of releases of pages that are owned, the invariant
  holds, free and owned pages partition the pages that were free at the start, so no page is
  handed out twice, \<^verbatim>\<open>available_pages\<close> counts the free pages, an allocation succeeds as long as a
  page is free and returns a page that nobody owns, and a release of owned pages never faults.
\<close>

theorem pmm_sequences_safe:
  assumes "pmm_inv s" "available_pages s = of_nat (card (free_pages s))"
    and "pmm_step\<^sup>*\<^sup>* (s, {}) (t, own)"
  shows "pmm_inv t \<and> free_pages t \<union> own = free_pages s \<and> free_pages t \<inter> own = {} \<and>
    available_pages t = of_nat (card (free_pages t)) \<and>
    (free_pages t \<noteq> {} \<longrightarrow> (\<exists>a u. pmm_allocate_page t = Inr (a, u) \<and> a div 4096 \<notin> own)) \<and>
    (\<forall>i n. {i..<i + n} \<subseteq> own \<and> 0 < n \<longrightarrow> (\<exists>u. pmm_free_pages (i * 4096) n t = Inr ((), u)))"
proof -
  have "pmm_owned (free_pages s) s {}"
    using assms(1,2) pmm_geom_lens(4) [of s] by (simp add: pmm_owned_def pmm_inv_def)
  with owned_steps [OF assms(3)] have o: "pmm_owned (free_pages s) t own" by blast
  have "\<exists>a u. pmm_allocate_page t = Inr (a, u) \<and> a div 4096 \<notin> own" if "free_pages t \<noteq> {}"
    using wp_exI [OF owned_alloc [OF o that]] by blast
  moreover have "\<exists>u. pmm_free_pages (i * 4096) n t = Inr ((), u)" if "{i..<i + n} \<subseteq> own" "0 < n" for i n
    using wp_exI [OF owned_free [OF o that]] by auto
  ultimately show ?thesis using o by (simp add: pmm_owned_def)
qed

theorem pmm_sequences_safe_witness:
  "\<exists>s a t. pmm_init example_map pmm_zero = Inr ((), s) \<and> pmm_allocate_page s = Inr (a, t) \<and>
     pmm_inv t \<and> free_pages t \<union> {a div 4096} = {257..<268} \<and> free_pages t \<inter> {a div 4096} = {}"
proof -
  obtain s where s: "pmm_init example_map pmm_zero = Inr ((), s)" "pmm_inv s" "free_pages s = {257..<268}"
    "available_pages s = 11" by (rule boot_example)
  then obtain a t where a: "pmm_allocate_page s = Inr (a, t)"
    using wp_exI [OF pmm_allocate_page_wp [OF s(2) _ refl]] by auto
  then have "pmm_step\<^sup>*\<^sup>* (s, {}) (t, {a div 4096})" by (blast intro: pmm_step.alloc)
  from pmm_sequences_safe [OF s(2) _ this] s a show ?thesis by auto
qed

text \<open>
  C7: a client that allocates \<open>n\<close> pages one after the other, as the code that backs a region of
  virtual memory does, gets \<open>n\<close> different page-aligned addresses of free pages when at least
  \<open>n\<close> pages are free, and panics otherwise.
\<close>

theorem pmm_allocate_loop:
  assumes "pmm_inv s"
  shows "case repeatc n pmm_allocate_page s of
      Inl e \<Rightarrow> e = Panic \<and> card (free_pages s) < n
    | Inr (as, t) \<Rightarrow> length as = n \<and> distinct as \<and> list_all (\<lambda>a. a mod 4096 = 0) as \<and> pmm_inv t \<and>
        (\<lambda>a. a div 4096) ` set as \<subseteq> free_pages s \<and>
        free_pages t = free_pages s - (\<lambda>a. a div 4096) ` set as"
proof (cases "n \<le> card (free_pages s)")
  case True
  from pmm.repeat_alloc [OF assms this] show ?thesis
    by (simp add: wp_def list_all_iff split: sum.splits prod.splits)
next
  case False
  then show ?thesis using pmm.repeat_alloc_fails [OF assms, of n] by simp
qed

theorem pmm_allocate_loop_witness:
  "\<exists>s as t. pmm_init example_map pmm_zero = Inr ((), s) \<and>
     repeatc 4 pmm_allocate_page s = Inr (as, t) \<and> length as = 4 \<and> distinct as"
proof -
  obtain s where s: "pmm_init example_map pmm_zero = Inr ((), s)" "pmm_inv s" "free_pages s = {257..<268}"
    by (rule boot_example)
  from pmm_allocate_loop [OF s(2), of 4] s show ?thesis
    by (auto split: sum.splits prod.splits)
qed

text \<open>The definitions of the manager, for its evaluation on concrete states.\<close>

lemmas bitmap_eval = bitmap_init_def bitmap_get_bit_def bitmap_set_bit_def bitmap_get_set_bit_def
  BIT_SET_def BIT_CLEAR_def BIT_GET_def

lemma bitmap_set_bits_step:
  "bitmap_set_bits bm i n v =
     (if n = 0 then Inr bm
      else case bitmap_set_bit bm i v of
             Inl e \<Rightarrow> Inl e | Inr bm' \<Rightarrow> bitmap_set_bits bm' (u64_add i 1) (n - 1) v)"
  by (cases n) (auto split: sum.split)

lemmas pmm_eval = pmm_free_pages_def pmm_free_pages_index_def pmm_address_to_index_def
  pmm_convert_index_to_address_def PAGE_SIZE_def
  pmm_add_page_to_free_list_def fread_def fwrite_def bm_get_def bm_set_bits_def free_list_unlink_def
  pmm_remove_pages_to_free_list_def pmm_merge_both_def pmm_merge_next_def pmm_merge_last_def
  pmm_new_segment_def pmm_allocate_page_def pmm_take_first_def pmm_allocate_pages_def
  pmm_lock_pages_index_def pmm_scan.simps lock_acquire_def lock_release_def 
  Let_def u64_mul_def u64_add_def u64_sub_def u64_def
  pmm_zero_def cmd_defs bitmap_eval bitmap_set_bits_step
lemma blank16: "pmm_blank 16 = pmm_zero\<lparr>highest_page_index := 16, pmm_bitmap := [0xFF, 0xFF, 0xFF]\<rparr>"
  by (simp add: pmm_blank_def bitmap_init_def numeral_3_eq_3)

definition two_segments :: "(unit, pmm_state) cmd" where
  "two_segments = seqc (pmm_free_pages (1 * 4096) 4) (pmm_free_pages (10 * 4096) 3)"

definition stale_link_run :: "(nat \<times> nat, pmm_state) cmd" where
  "stale_link_run =
     seqc two_segments
    (bindc pmm_allocate_page (\<lambda>a.
     bindc (pmm_allocate_pages (Suc (Suc 0)) 4) (\<lambda>b. ret (a, b))))"

lemma two_segments_chain:
  "map_sum id (\<lambda>(_, t). fl_chain t (pmm_last_free_entry_free_list t) [10, 1]) (two_segments (pmm_blank 16)) = Inr True"
  by (simp add: two_segments_def blank16 pmm_eval del: bitmap_set_bits.simps)

lemma two_segments_inv:
  "wp two_segments (\<lambda>_ t. pmm_inv t \<and> free_pages t = {1..<5} \<union> {10..<13}) (pmm_blank 16)"
  unfolding two_segments_def pmm_free_pages_eq
proof (rule wp_seqcI [where I = "\<lambda>t. pmm_inv t \<and> free_pages t = {1..<5} \<and> highest_page_index t = 16"])
  show "wp (pmm_free_pages_index 1 4)
      (\<lambda>_ t. pmm_inv t \<and> free_pages t = {1..<5} \<and> highest_page_index t = 16) (pmm_blank 16)"
    by (rule wp_mono [OF pmm_free_pages_index_wp])
      (auto simp: pmm_blank_inv highest_blank same_config_def)
  fix t assume "pmm_inv t \<and> free_pages t = {1..<5} \<and> highest_page_index t = 16"
  then show "wp (pmm_free_pages_index 10 3) (\<lambda>_ t. pmm_inv t \<and> free_pages t = {1..<5} \<union> {10..<13}) t"
    by (intro wp_mono [OF pmm_free_pages_index_wp [of t 3 10]]) auto
qed




end
