(* ===== verification/Vmm.thy ===== *)
theory Vmm
  imports Page_Allocator
begin

section \<open>The virtual memory manager (kernel/source/arch/amd64/vmm.c)\<close>

text \<open>
  Four-level page tables in physical frames. A page table is the frame it lies in, its 512
  entries are 64-bit words; the code reaches frames through the direct map of physical memory
  at \<^verbatim>\<open>hhdm_address\<close>, so a table pointer is the frame number and the address of an entry is
  \<^verbatim>\<open>hhdm_address + frame * 4096 + slot * 8\<close>. The headers that the physical manager keeps in
  free frames and the tables, which are in allocated ones, are separate fields of the state.
  \<^verbatim>\<open>cr3\<close> is the paging register and \<^verbatim>\<open>invlpg_log\<close> the pages whose translations were flushed.
\<close>

unbundle bit_operations_syntax

record vmm_state =
  vpmm :: pmm_state
  tables :: "nat \<Rightarrow> nat \<Rightarrow> 64 word"
  hhdm_address :: nat
  kernel_space :: nat
  vmm_free_contiguous_address_iteration :: nat
  get_free_contiguous_lock :: bool
  cr3 :: nat
  invlpg_log :: "nat list"

record memory_range =
  range_address :: nat
  range_size :: nat

type_synonym memory_flags = "8 word"

definition MEMORY_FLAG_READABLE :: memory_flags where "MEMORY_FLAG_READABLE = push_bit 0 1"
definition MEMORY_FLAG_WRITABLE :: memory_flags where "MEMORY_FLAG_WRITABLE = push_bit 1 1"
definition MEMORY_FLAG_EXECUTABLE :: memory_flags where "MEMORY_FLAG_EXECUTABLE = push_bit 2 1"
definition MEMORY_FLAG_USER :: memory_flags where "MEMORY_FLAG_USER = push_bit 3 1"
definition MEMORY_FLAG_DMA :: memory_flags where "MEMORY_FLAG_DMA = push_bit 4 1"

definition VMM_START_TABLE :: nat where "VMM_START_TABLE = 0x0"
definition VMM_HALF_TABLE :: nat where "VMM_HALF_TABLE = 0x100"
definition VMM_END_TABLE :: nat where "VMM_END_TABLE = 0x200"

definition VMM_FLAG_MASK :: "64 word" where "VMM_FLAG_MASK = 0xfff"
definition VMM_FLAG_PRESENT :: "64 word" where "VMM_FLAG_PRESENT = push_bit 0 1"
definition VMM_FLAG_READ_WRITE :: "64 word" where "VMM_FLAG_READ_WRITE = push_bit 1 1"
definition VMM_FLAG_USER :: "64 word" where "VMM_FLAG_USER = push_bit 2 1"
definition VMM_FLAG_CACHE_DISABLED :: "64 word" where "VMM_FLAG_CACHE_DISABLED = push_bit 4 1"

definition VMM_GET_FLAG :: "64 word \<Rightarrow> 64 word \<Rightarrow> 64 word" where
  "VMM_GET_FLAG entry flag = entry AND flag"

definition VMM_SET_FLAGS :: "64 word \<Rightarrow> 64 word \<Rightarrow> 64 word" where
  "VMM_SET_FLAGS entry flags = entry OR (flags AND VMM_FLAG_MASK)"

definition VMM_GET_PHYSICAL :: "64 word \<Rightarrow> nat" where
  "VMM_GET_PHYSICAL entry = unat (entry AND 0x000ffffffffff000)"

definition VMM_SET_PHYSICAL :: "64 word \<Rightarrow> nat \<Rightarrow> 64 word" where
  "VMM_SET_PHYSICAL entry physical_address = (of_nat physical_address AND 0x000ffffffffff000) OR entry"

definition VMM_PML_X_GET_INDEX :: "nat \<Rightarrow> nat \<Rightarrow> nat" where
  "VMM_PML_X_GET_INDEX address level =
     drop_bit (12 + level * 9) (address AND push_bit (12 + level * 9) 0x1ff)"

definition vmm_get_memory_flags :: "64 word \<Rightarrow> memory_flags" where
  "vmm_get_memory_flags entry =
     (if entry AND VMM_FLAG_CACHE_DISABLED \<noteq> 0 then MEMORY_FLAG_DMA else 0) OR
     (if entry AND VMM_FLAG_READ_WRITE \<noteq> 0 then MEMORY_FLAG_WRITABLE else 0) OR
     (if entry AND VMM_FLAG_USER \<noteq> 0 then MEMORY_FLAG_USER else 0)"

definition vmm_make_entry :: "nat \<Rightarrow> memory_flags \<Rightarrow> 64 word" where
  "vmm_make_entry physical_address flags =
     VMM_SET_FLAGS (VMM_SET_PHYSICAL 0 physical_address)
      (VMM_FLAG_PRESENT OR
       (if MEMORY_FLAG_USER AND flags \<noteq> 0 then VMM_FLAG_USER else 0) OR
       (if MEMORY_FLAG_WRITABLE AND flags \<noteq> 0 then VMM_FLAG_READ_WRITE else 0) OR
       (if MEMORY_FLAG_DMA AND flags \<noteq> 0 then VMM_FLAG_CACHE_DISABLED else 0))"

subsection \<open>Entries and walks\<close>

definition set_entry :: "nat \<Rightarrow> nat \<Rightarrow> 64 word \<Rightarrow> vmm_state \<Rightarrow> vmm_state" where
  "set_entry tbl i e s = s\<lparr>tables := (tables s)(tbl := (tables s tbl)(i := e))\<rparr>"

definition clear_table :: "nat \<Rightarrow> vmm_state \<Rightarrow> vmm_state" where
  "clear_table tbl s = s\<lparr>tables := (tables s)(tbl := (\<lambda>_. 0))\<rparr>"

abbreviation frame :: "nat \<Rightarrow> nat" where
  "frame physical_address \<equiv> physical_address div 4096"

definition vmm_allocate_page :: "(nat, vmm_state) cmd" where
  "vmm_allocate_page = zoomc vpmm (\<lambda>p s. s\<lparr>vpmm := p\<rparr>) pmm_allocate_page"

definition vmm_get_entry :: "nat \<Rightarrow> nat \<Rightarrow> memory_flags \<Rightarrow> (nat, vmm_state) cmd" where
  "vmm_get_entry tbl index flags =
     bindc (getc (\<lambda>s. tables s tbl index)) (\<lambda>entry.
     if VMM_GET_FLAG entry VMM_FLAG_PRESENT \<noteq> 0 then ret (frame (VMM_GET_PHYSICAL entry))
     else
       bindc vmm_allocate_page (\<lambda>physical_address.
       seqc (modc (clear_table (frame physical_address)))
      (seqc (modc (set_entry tbl index (vmm_make_entry physical_address flags)))
      (ret (frame physical_address)))))"

text \<open>The walk that every operation on a page starts with: the level-1 table of the page.\<close>

definition vmm_walk :: "nat \<Rightarrow> nat \<Rightarrow> memory_flags \<Rightarrow> (nat, vmm_state) cmd" where
  "vmm_walk pml4 virtual_page flags =
     bindc (vmm_get_entry pml4 (VMM_PML_X_GET_INDEX virtual_page 3) flags) (\<lambda>pml3.
     bindc (vmm_get_entry pml3 (VMM_PML_X_GET_INDEX virtual_page 2) flags) (\<lambda>pml2.
     vmm_get_entry pml2 (VMM_PML_X_GET_INDEX virtual_page 1) flags))"

definition table_flags :: memory_flags where
  "table_flags = ucast VMM_FLAG_READ_WRITE OR MEMORY_FLAG_USER"

definition vmm_update_page_flags :: "nat \<Rightarrow> nat \<Rightarrow> memory_flags \<Rightarrow> (errno, vmm_state) cmd" where
  "vmm_update_page_flags tbl virtual_page flags =
     bindc (vmm_walk tbl virtual_page (flags OR table_flags)) (\<lambda>pml1.
     let index = VMM_PML_X_GET_INDEX virtual_page 0 in
     bindc (getc (\<lambda>s. tables s pml1 index)) (\<lambda>entry.
     if VMM_GET_FLAG entry VMM_FLAG_PRESENT = 0 then ret EADDRNOTAVAIL
     else
       bindc (getc (\<lambda>s. hhdm_address s + pml1 * 4096 + index * 8)) (\<lambda>entry_address.
       seqc (modc (set_entry pml1 index
               (vmm_make_entry (VMM_GET_PHYSICAL (of_nat entry_address)) flags)))
      (ret EOK))))"

definition vmm_unmap_page :: "nat \<Rightarrow> nat \<Rightarrow> (errno, vmm_state) cmd" where
  "vmm_unmap_page tbl virtual_page =
     bindc (vmm_walk tbl virtual_page table_flags) (\<lambda>pml1.
     let index = VMM_PML_X_GET_INDEX virtual_page 0 in
     bindc (getc (\<lambda>s. tables s pml1 index)) (\<lambda>entry.
     if VMM_GET_FLAG entry VMM_FLAG_PRESENT = 0 then ret EADDRNOTAVAIL
     else seqc (modc (set_entry pml1 index 0)) (ret EOK)))"

definition vmm_page_is_present :: "nat \<Rightarrow> nat \<Rightarrow> (bool, vmm_state) cmd" where
  "vmm_page_is_present tbl virtual_page =
     bindc (vmm_walk tbl virtual_page table_flags) (\<lambda>pml1.
     bindc (getc (\<lambda>s. tables s pml1 (VMM_PML_X_GET_INDEX virtual_page 0))) (\<lambda>entry.
     ret (VMM_GET_FLAG entry VMM_FLAG_PRESENT \<noteq> 0)))"

definition vmm_flush_page :: "nat \<Rightarrow> (errno, vmm_state) cmd" where
  "vmm_flush_page virtual_page =
     seqc (modc (\<lambda>s. s\<lparr>invlpg_log := virtual_page # invlpg_log s\<rparr>)) (ret EOK)"

subsection \<open>Address spaces\<close>

definition vmm_create_space :: "(nat, vmm_state) cmd" where
  "vmm_create_space =
     bindc vmm_allocate_page (\<lambda>space.
     seqc (modc (clear_table (frame space)))
    (seqc (modc (\<lambda>s. s\<lparr>tables := (tables s)(frame space :=
        (\<lambda>i. if VMM_HALF_TABLE \<le> i \<and> i < VMM_END_TABLE
             then tables s (frame (kernel_space s)) i else tables s (frame space) i))\<rparr>))
    (ret space)))"

definition vmm_get_kernel_space :: "(nat, vmm_state) cmd" where
  "vmm_get_kernel_space = getc kernel_space"

definition vmm_get_current_space :: "(nat, vmm_state) cmd" where
  "vmm_get_current_space = getc cr3"

definition vmm_destroy_space :: "nat \<Rightarrow> (errno, vmm_state) cmd" where
  "vmm_destroy_space space =
     bindc (getc kernel_space) (\<lambda>k. if space = k then ret EACCES else ret EOK)"

definition vmm_space_swap :: "nat \<Rightarrow> (errno, vmm_state) cmd" where
  "vmm_space_swap space = seqc (modc (\<lambda>s. s\<lparr>cr3 := space\<rparr>)) (ret EOK)"

definition vmm_map_page :: "nat \<Rightarrow> nat \<Rightarrow> nat \<Rightarrow> memory_flags \<Rightarrow> (errno, vmm_state) cmd" where
  "vmm_map_page space virtual_page physical_page flags =
     bindc (vmm_walk (frame space) virtual_page (flags OR table_flags)) (\<lambda>pml1.
     seqc (modc (set_entry pml1 (VMM_PML_X_GET_INDEX virtual_page 0)
                   (vmm_make_entry physical_page flags)))
    (ret EOK))"

subsection \<open>Ranges\<close>

text \<open>
  \<^verbatim>\<open>for(uintptr_t i = 0; i < size; i += PAGE_SIZE)\<close>. Sizes above \<open>2 ^ 64 - 4096\<close> make \<open>i\<close> wrap to
  0 and the loop never ends.
\<close>

function page_loop :: "(nat \<Rightarrow> (unit, 's) cmd) \<Rightarrow> nat \<Rightarrow> nat \<Rightarrow> (unit, 's) cmd" where
  "page_loop body sz i =
     (if i < sz then
        seqc (body i) (if i + 4096 < 2 ^ 64 then page_loop body sz (i + 4096) else stop NoReturn)
      else ret ())"
  by pat_completeness auto
termination
  by (relation "measure (\<lambda>(body, sz, i). sz - i)") auto

declare page_loop.simps [simp del]

definition vmm_map :: "nat \<Rightarrow> memory_range \<Rightarrow> memory_range \<Rightarrow> memory_flags \<Rightarrow> (errno, vmm_state) cmd" where
  "vmm_map space virtual_range physical_range flags =
     (if range_size virtual_range \<noteq> range_size physical_range then ret EINVAL
      else
        seqc (page_loop (\<lambda>i.
                bindc (vmm_map_page space (u64_add (range_address virtual_range) i)
                         (u64_add (range_address physical_range) i) flags) (\<lambda>_. ret ()))
              (range_size virtual_range) 0)
       (ret EOK))"

text \<open>
  \<^verbatim>\<open>vmm_map_allocate\<close> returns its out parameter \<^verbatim>\<open>size_allocate\<close>; the fixed return value 0 is dropped.
\<close>

definition vmm_map_allocate_page :: "nat \<Rightarrow> nat \<Rightarrow> memory_flags \<Rightarrow> (nat, vmm_state) cmd" where
  "vmm_map_allocate_page space virtual_page flags =
     bindc (vmm_page_is_present (frame space) virtual_page) (\<lambda>present.
     if \<not> present then
       bindc vmm_allocate_page (\<lambda>physical_page.
       bindc (vmm_map_page space virtual_page physical_page flags) (\<lambda>_. ret PAGE_SIZE))
     else ret 0)"

function vmm_map_allocate_loop ::
  "nat \<Rightarrow> memory_range \<Rightarrow> memory_flags \<Rightarrow> nat \<Rightarrow> nat \<Rightarrow> (nat, vmm_state) cmd" where
  "vmm_map_allocate_loop space virtual_range flags i size_allocate =
     (if i < range_size virtual_range then
        bindc (vmm_map_allocate_page space (u64_add (range_address virtual_range) i) flags) (\<lambda>n.
        if i + 4096 < 2 ^ 64
        then vmm_map_allocate_loop space virtual_range flags (i + 4096) (u64_add size_allocate n)
        else stop NoReturn)
      else ret size_allocate)"
  by pat_completeness auto
termination
  by (relation "measure (\<lambda>(space, r, flags, i, n). range_size r - i)") auto

declare vmm_map_allocate_loop.simps [simp del]

definition vmm_map_allocate :: "nat \<Rightarrow> memory_range \<Rightarrow> memory_flags \<Rightarrow> (nat, vmm_state) cmd" where
  "vmm_map_allocate space virtual_range flags = vmm_map_allocate_loop space virtual_range flags 0 0"

definition vmm_update_flags :: "nat \<Rightarrow> memory_range \<Rightarrow> memory_flags \<Rightarrow> (errno, vmm_state) cmd" where
  "vmm_update_flags space virtual_range flags =
     seqc (page_loop (\<lambda>i.
             bindc (vmm_update_page_flags (frame space) (u64_add (range_address virtual_range) i) flags)
               (\<lambda>r. assertc (r = EOK)))
           (range_size virtual_range) 0)
    (ret EOK)"

definition vmm_unmap :: "nat \<Rightarrow> memory_range \<Rightarrow> (errno, vmm_state) cmd" where
  "vmm_unmap space virtual_range =
     seqc (page_loop (\<lambda>i.
             bindc (vmm_unmap_page (frame space) (u64_add (range_address virtual_range) i))
               (\<lambda>r. assertc (r = EOK)))
           (range_size virtual_range) 0)
    (ret EOK)"

definition vmm_flush :: "nat \<Rightarrow> memory_range \<Rightarrow> (errno, vmm_state) cmd" where
  "vmm_flush space virtual_range =
     bindc vmm_get_current_space (\<lambda>current.
     if space \<noteq> current then ret EINVAL
     else
       seqc (page_loop (\<lambda>i.
               bindc (vmm_flush_page (u64_add (range_address virtual_range) i))
                 (\<lambda>r. assertc (r = EOK)))
             (range_size virtual_range) 0)
      (ret EOK))"

subsection \<open>Queries\<close>

definition vmm_get_physical_address :: "nat \<Rightarrow> nat \<Rightarrow> (nat option, vmm_state) cmd" where
  "vmm_get_physical_address space virtual_address =
     bindc (vmm_walk (frame space) virtual_address table_flags) (\<lambda>pml1.
     bindc (getc (\<lambda>s. tables s pml1 (VMM_PML_X_GET_INDEX virtual_address 0))) (\<lambda>entry.
     if VMM_GET_FLAG entry VMM_FLAG_PRESENT = 0 then ret None
     else ret (Some (u64_add (VMM_GET_PHYSICAL entry) (virtual_address mod PAGE_SIZE)))))"

definition vmm_get_flags :: "nat \<Rightarrow> nat \<Rightarrow> (memory_flags, vmm_state) cmd" where
  "vmm_get_flags space virtual_page =
     bindc (vmm_walk (frame space) virtual_page table_flags) (\<lambda>pml1.
     bindc (getc (\<lambda>s. tables s pml1 (VMM_PML_X_GET_INDEX virtual_page 0))) (\<lambda>entry.
     ret (vmm_get_memory_flags entry)))"

definition vmm_clear_lower_half_entries :: "nat \<Rightarrow> (errno, vmm_state) cmd" where
  "vmm_clear_lower_half_entries space =
     seqc (modc (\<lambda>s. s\<lparr>tables := (tables s)(frame space :=
       (\<lambda>i. if VMM_START_TABLE \<le> i \<and> i < VMM_HALF_TABLE then 0 else tables s (frame space) i))\<rparr>))
    (ret EOK)"

definition vmm_preload_entry :: "nat \<Rightarrow> nat \<Rightarrow> (unit, vmm_state) cmd" where
  "vmm_preload_entry tbl i =
     bindc (getc (\<lambda>s. tables s tbl i)) (\<lambda>entry.
     whenc (VMM_GET_FLAG entry VMM_FLAG_PRESENT = 0)
       (bindc vmm_allocate_page (\<lambda>physical_address.
        seqc (modc (clear_table (frame physical_address)))
       (modc (set_entry tbl i (vmm_make_entry physical_address
          (MEMORY_FLAG_READABLE OR MEMORY_FLAG_WRITABLE OR MEMORY_FLAG_EXECUTABLE OR MEMORY_FLAG_USER)))))))"

primrec vmm_preload_loop :: "nat \<Rightarrow> nat list \<Rightarrow> (unit, vmm_state) cmd" where
  "vmm_preload_loop tbl [] = ret ()"
| "vmm_preload_loop tbl (i # is) = seqc (vmm_preload_entry tbl i) (vmm_preload_loop tbl is)"

definition vmm_preload_higher_half_entries :: "nat \<Rightarrow> (errno, vmm_state) cmd" where
  "vmm_preload_higher_half_entries space =
     seqc (vmm_preload_loop (frame space) [VMM_HALF_TABLE..<VMM_END_TABLE]) (ret EOK)"

subsection \<open>Contiguous kernel memory\<close>

definition vmm_map_fresh :: "nat \<Rightarrow> nat \<Rightarrow> (unit, vmm_state) cmd" where
  "vmm_map_fresh return_value sz =
     page_loop (\<lambda>i.
       bindc vmm_allocate_page (\<lambda>physical_page.
       bindc (getc kernel_space) (\<lambda>k.
       bindc (vmm_map_page k (u64_add return_value i) physical_page
                (MEMORY_FLAG_READABLE OR MEMORY_FLAG_WRITABLE OR MEMORY_FLAG_EXECUTABLE)) (\<lambda>_. ret ())))) sz 0"

definition vmm_get_free_contiguous :: "nat \<Rightarrow> (nat, vmm_state) cmd" where
  "vmm_get_free_contiguous sz =
     seqc (lock_acquire get_free_contiguous_lock get_free_contiguous_lock_update)
    (let sz = round_up PAGE_SIZE sz in
     bindc (getc vmm_free_contiguous_address_iteration) (\<lambda>return_value.
     seqc (modc (\<lambda>s. s\<lparr>vmm_free_contiguous_address_iteration := u64_add return_value sz\<rparr>))
    (seqc (lock_release get_free_contiguous_lock_update)
    (seqc (vmm_map_fresh return_value sz)
    (ret return_value)))))"

definition vmm_get_free_contiguous_take_and_release :: "nat \<Rightarrow> (nat, vmm_state) cmd" where
  "vmm_get_free_contiguous_take_and_release sz =
     seqc (lock_acquire get_free_contiguous_lock get_free_contiguous_lock_update)
    (let sz = round_up PAGE_SIZE sz in
     bindc (getc vmm_free_contiguous_address_iteration) (\<lambda>return_value.
     seqc (vmm_map_fresh return_value sz)
    (ret return_value)))"

definition vmm_release_free_contiguous_take_and_release :: "(unit, vmm_state) cmd" where
  "vmm_release_free_contiguous_take_and_release = lock_release get_free_contiguous_lock_update"

definition vmm_check_memory :: "nat \<Rightarrow> memory_range \<Rightarrow> errno" where
  "vmm_check_memory space virtual_range = (if range_address virtual_range = 0 then EINVAL else EOK)"

end
