(* ===== verification/Vmm_Correct.thy ===== *)
theory Vmm_Correct
  imports Vmm
begin

section \<open>Correctness of the virtual memory manager\<close>

text \<open>
  The abstract view of an address space is the function \<open>leaf\<close> from the four indices of a
  virtual page to the entry that translates it. The invariant \<open>vmm_inv\<close> says that the page
  tables of the space form a tree of distinct frames, none of which the physical manager
  considers free. Each operation is then a function update of \<open>leaf\<close>: mapping, unmapping
  and changing flags touch one page and leave the translation of every other page alone, in
  spite of the tables that the walk creates on its way.
\<close>

subsection \<open>Entries\<close>

definition present :: "64 word \<Rightarrow> bool" where
  "present e \<longleftrightarrow> bit e 0"

lemma get_flag_present [simp]: "VMM_GET_FLAG e VMM_FLAG_PRESENT \<noteq> 0 \<longleftrightarrow> present e"
  "VMM_GET_FLAG e VMM_FLAG_PRESENT = 0 \<longleftrightarrow> \<not> present e"
  by (simp_all add: VMM_GET_FLAG_def VMM_FLAG_PRESENT_def present_def and_one_eq odd_iff_mod_2_eq_one bit_0)

lemma present_0 [simp]: "\<not> present 0"
  by (simp add: present_def)

lemma phys_mask: "(0x000ffffffffff000 :: 64 word) = push_bit 12 (mask 40)"
  by (simp add: mask_eq_exp_minus_1 push_bit_eq_mult)

lemma flag_mask: "VMM_FLAG_MASK = mask 12"
  by (simp add: VMM_FLAG_MASK_def mask_eq_exp_minus_1)

definition entry_flags :: "memory_flags \<Rightarrow> 64 word" where
  "entry_flags flags = VMM_FLAG_PRESENT OR
       (if MEMORY_FLAG_USER AND flags \<noteq> 0 then VMM_FLAG_USER else 0) OR
       (if MEMORY_FLAG_WRITABLE AND flags \<noteq> 0 then VMM_FLAG_READ_WRITE else 0) OR
       (if MEMORY_FLAG_DMA AND flags \<noteq> 0 then VMM_FLAG_CACHE_DISABLED else 0)"

lemma make_entry_form:
  "vmm_make_entry pa flags = (of_nat pa AND push_bit 12 (mask 40)) OR (entry_flags flags AND mask 12)"
  unfolding vmm_make_entry_def entry_flags_def VMM_SET_FLAGS_def VMM_SET_PHYSICAL_def phys_mask flag_mask
  by (simp only: or.right_neutral)

lemma entry_flags_0: "bit (entry_flags flags) 0"
  by (simp add: entry_flags_def bit_or_iff VMM_FLAG_PRESENT_def)

lemma make_entry_present [simp]: "present (vmm_make_entry pa flags)"
  using entry_flags_0 [of flags] by (simp add: make_entry_form present_def bit_or_iff bit_and_iff bit_mask_iff)

lemma make_entry_physical:
  assumes "pa mod 4096 = 0" "pa < 2 ^ 52"
  shows "VMM_GET_PHYSICAL (vmm_make_entry pa flags) = pa"
proof -
  have hi: "12 \<le> n \<and> n < 52" if "bit pa n" for n
  proof
    have "take_bit 12 pa = 0" "take_bit 52 pa = pa"
      using assms by (simp_all add: take_bit_eq_mod)
    with that show "12 \<le> n" "n < 52" by (metis bit_0_eq bit_take_bit_iff bot_apply bot_bool_def not_le)+
  qed
  have "((of_nat pa AND push_bit 12 (mask 40)) OR (entry_flags flags AND mask 12)) AND push_bit 12 (mask 40) = (of_nat pa :: 64 word)"
    by (rule bit_word_eqI) (auto simp: bit_simps dest: hi)
  then show ?thesis using assms(2) by (simp add: VMM_GET_PHYSICAL_def phys_mask make_entry_form unat_of_nat take_bit_nat_eq_self)
qed

subsection \<open>Page-table trees\<close>

definition next_table :: "vmm_state \<Rightarrow> nat \<Rightarrow> nat \<Rightarrow> nat option" where
  "next_table s f i = (if present (tables s f i) then Some (frame (VMM_GET_PHYSICAL (tables s f i))) else None)"

definition walk :: "vmm_state \<Rightarrow> nat \<Rightarrow> nat list \<Rightarrow> nat option" where
  "walk s r p = foldl (\<lambda>f i. Option.bind f (\<lambda>f. next_table s f i)) (Some r) p"

lemma walk_Nil [simp]: "walk s r [] = Some r"
  by (simp add: walk_def)

lemma walk_snoc [simp]: "walk s r (p @ [i]) = Option.bind (walk s r p) (\<lambda>f. next_table s f i)"
  by (simp add: walk_def)

definition vmm_inv :: "nat \<Rightarrow> vmm_state \<Rightarrow> bool" where
  "vmm_inv r s \<longleftrightarrow> pmm_inv (vpmm s) \<and> highest_page_index (vpmm s) \<le> 2 ^ 40 \<and>
     (\<forall>p f. length p \<le> 3 \<longrightarrow> walk s r p = Some f \<longrightarrow> f \<notin> free_pages (vpmm s)) \<and>
     (\<forall>p q f. length p \<le> 3 \<longrightarrow> length q \<le> 3 \<longrightarrow> walk s r p = Some f \<longrightarrow> walk s r q = Some f \<longrightarrow> p = q)"

lemma vmm_invD:
  assumes "vmm_inv r s"
  shows "pmm_inv (vpmm s)"
    "length p \<le> 3 \<Longrightarrow> walk s r p = Some f \<Longrightarrow> f \<notin> free_pages (vpmm s)"
    "length p \<le> 3 \<Longrightarrow> length q \<le> 3 \<Longrightarrow> walk s r p = Some f \<Longrightarrow> walk s r q = Some f \<Longrightarrow> p = q"
    "highest_page_index (vpmm s) \<le> 2 ^ 40"
  using assms unfolding vmm_inv_def by blast+

definition leaf :: "vmm_state \<Rightarrow> nat \<Rightarrow> nat list \<Rightarrow> nat \<Rightarrow> 64 word" where
  "leaf s r p i = (case walk s r p of None \<Rightarrow> 0 | Some f \<Rightarrow> tables s f i)"

text \<open>Adding the empty table \<open>g\<close> at slot \<open>i\<close> of the table \<open>f\<close>.\<close>

lemma walk_add_table:
  assumes inv: "vmm_inv r s" and f: "walk s r p = Some f" "length p < 3"
    and np: "\<not> present (tables s f i)"
    and e: "present e" "frame (VMM_GET_PHYSICAL e) = g" and g: "g \<in> free_pages (vpmm s)"
    and t: "tables t = (tables s)(g := (\<lambda>_. 0), f := (tables s f)(i := e))"
    and q: "length q \<le> 3"
  shows "walk t r q = (if q = p @ [i] then Some g else walk s r q)"
  using q
proof (induction q rule: rev_induct)
  case (snoc j q)
  have fg: "f \<noteq> g" using vmm_invD(2) [OF inv _ f(1)] f(2) g by auto
  show ?case
  proof (cases "walk s r q")
    case None
    then have "q \<noteq> p" using f by auto
    then show ?thesis using snoc None fg f(2) t by (auto simp: next_table_def)
  next
    case (Some x)
    have "x \<noteq> g" using vmm_invD(2) [OF inv _ Some] snoc.prems g by auto
    moreover have "x = f \<longleftrightarrow> q = p" using vmm_invD(3) [OF inv _ _ Some] f Some snoc.prems by fastforce
    moreover have "q \<noteq> p @ [i]" using Some f(1) np by (auto simp: next_table_def)
    ultimately show ?thesis using snoc Some e t by (auto simp: next_table_def)
  qed
qed auto

lemma leaf_add_table:
  assumes inv: "vmm_inv r s" and f: "walk s r p = Some f" "length p < 3"
    and np: "\<not> present (tables s f i)"
    and e: "present e" "frame (VMM_GET_PHYSICAL e) = g" and g: "g \<in> free_pages (vpmm s)"
    and t: "tables t = (tables s)(g := (\<lambda>_. 0), f := (tables s f)(i := e))"
    and q: "length q = 3"
  shows "leaf t r q j = leaf s r q j"
proof -
  have w: "walk t r q = (if q = p @ [i] then Some g else walk s r q)"
    using walk_add_table [OF inv f np e g t] q by simp
  have fg: "f \<noteq> g" using vmm_invD(2) [OF inv _ f(1)] f(2) g by auto
  show ?thesis
  proof (cases "q = p @ [i]")
    case True
    then have "walk s r q = None" using f np by (simp add: next_table_def)
    then show ?thesis using w True t fg by (simp add: leaf_def)
  next
    case False
    have "x \<noteq> g \<and> x \<noteq> f" if "walk s r q = Some x" for x
      using vmm_invD(2) [OF inv _ that] vmm_invD(3) [OF inv _ _ that, of p] g f q by auto
    then show ?thesis using w False t by (auto simp: leaf_def split: option.split)
  qed
qed

text \<open>Writing the entry at slot \<open>i\<close> of a level-1 table.\<close>

lemma walk_set_leaf:
  assumes inv: "vmm_inv r s" and f: "walk s r p = Some f" "length p = 3" and q: "length q \<le> 3"
  shows "walk (set_entry f i e s) r q = walk s r q"
  using q
proof (induction q rule: rev_induct)
  case (snoc j q)
  have "x \<noteq> f" if "walk s r q = Some x" for x
    using vmm_invD(3) [OF inv _ _ that, of p] f snoc.prems by auto
  then show ?case using snoc by (cases "walk s r q") (auto simp: next_table_def set_entry_def)
qed simp

lemma leaf_set_leaf:
  assumes inv: "vmm_inv r s" and f: "walk s r p = Some f" "length p = 3" and q: "length q = 3"
  shows "leaf (set_entry f i e s) r q j = (if q = p \<and> j = i then e else leaf s r q j)"
proof -
  have w: "walk (set_entry f i e s) r q = walk s r q" using walk_set_leaf [OF inv f] q by simp
  have "x = f \<longleftrightarrow> q = p" if "walk s r q = Some x" for x
    using vmm_invD(3) [OF inv _ _ that, of p] f q that by auto
  then show ?thesis using w f by (auto simp: leaf_def set_entry_def split: option.split)
qed

lemma vmm_inv_set_leaf:
  assumes inv: "vmm_inv r s" and f: "walk s r p = Some f" "length p = 3"
  shows "vmm_inv r (set_entry f i e s)"
proof -
  have "vpmm (set_entry f i e s) = vpmm s" by (simp add: set_entry_def)
  with inv show ?thesis unfolding vmm_inv_def by (simp add: walk_set_leaf [OF inv f] cong: imp_cong)
qed

subsection \<open>The walk of the operations\<close>

definition vmm_rest :: "vmm_state \<Rightarrow> vmm_state \<Rightarrow> bool" where
  "vmm_rest s t \<longleftrightarrow> hhdm_address t = hhdm_address s \<and> kernel_space t = kernel_space s \<and>
     vmm_free_contiguous_address_iteration t = vmm_free_contiguous_address_iteration s \<and>
     get_free_contiguous_lock t = get_free_contiguous_lock s \<and> cr3 t = cr3 s \<and>
     invlpg_log t = invlpg_log s \<and>
     highest_page_index (vpmm t) = highest_page_index (vpmm s)"

text \<open>\<open>grows r k s t\<close>: \<open>t\<close> has the translations of \<open>s\<close> and at most \<open>k\<close> more tables.\<close>

definition grows :: "nat \<Rightarrow> nat \<Rightarrow> vmm_state \<Rightarrow> vmm_state \<Rightarrow> bool" where
  "grows r k s t \<longleftrightarrow> vmm_inv r t \<and> vmm_rest s t \<and>
     (\<forall>q j. length q = 3 \<longrightarrow> leaf t r q j = leaf s r q j) \<and>
     free_pages (vpmm t) \<subseteq> free_pages (vpmm s) \<and>
     card (free_pages (vpmm s)) \<le> card (free_pages (vpmm t)) + k"

lemma grows_refl: "vmm_inv r s \<Longrightarrow> grows r k s s"
  by (simp add: grows_def vmm_rest_def)

lemma grows_trans: "grows r k s t \<Longrightarrow> grows r k' t u \<Longrightarrow> grows r (k + k') s u"
  unfolding grows_def vmm_rest_def by auto

lemma vmm_allocate_page_wp:
  assumes "vmm_inv r s" "free_pages (vpmm s) \<noteq> {}"
    and "\<And>g p. g \<in> free_pages (vpmm s) \<Longrightarrow> g < 2 ^ 40 \<Longrightarrow> pmm_inv p \<Longrightarrow> free_pages p = free_pages (vpmm s) - {g} \<Longrightarrow>
      highest_page_index p = highest_page_index (vpmm s) \<Longrightarrow> Q (g * 4096) (s\<lparr>vpmm := p\<rparr>)"
  shows "wp vmm_allocate_page Q s"
proof -
  let ?k = "Min (free_pages (vpmm s))"
  have k: "?k \<in> free_pages (vpmm s)" using assms(2) by (intro Min_in) simp_all
  have inv: "pmm_inv (vpmm s)" by (rule vmm_invD(1) [OF assms(1)])
  have "?k < 2 ^ 40" using k inv pmm_geom_lens(4) [of "vpmm s"] vmm_invD(4) [OF assms(1)]
    by (auto simp: pmm_inv_def)
  note Q = assms(3) [OF k this]
  show ?thesis unfolding vmm_allocate_page_def wp_zoomc
    by (rule wp_mono [OF pmm_allocate_page_wp [OF inv assms(2) refl]])
      (use Q in \<open>simp add: same_config_def\<close>)
qed

lemma vmm_inv_add_table:
  assumes inv: "vmm_inv r s" and f: "walk s r p = Some f" "length p < 3"
    and np: "\<not> present (tables s f i)"
    and e: "present e" "frame (VMM_GET_PHYSICAL e) = g" and g: "g \<in> free_pages (vpmm s)"
    and t: "tables t = (tables s)(g := (\<lambda>_. 0), f := (tables s f)(i := e))"
    and pm: "pmm_inv (vpmm t)" "free_pages (vpmm t) = free_pages (vpmm s) - {g}"
      "highest_page_index (vpmm t) = highest_page_index (vpmm s)"
  shows "vmm_inv r t"
proof -
  have w: "walk t r q = (if q = p @ [i] then Some g else walk s r q)" if "length q \<le> 3" for q
    by (rule walk_add_table [OF inv f np e g t that])
  have ng: "x \<noteq> g" if "length q \<le> 3" "walk s r q = Some x" for q x
    using vmm_invD(2) [OF inv that] g by auto
  have 1: "x \<notin> free_pages (vpmm t)" if "length q \<le> 3" "walk t r q = Some x" for q x
    using that w [of q] vmm_invD(2) [OF inv, of q x] pm(2) by (auto split: if_splits)
  have 2: "q = q'" if "length q \<le> 3" "length q' \<le> 3" "walk t r q = Some x" "walk t r q' = Some x" for q q' x
    using that w [of q] w [of q'] ng vmm_invD(3) [OF inv, of q q' x] by (auto split: if_splits)
  show ?thesis unfolding vmm_inv_def
    using pm(1,3) vmm_invD(4) [OF inv] 1 2 by auto
qed

lemma vmm_get_entry_wp:
  assumes inv: "vmm_inv r s" and f: "walk s r p = Some f" "length p < 3"
    and ne: "free_pages (vpmm s) \<noteq> {}"
  shows "wp (vmm_get_entry f i flags) (\<lambda>g t. grows r 1 s t \<and> walk t r (p @ [i]) = Some g) s"
proof (cases "present (tables s f i)")
  case True
  then show ?thesis using f inv
    by (simp add: vmm_get_entry_def wp_simps grows_refl next_table_def)
next
  case False
  have "wp vmm_allocate_page (\<lambda>pa t. grows r 1 s
      (set_entry f i (vmm_make_entry pa flags) (clear_table (frame pa) t)) \<and>
      walk (set_entry f i (vmm_make_entry pa flags) (clear_table (frame pa) t)) r (p @ [i]) = Some (frame pa)) s"
  proof (rule vmm_allocate_page_wp [OF inv ne])
    fix g pm
    assume g: "g \<in> free_pages (vpmm s)" "g < 2 ^ 40" and pm: "pmm_inv pm"
      "free_pages pm = free_pages (vpmm s) - {g}" "highest_page_index pm = highest_page_index (vpmm s)"
    let ?e = "vmm_make_entry (g * 4096) flags" let ?t = "set_entry f i ?e (clear_table g (s\<lparr>vpmm := pm\<rparr>))"
    have "f \<noteq> g" using vmm_invD(2) [OF inv _ f(1)] f(2) g by auto
    then have t: "tables ?t = (tables s)(g := (\<lambda>_. 0), f := (tables s f)(i := ?e))" "vpmm ?t = pm"
      by (simp_all add: set_entry_def clear_table_def)
    have e: "present ?e" "frame (VMM_GET_PHYSICAL ?e) = g" using g(2) by (simp_all add: make_entry_physical)
    have "vmm_inv r ?t" using vmm_inv_add_table [OF inv f False e g(1) t(1)] t(2) pm by simp
    moreover have "walk ?t r (p @ [i]) = Some g"
      using walk_add_table [OF inv f False e g(1) t(1), of "p @ [i]"] f(2) by (simp del: walk_snoc)
    moreover have "leaf ?t r q j = leaf s r q j" if "length q = 3" for q j
      by (rule leaf_add_table [OF inv f False e g(1) t(1) that])
    moreover have "card (free_pages (vpmm s)) \<le> card (free_pages pm) + 1"
      using g(1) pm(2) by simp
    moreover have "vmm_rest s ?t" using pm(3) by (simp add: vmm_rest_def set_entry_def clear_table_def)
    ultimately show "grows r 1 s (set_entry f i (vmm_make_entry (g * 4096) flags)
        (clear_table (frame (g * 4096)) (s\<lparr>vpmm := pm\<rparr>))) \<and>
      walk (set_entry f i (vmm_make_entry (g * 4096) flags)
        (clear_table (frame (g * 4096)) (s\<lparr>vpmm := pm\<rparr>))) r (p @ [i]) = Some (frame (g * 4096))"
      using t(2) pm(2) by (simp add: grows_def del: walk_snoc)
  qed
  then show ?thesis using False by (simp add: vmm_get_entry_def wp_simps del: walk_snoc)
qed

lemma card_grows:
  assumes "grows r k s t" "k < card (free_pages (vpmm s))"
  shows "free_pages (vpmm t) \<noteq> {}"
proof
  assume "free_pages (vpmm t) = {}"
  then show False using assms by (simp add: grows_def)
qed

definition path :: "nat \<Rightarrow> nat list" where
  "path va = [VMM_PML_X_GET_INDEX va 3, VMM_PML_X_GET_INDEX va 2, VMM_PML_X_GET_INDEX va 1]"

lemma length_path [simp]: "length (path va) = 3"
  by (simp add: path_def)

lemma vmm_walk_wp:
  assumes inv: "vmm_inv r s" and free: "3 \<le> card (free_pages (vpmm s))"
  shows "wp (vmm_walk r va flags) (\<lambda>f t. grows r 3 s t \<and> walk t r (path va) = Some f) s"
  unfolding vmm_walk_def wp_bindc path_def
proof (rule wp_mono [OF vmm_get_entry_wp [OF inv, of "[]"]])
  show "walk s r [] = Some r" "length [] < 3" "free_pages (vpmm s) \<noteq> {}" using free by auto
  fix f3 t1 assume 1: "grows r 1 s t1 \<and> walk t1 r ([] @ [VMM_PML_X_GET_INDEX va 3]) = Some f3"
  then have i1: "vmm_inv r t1" "walk t1 r [VMM_PML_X_GET_INDEX va 3] = Some f3" "free_pages (vpmm t1) \<noteq> {}"
    using card_grows free by (auto simp: grows_def)
  show "wp (vmm_get_entry f3 (VMM_PML_X_GET_INDEX va 2) flags) (\<lambda>pml2. wp (vmm_get_entry pml2
     (VMM_PML_X_GET_INDEX va 1) flags) (\<lambda>f t. grows r 3 s t \<and> walk t r [VMM_PML_X_GET_INDEX va 3,
       VMM_PML_X_GET_INDEX va 2, VMM_PML_X_GET_INDEX va 1] = Some f)) t1"
  proof (rule wp_mono [OF vmm_get_entry_wp [OF i1(1,2) _ i1(3)]])
    fix f2 t2 assume 2: "grows r 1 t1 t2 \<and> walk t2 r ([VMM_PML_X_GET_INDEX va 3] @ [VMM_PML_X_GET_INDEX va 2]) = Some f2"
    then have g2: "grows r 2 s t2" using 1 grows_trans by (metis one_add_one)
    then have i2: "vmm_inv r t2" "walk t2 r [VMM_PML_X_GET_INDEX va 3, VMM_PML_X_GET_INDEX va 2] = Some f2"
      "free_pages (vpmm t2) \<noteq> {}"
      using 2 card_grows free by (auto simp: grows_def)
    show "wp (vmm_get_entry f2 (VMM_PML_X_GET_INDEX va 1) flags)
      (\<lambda>f t. grows r 3 s t \<and> walk t r [VMM_PML_X_GET_INDEX va 3,
       VMM_PML_X_GET_INDEX va 2, VMM_PML_X_GET_INDEX va 1] = Some f) t2"
      by (rule wp_mono [OF vmm_get_entry_wp [OF i2(1,2) _ i2(3)]])
        (use grows_trans [OF g2] in \<open>auto simp: numeral_3_eq_3\<close>)
  qed simp
qed

subsection \<open>Translation of virtual addresses\<close>

abbreviation slot :: "nat \<Rightarrow> nat" where
  "slot va \<equiv> VMM_PML_X_GET_INDEX va 0"

definition vpage :: "nat \<Rightarrow> nat" where
  "vpage va = va div 4096 mod 2 ^ 36"

definition entry_of :: "vmm_state \<Rightarrow> nat \<Rightarrow> nat \<Rightarrow> 64 word" where
  "entry_of s r va = leaf s r (path va) (slot va)"

definition translate :: "vmm_state \<Rightarrow> nat \<Rightarrow> nat \<Rightarrow> nat option" where
  "translate s r va =
     (if present (entry_of s r va) then Some (VMM_GET_PHYSICAL (entry_of s r va) + va mod 4096) else None)"

lemma pml_index: "VMM_PML_X_GET_INDEX va l = va div 4096 div 512 ^ l mod 512"
proof -
  have m: "(0x1ff :: nat) = mask 9" by (simp add: mask_eq_exp_minus_1)
  have "VMM_PML_X_GET_INDEX va l = take_bit 9 (drop_bit (12 + l * 9) va)"
    unfolding VMM_PML_X_GET_INDEX_def m by (rule bit_eqI) (auto simp: bit_simps)
  also have "\<dots> = va div 4096 div 512 ^ l mod 512"
    by (simp add: take_bit_eq_mod drop_bit_eq_div power_add power_mult div_mult2_eq mult.commute [of l])
  finally show ?thesis .
qed

lemma digits4:
  fixes x :: nat
  shows "x mod 2 ^ 36 = ((x div 512 ^ 3 mod 512 * 512 + x div 512 ^ 2 mod 512) * 512 + x div 512 ^ 1 mod 512) * 512
     + x div 512 ^ 0 mod 512"
proof -
  have "x mod 2 ^ 36 = x mod (512 * (512 * (512 * 512)))" by simp
  then show ?thesis by (simp only: mod_mult2_eq) (simp add: algebra_simps div_mult2_eq [symmetric])
qed

lemma path_slot_eq: "path va = path va' \<and> slot va = slot va' \<longleftrightarrow> vpage va = vpage va'"
  unfolding vpage_def path_def
proof
  assume "[VMM_PML_X_GET_INDEX va 3, VMM_PML_X_GET_INDEX va 2, VMM_PML_X_GET_INDEX va 1] =
    [VMM_PML_X_GET_INDEX va' 3, VMM_PML_X_GET_INDEX va' 2, VMM_PML_X_GET_INDEX va' 1] \<and> slot va = slot va'"
  then show "va div 4096 mod 2 ^ 36 = va' div 4096 mod 2 ^ 36"
    unfolding digits4 [of "va div 4096"] digits4 [of "va' div 4096"] by (simp add: pml_index)
next
  have d: "x div 512 ^ l mod 512 = x mod 2 ^ 36 div 512 ^ l mod 512" if "l \<le> 3" for x l :: nat
  proof -
    have "(2 :: nat) ^ 36 = 512 ^ l * 512 ^ (4 - l)" using that by (simp flip: power_add)
    then show ?thesis using that by (simp only: mod_mult2_eq) (auto simp: mod_mod_cancel le_Suc_eq numeral_3_eq_3)
  qed
  assume a: "va div 4096 mod 2 ^ 36 = va' div 4096 mod 2 ^ 36"
  have "VMM_PML_X_GET_INDEX va l = VMM_PML_X_GET_INDEX va' l" if "l \<le> 3" for l
    unfolding pml_index d [OF that, of "va div 4096"] d [OF that, of "va' div 4096"] a ..
  then show "[VMM_PML_X_GET_INDEX va 3, VMM_PML_X_GET_INDEX va 2, VMM_PML_X_GET_INDEX va 1] =
    [VMM_PML_X_GET_INDEX va' 3, VMM_PML_X_GET_INDEX va' 2, VMM_PML_X_GET_INDEX va' 1] \<and> slot va = slot va'"
    by simp
qed

subsection \<open>Operations on one page\<close>

text \<open>
  \<open>entry_upd r va e k s t\<close>: the entry of the page of \<open>va\<close> is \<open>e\<close>, every other page translates as
  before, and at most \<open>k\<close> free pages went into new tables.
\<close>

definition entry_upd :: "nat \<Rightarrow> nat \<Rightarrow> 64 word \<Rightarrow> nat \<Rightarrow> vmm_state \<Rightarrow> vmm_state \<Rightarrow> bool" where
  "entry_upd r va e k s t \<longleftrightarrow> vmm_inv r t \<and> vmm_rest s t \<and>
     (\<forall>va'. entry_of t r va' = (if vpage va' = vpage va then e else entry_of s r va')) \<and>
     free_pages (vpmm t) \<subseteq> free_pages (vpmm s) \<and>
     card (free_pages (vpmm s)) \<le> card (free_pages (vpmm t)) + k"

lemma entry_of_page: "vpage va = vpage va' \<Longrightarrow> entry_of s r va = entry_of s r va'"
  using path_slot_eq [of va va'] by (simp add: entry_of_def)

lemma entry_of_walk: "walk s r (path va) = Some f \<Longrightarrow> tables s f (slot va) = entry_of s r va"
  by (simp add: entry_of_def leaf_def)

lemma grows_entry_of: "grows r k s t \<Longrightarrow> entry_of t r va = entry_of s r va"
  by (simp add: grows_def entry_of_def)

lemma grows_upd_refl:
  assumes "grows r k s t"
  shows "entry_upd r va (entry_of s r va) k s t"
proof -
  have "entry_of t r va' = (if vpage va' = vpage va then entry_of s r va else entry_of s r va')" for va'
    using entry_of_page [of va' va s r] grows_entry_of [OF assms, of va'] by simp
  with assms show ?thesis by (simp add: grows_def entry_upd_def)
qed

lemma entry_upd_set:
  assumes g: "grows r k s t" and f: "walk t r (path va) = Some f"
  shows "entry_upd r va e k s (set_entry f (slot va) e t)"
proof -
  have inv: "vmm_inv r t" and l: "length (path va) = 3" using g by (simp_all add: grows_def)
  have "leaf (set_entry f (slot va) e t) r (path va') (slot va') =
      (if vpage va' = vpage va then e else leaf s r (path va') (slot va'))" for va'
    using leaf_set_leaf [OF inv f l, of "path va'" "slot va" e "slot va'"] path_slot_eq [of va' va] g
    by (simp add: grows_def)
  moreover have "vpmm (set_entry f (slot va) e t) = vpmm t" "vmm_rest s (set_entry f (slot va) e t)"
    using g by (simp_all add: set_entry_def grows_def vmm_rest_def)
  ultimately show ?thesis
    using g vmm_inv_set_leaf [OF inv f l] by (simp add: entry_upd_def entry_of_def grows_def)
qed

lemma vmm_map_page_wp:
  assumes "vmm_inv (frame space) s" "3 \<le> card (free_pages (vpmm s))"
  shows "wp (vmm_map_page space va pa flags)
    (\<lambda>e t. e = EOK \<and> entry_upd (frame space) va (vmm_make_entry pa flags) 3 s t) s"
  unfolding vmm_map_page_def wp_bindc wp_seqc wp_modc wp_ret
  by (rule wp_mono [OF vmm_walk_wp [OF assms]]) (simp add: entry_upd_set)

lemma vmm_unmap_page_wp:
  assumes "vmm_inv r s" "3 \<le> card (free_pages (vpmm s))"
  shows "wp (vmm_unmap_page r va) (\<lambda>e t.
    if present (entry_of s r va) then e = EOK \<and> entry_upd r va 0 3 s t
    else e = EADDRNOTAVAIL \<and> grows r 3 s t) s"
  unfolding vmm_unmap_page_def wp_bindc Let_def wp_getc
  by (rule wp_mono [OF vmm_walk_wp [OF assms]])
    (auto simp: wp_simps entry_of_walk grows_entry_of entry_upd_set)

lemma vmm_update_page_flags_wp:
  assumes "vmm_inv r s" "3 \<le> card (free_pages (vpmm s))"
  shows "wp (vmm_update_page_flags r va flags) (\<lambda>e t.
    if present (entry_of s r va) then e = EOK \<and> (\<exists>f. walk t r (path va) = Some f \<and>
       entry_upd r va (vmm_make_entry
         (VMM_GET_PHYSICAL (of_nat (hhdm_address s + f * 4096 + slot va * 8))) flags) 3 s t)
    else e = EADDRNOTAVAIL \<and> grows r 3 s t) s"
  unfolding vmm_update_page_flags_def wp_bindc Let_def wp_getc
proof (rule wp_mono [OF vmm_walk_wp [OF assms]], goal_cases)
  case (1 f t)
  then have inv: "vmm_inv r t" "hhdm_address t = hhdm_address s" by (auto simp: grows_def vmm_rest_def)
  have "walk (set_entry f (slot va) e t) r (path va) = Some f" for e
    using walk_set_leaf [OF inv(1), of "path va" f "path va" "slot va" e] 1 by simp
  then show ?case using 1 inv(2)
    by (auto simp: wp_simps entry_of_walk grows_entry_of entry_upd_set)
qed

lemma vmm_page_is_present_wp:
  assumes "vmm_inv r s" "3 \<le> card (free_pages (vpmm s))"
  shows "wp (vmm_page_is_present r va) (\<lambda>b t. b = present (entry_of s r va) \<and> grows r 3 s t) s"
  unfolding vmm_page_is_present_def wp_bindc wp_getc wp_ret
  by (rule wp_mono [OF vmm_walk_wp [OF assms]]) (auto dest: entry_of_walk simp: grows_entry_of)

lemma unat_and_le: "VMM_GET_PHYSICAL e \<le> 4503599627366400"
proof -
  have "VMM_GET_PHYSICAL e \<le> unat (0x000ffffffffff000 :: 64 word)"
    unfolding VMM_GET_PHYSICAL_def using word_and_le1 [of e "0x000ffffffffff000"] by (simp add: word_le_nat_alt)
  then show ?thesis by simp
qed

lemma vmm_get_physical_address_wp:
  assumes "vmm_inv (frame space) s" "3 \<le> card (free_pages (vpmm s))"
  shows "wp (vmm_get_physical_address space va)
    (\<lambda>a t. a = translate s (frame space) va \<and> grows (frame space) 3 s t) s"
proof -
  have "u64_add (VMM_GET_PHYSICAL e) (va mod PAGE_SIZE) = VMM_GET_PHYSICAL e + va mod 4096" for e
  proof -
    have "va mod 4096 < 4096" by simp
    then have "VMM_GET_PHYSICAL e + va mod 4096 < 18446744073709551616" using unat_and_le [of e] by linarith
    then show ?thesis by (simp add: u64_add_small PAGE_SIZE_def)
  qed
  then show ?thesis
    unfolding vmm_get_physical_address_def wp_bindc wp_getc
    by (intro wp_mono [OF vmm_walk_wp [OF assms]])
      (auto simp: wp_simps entry_of_walk grows_entry_of translate_def)
qed

lemma vmm_get_flags_wp:
  assumes "vmm_inv (frame space) s" "3 \<le> card (free_pages (vpmm s))"
  shows "wp (vmm_get_flags space va)
    (\<lambda>fl t. fl = vmm_get_memory_flags (entry_of s (frame space) va) \<and> grows (frame space) 3 s t) s"
  unfolding vmm_get_flags_def wp_bindc wp_getc wp_ret
  by (rule wp_mono [OF vmm_walk_wp [OF assms]]) (auto dest: entry_of_walk simp: grows_entry_of)

subsection \<open>Backing a range with fresh pages\<close>

abbreviation entry_frame :: "64 word \<Rightarrow> nat" where
  "entry_frame e \<equiv> frame (VMM_GET_PHYSICAL e)"

text \<open>
  \<open>backed r P k s t\<close>: the pages of \<open>P\<close> that were not present now are, each in a frame of its own
  that was free in \<open>s\<close> and is not any more; nothing else has changed, and at most \<open>k\<close> free
  pages were used.
\<close>

definition fresh_page :: "nat \<Rightarrow> nat set \<Rightarrow> vmm_state \<Rightarrow> nat \<Rightarrow> bool" where
  "fresh_page r P s va \<longleftrightarrow> vpage va \<in> P \<and> \<not> present (entry_of s r va)"

definition backed :: "nat \<Rightarrow> nat set \<Rightarrow> nat \<Rightarrow> vmm_state \<Rightarrow> vmm_state \<Rightarrow> bool" where
  "backed r P k s t \<longleftrightarrow> vmm_inv r t \<and> vmm_rest s t \<and>
     free_pages (vpmm t) \<subseteq> free_pages (vpmm s) \<and>
     card (free_pages (vpmm s)) \<le> card (free_pages (vpmm t)) + k \<and>
     (\<forall>va. \<not> fresh_page r P s va \<longrightarrow> entry_of t r va = entry_of s r va) \<and>
     (\<forall>va. fresh_page r P s va \<longrightarrow> present (entry_of t r va) \<and>
        entry_frame (entry_of t r va) \<in> free_pages (vpmm s) - free_pages (vpmm t)) \<and>
     (\<forall>va va'. fresh_page r P s va \<longrightarrow> fresh_page r P s va' \<longrightarrow>
        entry_frame (entry_of t r va) = entry_frame (entry_of t r va') \<longrightarrow> vpage va = vpage va')"

lemma backed_refl: "vmm_inv r s \<Longrightarrow> backed r {} k s s"
  by (simp add: backed_def vmm_rest_def fresh_page_def)

lemma backedD:
  assumes "backed r P k s t" "fresh_page r P s va"
  shows "present (entry_of t r va)" "entry_frame (entry_of t r va) \<in> free_pages (vpmm s) - free_pages (vpmm t)"
    "fresh_page r P s va' \<Longrightarrow> entry_frame (entry_of t r va) = entry_frame (entry_of t r va') \<Longrightarrow> vpage va = vpage va'"
  using assms unfolding backed_def by blast+

lemma backed_trans:
  assumes st: "backed r P k s t" and tu: "backed r P' k' t u"
  shows "backed r (P \<union> P') (k + k') s u"
proof -
  have sub: "free_pages (vpmm u) \<subseteq> free_pages (vpmm t)" "free_pages (vpmm t) \<subseteq> free_pages (vpmm s)"
    using st tu by (simp_all add: backed_def)
  have split: "fresh_page r (P \<union> P') s va \<longleftrightarrow> fresh_page r P s va \<or> fresh_page r P' t va" for va
    using st by (auto simp: backed_def fresh_page_def)
  have excl: "\<not> fresh_page r P' t va" if "fresh_page r P s va" for va
    using st that by (auto simp: backed_def fresh_page_def)
  have keep: "entry_of u r va = entry_of t r va" if "\<not> fresh_page r P' t va" for va
    using tu that by (simp add: backed_def)
  have 1: "entry_of u r va = entry_of s r va" if "\<not> fresh_page r (P \<union> P') s va" for va
    using st that keep [of va] by (simp add: split backed_def)
  have 2: "present (entry_of u r va) \<and>
      entry_frame (entry_of u r va) \<in> free_pages (vpmm s) - free_pages (vpmm u)"
    if "fresh_page r (P \<union> P') s va" for va
  proof (cases "fresh_page r P s va")
    case True
    then have "entry_of u r va = entry_of t r va" using keep excl by simp
    then show ?thesis using True backedD(1,2) [OF st True] sub by auto
  next
    case False
    then have "fresh_page r P' t va" using that by (simp add: split)
    then show ?thesis using backedD(1,2) [OF tu] sub by auto
  qed
  have neq: "entry_frame (entry_of u r va) \<noteq> entry_frame (entry_of u r va')"
    if "fresh_page r P s va" "fresh_page r P' t va'" for va va'
    using keep [OF excl [OF that(1)]] backedD(2) [OF st that(1)] backedD(2) [OF tu that(2)] by auto
  have 3: "vpage va = vpage va'"
    if f: "fresh_page r (P \<union> P') s va" "fresh_page r (P \<union> P') s va'"
      and e: "entry_frame (entry_of u r va) = entry_frame (entry_of u r va')" for va va'
  proof -
    consider "fresh_page r P s va" "fresh_page r P s va'" | "fresh_page r P' t va" "fresh_page r P' t va'"
      using f e neq [of va va'] neq [of va' va] unfolding split by force
    then show ?thesis
    proof cases
      case 1
      then show ?thesis using backedD(3) [OF st 1] keep excl e by simp
    next
      case 2
      then show ?thesis using backedD(3) [OF tu 2] e by simp
    qed
  qed
  have "vmm_inv r u" "vmm_rest s u"
    "card (free_pages (vpmm s)) \<le> card (free_pages (vpmm u)) + (k + k')"
    using st tu unfolding backed_def vmm_rest_def by simp_all
  then show ?thesis
    unfolding backed_def [of r "P \<union> P'"] using 1 2 3 sub by blast
qed

lemma grows_backed: "grows r k s t \<Longrightarrow> backed r {} k s t"
  by (simp add: grows_def backed_def fresh_page_def entry_of_def)

lemma walk_vpmm [simp]: "walk (t\<lparr>vpmm := p\<rparr>) r q = walk t r q"
proof -
  have "next_table (t\<lparr>vpmm := p\<rparr>) = next_table t" by (intro ext) (simp add: next_table_def)
  then show ?thesis by (simp add: walk_def)
qed

lemma entry_of_vpmm [simp]: "entry_of (t\<lparr>vpmm := p\<rparr>) r va = entry_of t r va"
  by (simp add: entry_of_def leaf_def split: option.split)

lemma vmm_map_allocate_page_wp:
  assumes inv: "vmm_inv (frame space) s" and free: "7 \<le> card (free_pages (vpmm s))"
  shows "wp (vmm_map_allocate_page space va flags) (\<lambda>_. backed (frame space) {vpage va} 7 s) s"
  unfolding vmm_map_allocate_page_def wp_bindc
proof (rule wp_mono [OF vmm_page_is_present_wp [OF inv]], goal_cases)
  case (2 b t)
  let ?r = "frame space"
  have inv_t: "vmm_inv ?r t" and ct: "4 \<le> card (free_pages (vpmm t))" using 2 free by (auto simp: grows_def)
  show ?case
  proof (cases b)
    case True
    then have "\<not> fresh_page ?r {vpage va} s va'" for va'
      using 2 entry_of_page [of va' va s ?r] by (auto simp: fresh_page_def)
    with True 2 show ?thesis using grows_entry_of by (simp add: wp_simps backed_def grows_def entry_of_def)
  next
    case False
    have "wp vmm_allocate_page (\<lambda>pa u. wp (vmm_map_page space va pa flags)
      (\<lambda>_. backed ?r {vpage va} 7 s) u) t"
    proof (rule vmm_allocate_page_wp [OF inv_t])
      show "free_pages (vpmm t) \<noteq> {}" using ct by auto
      fix g p
      assume g: "g \<in> free_pages (vpmm t)" "g < 2 ^ 40" and p: "pmm_inv p"
        "free_pages p = free_pages (vpmm t) - {g}" "highest_page_index p = highest_page_index (vpmm t)"
      let ?u = "t\<lparr>vpmm := p\<rparr>"
      note w = walk_vpmm [of p t]
      have e: "entry_of t ?r va' = entry_of s ?r va'" for va'
        using grows_entry_of [of ?r 3 s t va'] 2 by simp
      have inv_u: "vmm_inv ?r ?u" using inv_t p unfolding vmm_inv_def w by auto
      have c: "card (free_pages p) = card (free_pages (vpmm t)) - 1" using p(2) g(1) by simp
      have cu: "3 \<le> card (free_pages (vpmm ?u))" using ct c by simp
      have ph: "entry_frame (vmm_make_entry (g * 4096) flags) = g" using g(2) by (simp add: make_entry_physical)
      show "wp (vmm_map_page space va (g * 4096) flags) (\<lambda>_. backed ?r {vpage va} 7 s) ?u"
      proof (rule wp_mono [OF vmm_map_page_wp [OF inv_u cu]], goal_cases)
        case (1 x v)
        then have v: "vmm_inv ?r v" "vmm_rest ?u v" "free_pages (vpmm v) \<subseteq> free_pages p"
          "card (free_pages p) \<le> card (free_pages (vpmm v)) + 3"
          "\<And>va'. entry_of v ?r va' = (if vpage va' = vpage va then vmm_make_entry (g * 4096) flags else entry_of s ?r va')"
          by (auto simp: entry_upd_def e)
        have f: "fresh_page ?r {vpage va} s va' \<longleftrightarrow> vpage va' = vpage va" for va'
          using 2 False entry_of_page [of va' va s ?r] by (auto simp: fresh_page_def)
        have gs: "g \<in> free_pages (vpmm s)" "free_pages (vpmm t) \<subseteq> free_pages (vpmm s)"
          "card (free_pages (vpmm s)) \<le> card (free_pages (vpmm t)) + 3" "vmm_rest s t"
          using 2 g by (auto simp: grows_def)
        have "vmm_rest s v" using v(2) gs(4) p(3) by (simp add: vmm_rest_def)
        moreover have "g \<notin> free_pages (vpmm v)" "free_pages (vpmm v) \<subseteq> free_pages (vpmm s)"
          using v(3) p(2) gs(2) by auto
        moreover have "card (free_pages (vpmm s)) \<le> card (free_pages (vpmm v)) + 7" using v(4) c gs(3) ct by simp
        ultimately show ?case using v(1) gs(1) by (simp add: backed_def f v(5) ph)
      qed
    qed
    with False show ?thesis by (simp add: wp_simps)
  qed
qed (use free in simp)

definition range_pages :: "nat \<Rightarrow> nat \<Rightarrow> nat \<Rightarrow> nat set" where
  "range_pages addr k n = (\<lambda>j. vpage (u64_add addr (j * 4096))) ` {k..<n}"

lemma atLeastLessThan_insert: "k < n \<Longrightarrow> {k..<n} = insert k {Suc k..<n}" for k n :: nat
  by auto

lemma vmm_map_allocate_loop_wp:
  assumes "vmm_inv (frame space) s" "range_size rg \<le> 2 ^ 64 - 4096"
    and "n = (range_size rg + 4095) div 4096" "k \<le> n" "7 * (n - k) \<le> card (free_pages (vpmm s))"
  shows "wp (vmm_map_allocate_loop space rg flags (k * 4096) acc)
    (\<lambda>_. backed (frame space) (range_pages (range_address rg) k n) (7 * (n - k)) s) s"
  using assms
proof (induction "n - k" arbitrary: k s acc)
  case 0
  then have "\<not> k * 4096 < range_size rg" by simp
  with 0 show ?case
    by (simp add: vmm_map_allocate_loop.simps [of _ _ _ "k * 4096"] wp_simps range_pages_def backed_refl)
next
  case (Suc m)
  let ?r = "frame space" and ?va = "u64_add (range_address rg) (k * 4096)"
  have k: "k * 4096 < range_size rg" "k * 4096 + 4096 < 2 ^ 64" "k < n" "k * 4096 + 4096 = Suc k * 4096"
    using Suc.hyps(2) Suc.prems(2,3) by auto
  have P: "range_pages (range_address rg) k n = {vpage ?va} \<union> range_pages (range_address rg) (Suc k) n"
    unfolding range_pages_def atLeastLessThan_insert [OF k(3)] by simp
  have page: "wp (vmm_map_allocate_page space ?va flags) (\<lambda>_. backed ?r {vpage ?va} 7 s) s"
    using Suc.prems k(3) by (intro vmm_map_allocate_page_wp) auto
  have rest: "wp (vmm_map_allocate_loop space rg flags (Suc k * 4096) a)
     (\<lambda>_. backed ?r (range_pages (range_address rg) k n) (7 * (n - k)) s) t"
    if t: "backed ?r {vpage ?va} 7 s t" for t a
  proof -
    have "vmm_inv ?r t" "7 * (n - Suc k) \<le> card (free_pages (vpmm t))"
      using t Suc.prems(5) k(3) by (auto simp: backed_def)
    then have "wp (vmm_map_allocate_loop space rg flags (Suc k * 4096) a)
      (\<lambda>_. backed ?r (range_pages (range_address rg) (Suc k) n) (7 * (n - Suc k)) t) t"
      using Suc.prems(2,3) Suc.hyps(2) k(3) by (intro Suc.hyps(1)) auto
    moreover have "7 + 7 * (n - Suc k) = 7 * (n - k)" using k(3) by simp
    ultimately show ?thesis
      unfolding P using backed_trans [OF t] by (metis (no_types, lifting) wp_mono)
  qed
  show ?case
    unfolding vmm_map_allocate_loop.simps [of _ _ _ "k * 4096"] if_P [OF k(1)] if_P [OF k(2)] k(4) wp_bindc
    by (rule wp_mono [OF page]) (use rest k(2,4) in simp)
qed

lemma vmm_map_allocate_wp:
  assumes "vmm_inv (frame space) s" "range_size rg \<le> 2 ^ 64 - 4096"
    and "n = (range_size rg + 4095) div 4096" "7 * n \<le> card (free_pages (vpmm s))"
  shows "wp (vmm_map_allocate space rg flags)
    (\<lambda>_. backed (frame space) (range_pages (range_address rg) 0 n) (7 * n) s) s"
  using vmm_map_allocate_loop_wp [OF assms(1-3), of 0] assms(4)
  by (simp add: vmm_map_allocate_def)

subsection \<open>Properties\<close>

definition vmm_zero :: "pmm_state \<Rightarrow> vmm_state" where
  "vmm_zero p = \<lparr>vpmm = p, tables = (\<lambda>_ _. 0), hhdm_address = 0xffff800000000000, kernel_space = 0,
     vmm_free_contiguous_address_iteration = 0, get_free_contiguous_lock = False, cr3 = 0, invlpg_log = []\<rparr>"

lemma vmm_zero_simps [simp]: "vpmm (vmm_zero p) = p" "tables (vmm_zero p) f i = 0"
  by (simp_all add: vmm_zero_def)

lemma vmm_zero_inv:
  assumes "pmm_inv p" "highest_page_index p \<le> 2 ^ 40" "r \<notin> free_pages p"
  shows "vmm_inv r (vmm_zero p)"
proof -
  have "walk (vmm_zero p) r q = (if q = [] then Some r else None)" for q
    by (induction q rule: rev_induct) (auto simp: next_table_def split: if_splits)
  with assms show ?thesis by (auto simp: vmm_inv_def split: if_splits)
qed

lemma vmm_example:
  obtains s where "vmm_inv 2 s" "40 \<le> card (free_pages (vpmm s))" "\<forall>va. \<not> present (entry_of s 2 va)"
proof -
  obtain p where p: "pmm_free_pages_index 3 40 (pmm_blank 64) = Inr ((), p)" "pmm_inv p"
    "free_pages p = {3..<43}" "highest_page_index p = 64"
    using wp_exI [OF pmm_free_pages_index_wp [OF pmm_blank_inv(1) [of 64], of 40 3]]
    by (auto simp: pmm_blank_inv highest_blank same_config_def)
  have "entry_of (vmm_zero p) 2 va = 0" for va
    by (simp add: entry_of_def leaf_def split: option.split)
  then have "\<not> present (entry_of (vmm_zero p) 2 va)" for va by simp
  moreover have "vmm_inv 2 (vmm_zero p)" using p by (intro vmm_zero_inv) auto
  ultimately show thesis using that [of "vmm_zero p"] p by simp
qed

lemma phys_aligned: "VMM_GET_PHYSICAL e mod 4096 = 0"
proof -
  have "take_bit 12 (e AND push_bit 12 (mask 40)) = 0"
    by (rule bit_word_eqI) (auto simp: bit_simps)
  then have "take_bit 12 (unat (e AND push_bit 12 (mask 40))) = 0"
    by (metis unat_0 unsigned_take_bit_eq)
  then show ?thesis by (simp add: VMM_GET_PHYSICAL_def phys_mask take_bit_eq_mod)
qed









text \<open>
  C16: \<^verbatim>\<open>vmm_update_page_flags\<close> does not keep the frame of the page: the new entry takes its physical
  part from the address of the entry itself (the code masks the pointer \<^verbatim>\<open>entry\<close>, not
  \<^verbatim>\<open>*entry\<close>), so after a successful change of flags the page translates into the middle of the
  direct-map address of its page table, whatever frame it had before.
\<close>

theorem vmm_update_page_flags_loses_frame:
  assumes "vmm_inv r s" "3 \<le> card (free_pages (vpmm s))" "translate s r va \<noteq> None"
  shows "\<exists>t f. vmm_update_page_flags r va flags s = Inr (EOK, t) \<and> walk t r (path va) = Some f \<and>
    translate t r va =
      Some (VMM_GET_PHYSICAL (of_nat (hhdm_address s + f * 4096 + slot va * 8)) + va mod 4096)"
proof -
  have pr: "present (entry_of s r va)" using assms(3) by (simp add: translate_def split: if_splits)
  obtain t f where t: "vmm_update_page_flags r va flags s = Inr (EOK, t)" "walk t r (path va) = Some f"
    "entry_upd r va (vmm_make_entry
         (VMM_GET_PHYSICAL (of_nat (hhdm_address s + f * 4096 + slot va * 8))) flags) 3 s t"
    using wp_exI [OF vmm_update_page_flags_wp [OF assms(1,2), of va flags]] unfolding if_P [OF pr] by blast
  have "VMM_GET_PHYSICAL e mod 4096 = 0" "VMM_GET_PHYSICAL e < 2 ^ 52" for e
    using phys_aligned [of e] unat_and_le [of e] by simp_all
  with t show ?thesis by (auto simp: entry_upd_def translate_def make_entry_physical)
qed

theorem vmm_update_page_flags_loses_frame_witness:
  "\<exists>s t u f. vmm_map_page 8192 0x1000 0x5000 0 s = Inr (EOK, t) \<and> translate t 2 0x1000 = Some 0x5000 \<and>
     vmm_update_page_flags 2 0x1000 MEMORY_FLAG_WRITABLE t = Inr (EOK, u) \<and>
     translate u 2 0x1000 = Some (VMM_GET_PHYSICAL (of_nat (hhdm_address t + f * 4096 + 8)))"
proof -
  obtain s where s: "vmm_inv 2 s" "40 \<le> card (free_pages (vpmm s))" by (rule vmm_example)
  then obtain t where t: "vmm_map_page 8192 0x1000 0x5000 0 s = Inr (EOK, t)"
    "entry_upd 2 0x1000 (vmm_make_entry 0x5000 0) 3 s t"
    using wp_exI [OF vmm_map_page_wp [of 8192 s "0x1000" "0x5000" 0]] by auto
  then have "vmm_inv 2 t" "3 \<le> card (free_pages (vpmm t))" "translate t 2 0x1000 = Some 0x5000"
    using s make_entry_physical [of "0x5000" 0] by (auto simp: entry_upd_def translate_def)
  moreover have "slot 0x1000 = 1" by (simp add: pml_index)
  ultimately show ?thesis
    using vmm_update_page_flags_loses_frame [of 2 t "0x1000" MEMORY_FLAG_WRITABLE] t(1) by fastforce
qed

text \<open>
  C17: of the flags a page is mapped with, \<^verbatim>\<open>vmm_get_flags\<close> reports exactly the user, writable and
  device-memory ones.
\<close>

theorem vmm_flags_roundtrip:
  "vmm_get_memory_flags (vmm_make_entry pa flags) =
     flags AND (MEMORY_FLAG_DMA OR MEMORY_FLAG_WRITABLE OR MEMORY_FLAG_USER)"
proof -
  have 1: "w AND push_bit k 1 \<noteq> 0 \<longleftrightarrow> bit w k" "push_bit k 1 AND w \<noteq> 0 \<longleftrightarrow> bit w k" for w :: "'a :: len word" and k
    by (simp_all add: and_exp_eq_0_iff_not_bit push_bit_of_1 and.commute [of "2 ^ k"])
  have b: "bit (vmm_make_entry pa flags) k = bit (entry_flags flags) k" if "k < 12" for k
    using that by (simp add: make_entry_form bit_simps)
  have f: "bit (entry_flags flags) 4 = bit flags 4" "bit (entry_flags flags) 1 = bit flags 1"
    "bit (entry_flags flags) 2 = bit flags 3"
    unfolding entry_flags_def MEMORY_FLAG_DMA_def MEMORY_FLAG_WRITABLE_def MEMORY_FLAG_USER_def 1
    by (simp_all add: VMM_FLAG_PRESENT_def VMM_FLAG_CACHE_DISABLED_def VMM_FLAG_READ_WRITE_def
        VMM_FLAG_USER_def bit_simps)
  have m: "bit MEMORY_FLAG_DMA n \<longleftrightarrow> n = 4" "bit MEMORY_FLAG_WRITABLE n \<longleftrightarrow> n = 1"
    "bit MEMORY_FLAG_USER n \<longleftrightarrow> n = 3" for n
    unfolding MEMORY_FLAG_DMA_def MEMORY_FLAG_WRITABLE_def MEMORY_FLAG_USER_def push_bit_of_1 bit_exp_iff
    by auto
  have e: "bit (vmm_make_entry pa flags) 4 = bit flags 4" "bit (vmm_make_entry pa flags) 1 = bit flags 1"
    "bit (vmm_make_entry pa flags) 2 = bit flags 3"
    using f b [of 4] b [of 1] b [of 2] by simp_all
  show ?thesis
    unfolding vmm_get_memory_flags_def VMM_FLAG_CACHE_DISABLED_def VMM_FLAG_READ_WRITE_def VMM_FLAG_USER_def 1 e
    by (rule bit_word_eqI) (auto simp: bit_or_iff bit_and_iff m split: if_splits)
qed

end
