(* ===== verification/Heap.thy ===== *)
theory Heap
  imports Vmm_Correct
begin

section \<open>The kernel heap (kernel/source/global/heap.c)\<close>

text \<open>
  Model of the allocator that is compiled when \<^verbatim>\<open>DEBUG_HEAP\<close> is not defined, as it is in
  \<^verbatim>\<open>parameters.h\<close>. A segment is a 48-byte header followed by \<^verbatim>\<open>length\<close> bytes; the segments are in a
  doubly linked list of falling addresses that starts at \<^verbatim>\<open>main_segment\<close>. Headers are a store
  from addresses to records, the bytes of the user data a second one; an access below
  \<^verbatim>\<open>heap_end\<close> is an access to memory that is not mapped. The two loops of \<^verbatim>\<open>malloc\<close>, the walk and
  the retry after an expansion, have fuel.
\<close>

record heap_segment_header =
  is_free :: bool
  seg_length :: nat
  h_next :: "nat option"
  h_last :: "nat option"
  signature :: nat

record heap_state =
  hvmm :: vmm_state
  heap_end :: nat
  heap_low :: nat
  last_segment :: "nat option"
  main_segment :: "nat option"
  total_size :: nat
  free_size :: nat
  used_size :: nat
  heap_lock :: bool
  hmem :: "nat \<Rightarrow> heap_segment_header"
  hdata :: "nat \<Rightarrow> 8 word"

definition HDR :: nat where
  "HDR = 48"

definition zero_header :: heap_segment_header where
  "zero_header = \<lparr>is_free = False, seg_length = 0, h_next = None, h_last = None, signature = 0\<rparr>"

definition get_heap_segment_header :: "nat \<Rightarrow> nat" where
  "get_heap_segment_header address = u64_sub address HDR"

definition hread :: "nat option \<Rightarrow> (heap_segment_header, heap_state) cmd" where
  "hread p s = (case p of
      None \<Rightarrow> Inl NullDeref
    | Some a \<Rightarrow> if heap_end s \<le> a then Inr (hmem s a, s) else Inl OutOfBounds)"

definition hwrite :: "nat option \<Rightarrow> (heap_segment_header \<Rightarrow> heap_segment_header) \<Rightarrow> (unit, heap_state) cmd" where
  "hwrite p f s = (case p of
      None \<Rightarrow> Inl NullDeref
    | Some a \<Rightarrow> if heap_end s \<le> a then Inr ((), s\<lparr>hmem := (hmem s)(a := f (hmem s a))\<rparr>)
                else Inl OutOfBounds)"

subsection \<open>Merging and splitting\<close>

definition merge_this_to_next :: "nat \<Rightarrow> (unit, heap_state) cmd" where
  "merge_this_to_next header =
     bindc (hread (Some header)) (\<lambda>h.
     let header_next = h_next h in
     seqc (hwrite header_next (\<lambda>n. n\<lparr>seg_length := u64_add (seg_length n) (u64_add (seg_length h) HDR),
             h_last := h_last h\<rparr>))
    (bindc (hread (Some header)) (\<lambda>h.
     seqc (hwrite (h_last h) (\<lambda>l. l\<lparr>h_next := header_next\<rparr>))
    (hwrite (Some header) (\<lambda>_. zero_header)))))"

definition merge_last_to_this :: "nat \<Rightarrow> (unit, heap_state) cmd" where
  "merge_last_to_this header =
     bindc (hread (Some header)) (\<lambda>h.
     let header_last = h_last h in
     bindc (hread header_last) (\<lambda>l.
     seqc (hwrite (Some header) (\<lambda>h. h\<lparr>seg_length := u64_add (seg_length h) (u64_add (seg_length l) HDR),
             h_last := h_last l\<rparr>))
    (bindc (hread (Some header)) (\<lambda>h.
     seqc (hwrite (h_last h) (\<lambda>x. x\<lparr>h_next := Some header\<rparr>))
    (hwrite header_last (\<lambda>_. zero_header))))))"

definition merge_last_and_this_to_next :: "nat \<Rightarrow> (unit, heap_state) cmd" where
  "merge_last_and_this_to_next header = seqc (merge_last_to_this header) (merge_this_to_next header)"

definition split_segment :: "nat \<Rightarrow> nat \<Rightarrow> (nat option, heap_state) cmd" where
  "split_segment segment sz =
     bindc (hread (Some segment)) (\<lambda>h.
     if seg_length h > u64_add sz HDR then
       (let new_segment = u64_sub (u64_add segment (seg_length h)) sz in
        seqc (hwrite (Some new_segment) (\<lambda>_. zero_header\<lparr>is_free := True, signature := 0xff,
                seg_length := sz, h_next := Some segment, h_last := h_last h\<rparr>))
       (seqc (whenc (h_next h = None) (modc (\<lambda>s. s\<lparr>last_segment := Some segment\<rparr>)))
       (seqc (whenc (h_last h \<noteq> None) (hwrite (h_last h) (\<lambda>l. l\<lparr>h_next := Some new_segment\<rparr>)))
       (seqc (hwrite (Some segment) (\<lambda>g. g\<lparr>h_last := Some new_segment,
                seg_length := u64_sub (seg_length g) (u64_add sz HDR)\<rparr>))
       (ret (Some new_segment))))))
     else ret None)"

subsection \<open>Growing\<close>

definition heap_map :: "nat \<Rightarrow> nat \<Rightarrow> (unit, heap_state) cmd" where
  "heap_map address len =
     bindc (getc (\<lambda>s. kernel_space (hvmm s))) (\<lambda>k.
     bindc (zoomc hvmm (\<lambda>v s. s\<lparr>hvmm := v\<rparr>)
              (vmm_map_allocate k \<lparr>range_address = address, range_size = len\<rparr>
                 (MEMORY_FLAG_READABLE OR MEMORY_FLAG_WRITABLE))) (\<lambda>_. ret ()))"

text \<open>The segment of the new memory: it takes the place of a free last segment, or follows the last one.\<close>

definition expand_link :: "nat \<Rightarrow> nat \<Rightarrow> (unit, heap_state) cmd" where
  "expand_link new_segment len =
     bindc (getc last_segment) (\<lambda>last.
     bindc (case last of None \<Rightarrow> ret False
            | Some _ \<Rightarrow> bindc (hread last) (\<lambda>l. ret (is_free l \<and> h_last l \<noteq> None))) (\<lambda>merge.
     if merge then
       bindc (hread last) (\<lambda>l.
       let sz = u64_add (seg_length l) len in
       seqc (hwrite (Some new_segment) (\<lambda>n. n\<lparr>signature := 0xff,
               seg_length := u64_sub sz HDR, is_free := True, h_last := h_last l\<rparr>))
      (seqc (hwrite (h_last l) (\<lambda>x. x\<lparr>h_next := Some new_segment\<rparr>))
      (seqc (hwrite (Some new_segment) (\<lambda>n. n\<lparr>h_next := None\<rparr>))
      (modc (\<lambda>s. s\<lparr>last_segment := Some new_segment\<rparr>)))))
     else
       seqc (hwrite (Some new_segment) (\<lambda>n. n\<lparr>signature := 0xff,
               seg_length := u64_sub len HDR, is_free := True, h_last := last, h_next := None\<rparr>))
      (seqc (whenc (last \<noteq> None) (hwrite last (\<lambda>l. l\<lparr>h_next := Some new_segment\<rparr>)))
      (modc (\<lambda>s. s\<lparr>last_segment := Some new_segment\<rparr>)))))"

definition expand_heap :: "nat \<Rightarrow> (unit, heap_state) cmd" where
  "expand_heap len =
     (let len = round_up PAGE_SIZE (u64_add len HDR) in
      seqc (modc (\<lambda>s. s\<lparr>heap_end := u64_sub (heap_end s) len\<rparr>))
     (bindc (getc heap_end) (\<lambda>new_segment.
      seqc (heap_map new_segment len)
     (seqc (expand_link new_segment len)
     (modc (\<lambda>s. s\<lparr>total_size := u64_add (total_size s) (u64_add len HDR),
                  free_size := u64_add (free_size s) (u64_add len HDR)\<rparr>))))))"

definition heap_init :: "nat \<Rightarrow> nat \<Rightarrow> (unit, heap_state) cmd" where
  "heap_init heap_address_high heap_address_low =
     seqc (modc (\<lambda>s. s\<lparr>heap_end := heap_address_high, heap_low := heap_address_low\<rparr>))
    (bindc (zoomc hvmm (\<lambda>v s. s\<lparr>hvmm := v\<rparr>) vmm_allocate_page) (\<lambda>new_physical_address.
     seqc (modc (\<lambda>s. s\<lparr>heap_end := u64_sub (heap_end s) PAGE_SIZE\<rparr>))
    (bindc (getc (\<lambda>s. (heap_end s, kernel_space (hvmm s)))) (\<lambda>(hend, k).
     bindc (zoomc hvmm (\<lambda>v s. s\<lparr>hvmm := v\<rparr>)
              (vmm_map k \<lparr>range_address = hend, range_size = PAGE_SIZE\<rparr>
                 \<lparr>range_address = new_physical_address, range_size = PAGE_SIZE\<rparr>
                 (MEMORY_FLAG_READABLE OR MEMORY_FLAG_WRITABLE))) (\<lambda>_.
     let main = u64_add hend (u64_sub PAGE_SIZE HDR);
         nxt = u64_add (u64_sub main PAGE_SIZE) HDR in
     seqc (modc (\<lambda>s. s\<lparr>main_segment := Some main\<rparr>))
    (seqc (hwrite (Some main) (\<lambda>m. m\<lparr>signature := 0xff, seg_length := 0, is_free := False,
             h_last := None, h_next := Some nxt\<rparr>))
    (seqc (hwrite (Some nxt) (\<lambda>n. n\<lparr>is_free := True, seg_length := u64_sub (u64_sub PAGE_SIZE HDR) HDR,
             signature := 0xff, h_last := Some main, h_next := None\<rparr>))
    (modc (\<lambda>s. s\<lparr>last_segment := Some nxt, total_size := u64_add (total_size s) PAGE_SIZE,
                 free_size := u64_add (free_size s) PAGE_SIZE\<rparr>)))))))))"

subsection \<open>Allocation and release\<close>

definition take_segment :: "nat \<Rightarrow> (nat, heap_state) cmd" where
  "take_segment seg =
     seqc (hwrite (Some seg) (\<lambda>h. h\<lparr>is_free := False\<rparr>))
    (bindc (hread (Some seg)) (\<lambda>h.
     seqc (modc (\<lambda>s. s\<lparr>used_size := u64_add (used_size s) (u64_add (seg_length h) HDR),
                       free_size := u64_sub (free_size s) (u64_add (seg_length h) HDR)\<rparr>))
    (seqc (lock_release heap_lock_update)
    (ret (u64_add seg HDR)))))"

fun malloc_walk :: "nat \<Rightarrow> nat option \<Rightarrow> nat \<Rightarrow> (nat option, heap_state) cmd" where
  "malloc_walk 0 current_seg sz = stop NoReturn"
| "malloc_walk (Suc fuel) None sz = ret None"
| "malloc_walk (Suc fuel) (Some current_seg) sz =
     bindc (hread (Some current_seg)) (\<lambda>h.
     if is_free h \<and> seg_length h > u64_add sz HDR then
       bindc (split_segment current_seg sz) (\<lambda>new.
       case new of None \<Rightarrow> stop NullDeref
       | Some new_segment \<Rightarrow> bindc (take_segment new_segment) (\<lambda>a. ret (Some a)))
     else if is_free h \<and> seg_length h = sz then
       bindc (take_segment current_seg) (\<lambda>a. ret (Some a))
     else malloc_walk fuel (h_next h) sz)"

fun malloc :: "nat \<Rightarrow> nat \<Rightarrow> nat \<Rightarrow> (nat option, heap_state) cmd" where
  "malloc walk_fuel 0 sz = stop NoReturn"
| "malloc walk_fuel (Suc fuel) sz =
     (if sz = 0 then ret None
      else
        (let sz = round_up 0x10 sz in
         seqc (lock_acquire heap_lock heap_lock_update)
        (bindc (getc main_segment) (\<lambda>main.
         bindc (malloc_walk walk_fuel main sz) (\<lambda>found.
         case found of
           Some a \<Rightarrow> ret (Some a)
         | None \<Rightarrow>
             seqc (expand_heap sz)
            (seqc (lock_release heap_lock_update)
            (malloc walk_fuel fuel sz)))))))"

definition free :: "nat option \<Rightarrow> (unit, heap_state) cmd" where
  "free address =
     (case address of
        None \<Rightarrow> ret ()
      | Some address \<Rightarrow>
          seqc (lock_acquire heap_lock heap_lock_update)
         (let header = u64_sub address HDR in
          seqc (hwrite (Some header) (\<lambda>h. h\<lparr>is_free := True\<rparr>))
         (bindc (hread (Some header)) (\<lambda>h.
          seqc (modc (\<lambda>s. s\<lparr>free_size := u64_add (free_size s) (u64_add (seg_length h) HDR),
                            used_size := u64_sub (used_size s) (u64_add (seg_length h) HDR)\<rparr>))
         (bindc (if h_next h \<noteq> None then bindc (hread (h_next h)) (\<lambda>n. ret (is_free n)) else ret False) (\<lambda>next_free.
          bindc (if h_last h \<noteq> None then bindc (hread (h_last h)) (\<lambda>l. ret (is_free l)) else ret False) (\<lambda>last_free.
          seqc (if next_free \<and> last_free then merge_last_and_this_to_next header
                else if last_free then merge_last_to_this header
                else if next_free then merge_this_to_next header
                else ret ())
         (lock_release heap_lock_update))))))))"

definition memset_data :: "nat \<Rightarrow> 8 word \<Rightarrow> nat \<Rightarrow> heap_state \<Rightarrow> heap_state" where
  "memset_data a c n s = s\<lparr>hdata := (\<lambda>b. if a \<le> b \<and> b < a + n then c else hdata s b)\<rparr>"

definition memcpy_data :: "nat \<Rightarrow> nat \<Rightarrow> nat \<Rightarrow> heap_state \<Rightarrow> heap_state" where
  "memcpy_data dst src n s =
     s\<lparr>hdata := (\<lambda>b. if dst \<le> b \<and> b < dst + n then hdata s (src + (b - dst)) else hdata s b)\<rparr>"

definition calloc :: "nat \<Rightarrow> nat \<Rightarrow> nat \<Rightarrow> nat \<Rightarrow> (nat option, heap_state) cmd" where
  "calloc walk_fuel fuel number sz =
     bindc (malloc walk_fuel fuel (u64_mul number sz)) (\<lambda>address.
     case address of
       None \<Rightarrow> if u64_mul number sz = 0 then ret None else stop NullDeref
     | Some a \<Rightarrow> seqc (modc (memset_data a 0 (u64_mul number sz))) (ret (Some a)))"

definition realloc :: "nat \<Rightarrow> nat \<Rightarrow> nat option \<Rightarrow> nat \<Rightarrow> (nat option, heap_state) cmd" where
  "realloc walk_fuel fuel buffer sz =
     bindc (malloc walk_fuel fuel sz) (\<lambda>new_buffer.
     case new_buffer of
       None \<Rightarrow> ret None
     | Some new \<Rightarrow>
         (case buffer of
            None \<Rightarrow> ret (Some new)
          | Some old \<Rightarrow>
              bindc (hread (Some (get_heap_segment_header old))) (\<lambda>h.
              let old_size = (if sz < seg_length h then sz else seg_length h) in
              seqc (modc (memcpy_data new old old_size))
             (seqc (free (Some old))
             (ret (Some new))))))"

end
