(* ===== verification/Heap_Correct.thy ===== *)
theory Heap_Correct
  imports Heap
begin

section \<open>Correctness of the kernel heap\<close>

text \<open>
  The abstract view of the heap is the list of its segments, by falling addresses, and the
  set of the blocks in use. \<open>seg\<close> relates the links in the store to this list; \<open>heap_inv\<close> adds
  that segments do not overlap, that two neighbours are never both free and that sizes and
  addresses are multiples of 16. Merging, splitting and growing are edits of the list, and
  \<^verbatim>\<open>malloc\<close> and \<^verbatim>\<open>free\<close> insert a block into and delete it from the set of blocks in use.
\<close>

subsection \<open>Access to headers\<close>

lemma wp_hread [wp_simps]:
  "wp (hread (Some a)) Q s = (heap_end s \<le> a \<and> Q (hmem s a) s)"
  by (simp add: wp_def hread_def)

lemma wp_hwrite [wp_simps]:
  "wp (hwrite (Some a) f) Q s = (heap_end s \<le> a \<and> Q () (s\<lparr>hmem := (hmem s)(a := f (hmem s a))\<rparr>))"
  by (simp add: wp_def hwrite_def)

subsection \<open>Linked segments\<close>

fun seg :: "(nat \<Rightarrow> heap_segment_header) \<Rightarrow> nat option \<Rightarrow> nat option \<Rightarrow> nat list \<Rightarrow> nat option \<Rightarrow> bool" where
  "seg m l p [] q = (p = q)"
| "seg m l p (a # as) q = (p = Some a \<and> h_last (m a) = l \<and> seg m (Some a) (h_next (m a)) as q)"

definition lst :: "nat option \<Rightarrow> nat list \<Rightarrow> nat option" where
  "lst l as = (if as = [] then l else Some (last as))"

lemma lst_simps [simp]: "lst l [] = l" "lst l (a # as) = lst (Some a) as" "lst l (as @ [a]) = Some a"
  by (simp_all add: lst_def)

lemma seg_append: "seg m l p (us @ vs) q \<longleftrightarrow> (\<exists>r. seg m l p us r \<and> seg m (lst l us) r vs q)"
  by (induction us arbitrary: l p) auto

lemma seg_cong:
  assumes "\<And>a. a \<in> set as \<Longrightarrow> h_next (m' a) = h_next (m a) \<and> h_last (m' a) = h_last (m a)"
  shows "seg m' l p as q = seg m l p as q"
  using assms by (induction as arbitrary: l p) auto

lemma seg_head: "seg m l p (a # as) q \<Longrightarrow> p = Some a"
  by simp

text \<open>Cutting a list before an element: the links of the front do not depend on the rest.\<close>

lemma seg_snoc:
  "seg m l p (us @ [x]) q \<longleftrightarrow> seg m l p us (Some x) \<and> h_last (m x) = lst l us \<and> h_next (m x) = q"
  by (auto simp: seg_append)

lemma seg_mid:
  "seg m l p (us @ x # vs) q \<longleftrightarrow> seg m l p us (Some x) \<and> h_last (m x) = lst l us \<and>
     seg m (Some x) (h_next (m x)) vs q"
  by (auto simp: seg_append)

definition seg_end :: "(nat \<Rightarrow> heap_segment_header) \<Rightarrow> nat \<Rightarrow> nat" where
  "seg_end m a = a + 48 + seg_length (m a)"

abbreviation below :: "(nat \<Rightarrow> heap_segment_header) \<Rightarrow> nat \<Rightarrow> nat \<Rightarrow> bool" where
  "below m a b \<equiv> seg_end m b \<le> a"

definition no_free_pair :: "(nat \<Rightarrow> heap_segment_header) \<Rightarrow> nat \<Rightarrow> nat \<Rightarrow> bool" where
  "no_free_pair m a b \<longleftrightarrow> \<not> (is_free (m a) \<and> is_free (m b))"

definition segs_inv :: "(nat \<Rightarrow> heap_segment_header) \<Rightarrow> nat list \<Rightarrow> bool" where
  "segs_inv m xs \<longleftrightarrow> sorted_wrt (below m) xs \<and> (\<forall>a \<in> set xs. a mod 16 = 0 \<and> seg_length (m a) mod 16 = 0)"

text \<open>\<open>heap_core\<close> is what holds inside \<^verbatim>\<open>malloc\<close> and \<^verbatim>\<open>free\<close>, with the lock held and before merging.\<close>

definition heap_core :: "heap_state \<Rightarrow> nat list \<Rightarrow> bool" where
  "heap_core s xs \<longleftrightarrow> xs \<noteq> [] \<and> main_segment s = Some (hd xs) \<and> last_segment s = Some (last xs) \<and>
     seg (hmem s) None (Some (hd xs)) xs None \<and> segs_inv (hmem s) xs \<and> \<not> is_free (hmem s (hd xs)) \<and>
     seg_end (hmem s) (hd xs) < 2 ^ 64 \<and> heap_end s \<le> last xs \<and> heap_end s mod 4096 = 0"

definition heap_inv :: "heap_state \<Rightarrow> nat list \<Rightarrow> bool" where
  "heap_inv s xs \<longleftrightarrow> heap_core s xs \<and> \<not> heap_lock s \<and> successively (no_free_pair (hmem s)) xs"

definition used_blocks :: "heap_state \<Rightarrow> nat list \<Rightarrow> (nat \<times> nat) set" where
  "used_blocks s xs = {(a, seg_length (hmem s a)) | a. a \<in> set (tl xs) \<and> \<not> is_free (hmem s a)}"

lemma below_less: "below m a b \<Longrightarrow> b < a"
  by (simp add: seg_end_def)

lemma sorted_below_distinct: "sorted_wrt (below m) xs \<Longrightarrow> distinct xs"
  by (induction xs) (auto dest: below_less)

text \<open>
  \<open>absorb m x y a\<close>: the store after the segment \<open>y\<close> is merged into its lower neighbour \<open>a\<close>,
  where \<open>x\<close> is the upper neighbour of \<open>y\<close>.
\<close>

definition absorb :: "(nat \<Rightarrow> heap_segment_header) \<Rightarrow> nat \<Rightarrow> nat \<Rightarrow> nat \<Rightarrow> nat \<Rightarrow> heap_segment_header" where
  "absorb m x y a = m(a := (m a)\<lparr>seg_length := seg_length (m a) + (seg_length (m y) + 48), h_last := Some x\<rparr>,
     x := (m x)\<lparr>h_next := Some a\<rparr>, y := zero_header)"

lemma absorb_seg:
  assumes "seg m None p (us @ x # y # a # vs) None" "distinct (us @ x # y # a # vs)"
  shows "seg (absorb m x y a) None p (us @ x # a # vs) None"
proof -
  have 1: "seg (absorb m x y a) None p us (Some x) = seg m None p us (Some x)"
    by (rule seg_cong) (use assms(2) in \<open>auto simp: absorb_def\<close>)
  have 2: "seg (absorb m x y a) (Some a) q vs None = seg m (Some a) q vs None" for q
    by (rule seg_cong) (use assms(2) in \<open>auto simp: absorb_def\<close>)
  show ?thesis using assms by (auto simp: seg_mid 1 2) (auto simp: absorb_def)
qed

lemma sorted_below_cong:
  "(\<And>b. b \<in> set xs \<Longrightarrow> seg_end m' b = seg_end m b) \<Longrightarrow>
   sorted_wrt (below m') xs = sorted_wrt (below m) xs"
  by (induction xs) auto

lemma no_free_pair_cong:
  assumes "\<And>b. b \<in> set xs \<Longrightarrow> is_free (m' b) = is_free (m b)"
  shows "successively (no_free_pair m') xs = successively (no_free_pair m) xs"
  by (rule successively_cong) (use assms in \<open>auto simp: no_free_pair_def\<close>)

lemma absorb_segs_inv:
  assumes inv: "segs_inv m (us @ x # y # a # vs)"
  shows "segs_inv (absorb m x y a) (us @ x # a # vs)"
proof -
  let ?m = "absorb m x y a"
  have so: "sorted_wrt (below m) (us @ x # y # a # vs)" using inv by (simp add: segs_inv_def)
  have d: "distinct (us @ x # y # a # vs)" by (rule sorted_below_distinct [OF so])
  have e: "\<And>b. b \<in> set us \<Longrightarrow> seg_end ?m b = seg_end m b" "\<And>b. b \<in> set vs \<Longrightarrow> seg_end ?m b = seg_end m b"
    "seg_end ?m x = seg_end m x" "seg_end ?m a = seg_end m a + 48 + seg_length (m y)"
    using d by (auto simp: absorb_def seg_end_def)
  have le: "seg_end m a + 48 + seg_length (m y) \<le> seg_end m y"
    using so by (auto simp: sorted_wrt_append seg_end_def)
  have "sorted_wrt (below ?m) (us @ x # a # vs)"
    using so le sorted_below_cong [of us ?m m, OF e(1)] sorted_below_cong [of vs ?m m, OF e(2)]
    by (fastforce simp: sorted_wrt_append e)
  moreover have "\<forall>b \<in> set (us @ x # a # vs). b mod 16 = 0 \<and> seg_length (?m b) mod 16 = 0"
  proof -
    have "(seg_length (m a) + (seg_length (m y) + 48)) mod 16 = 0"
      using inv by (auto simp: segs_inv_def mod_add_eq [symmetric])
    then show ?thesis using inv d by (auto simp: segs_inv_def absorb_def)
  qed
  ultimately show ?thesis by (simp add: segs_inv_def)
qed

lemma merge_this_to_next_wp:
  assumes "h_next (hmem s y) = Some a" "h_last (hmem s y) = Some x"
    and "x \<noteq> y" "x \<noteq> a" "y \<noteq> a" "heap_end s \<le> a" "heap_end s \<le> x" "heap_end s \<le> y"
    and "seg_length (hmem s a) + (seg_length (hmem s y) + 48) < 18446744073709551616"
  shows "wp (merge_this_to_next y) Q s = Q () (s\<lparr>hmem := absorb (hmem s) x y a\<rparr>)"
  using assms by (simp add: merge_this_to_next_def wp_simps Let_def HDR_def u64_add_small absorb_def)

lemma merge_last_to_this_wp:
  assumes "h_last (hmem s a) = Some y" "h_last (hmem s y) = Some x"
    and "x \<noteq> y" "x \<noteq> a" "y \<noteq> a" "heap_end s \<le> a" "heap_end s \<le> x" "heap_end s \<le> y"
    and "seg_length (hmem s a) + (seg_length (hmem s y) + 48) < 18446744073709551616"
  shows "wp (merge_last_to_this a) Q s = Q () (s\<lparr>hmem := absorb (hmem s) x y a\<rparr>)"
  using assms by (simp add: merge_last_to_this_def wp_simps Let_def HDR_def u64_add_small absorb_def)

subsection \<open>The invariant across the list\<close>

lemma last_below:
  assumes "sorted_wrt (below m) xs" "b \<in> set xs"
  shows "last xs \<le> b"
proof -
  obtain us vs where xs: "xs = us @ b # vs" using assms(2) by (metis split_list)
  have "last xs = b \<or> last xs \<in> set vs" by (cases vs rule: rev_cases) (auto simp: xs)
  then show ?thesis using assms(1) below_less by (fastforce simp: xs sorted_wrt_append)
qed

lemma heap_coreD:
  assumes "heap_core s xs"
  shows "sorted_wrt (below (hmem s)) xs" "distinct xs" "b \<in> set xs \<Longrightarrow> heap_end s \<le> b"
    "b \<in> set xs \<Longrightarrow> seg_end (hmem s) b < 18446744073709551616"
    "b \<in> set xs \<Longrightarrow> b mod 16 = 0 \<and> seg_length (hmem s b) mod 16 = 0"
    "seg (hmem s) None (Some (hd xs)) xs None" "segs_inv (hmem s) xs" "\<not> is_free (hmem s (hd xs))" "xs \<noteq> []"
    "main_segment s = Some (hd xs)" "last_segment s = Some (last xs)"
proof -
  show "seg (hmem s) None (Some (hd xs)) xs None" "segs_inv (hmem s) xs" "\<not> is_free (hmem s (hd xs))" "xs \<noteq> []"
    "main_segment s = Some (hd xs)" "last_segment s = Some (last xs)"
    using assms by (simp_all add: heap_core_def)
  show so: "sorted_wrt (below (hmem s)) xs" using assms by (simp add: heap_core_def segs_inv_def)
  then show "distinct xs" by (rule sorted_below_distinct)
  have ne: "xs \<noteq> []" and he: "heap_end s \<le> last xs" "seg_end (hmem s) (hd xs) < 2 ^ 64"
    using assms by (auto simp: heap_core_def)
  have "last xs \<le> b" if "b \<in> set xs" for b
    using so that by (rule last_below)
  then show "b \<in> set xs \<Longrightarrow> heap_end s \<le> b" using he by fastforce
  have "seg_end (hmem s) b \<le> seg_end (hmem s) (hd xs)" if "b \<in> set xs" for b
  proof (cases "b = hd xs")
    case False
    then have "seg_end (hmem s) b \<le> hd xs" using so that by (cases xs) auto
    then show ?thesis by (simp add: seg_end_def)
  qed simp
  then show "b \<in> set xs \<Longrightarrow> seg_end (hmem s) b < 18446744073709551616" using he by fastforce
  show "b \<in> set xs \<Longrightarrow> b mod 16 = 0 \<and> seg_length (hmem s b) mod 16 = 0"
    using assms by (simp add: heap_core_def segs_inv_def)
qed

lemma heap_core_lock [simp]: "heap_core (s\<lparr>heap_lock := l\<rparr>) xs = heap_core s xs"
  by (simp add: heap_core_def)

lemma heap_core_sizes [simp]:
  "heap_core (s\<lparr>free_size := n\<rparr>) xs = heap_core s xs" "heap_core (s\<lparr>used_size := n\<rparr>) xs = heap_core s xs"
  "heap_core (s\<lparr>total_size := n\<rparr>) xs = heap_core s xs"
  by (simp_all add: heap_core_def)

lemma used_blocks_simps [simp]:
  "used_blocks (s\<lparr>heap_lock := l\<rparr>) xs = used_blocks s xs"
  "used_blocks (s\<lparr>free_size := n\<rparr>) xs = used_blocks s xs" "used_blocks (s\<lparr>used_size := n\<rparr>) xs = used_blocks s xs"
  "used_blocks (s\<lparr>total_size := n\<rparr>) xs = used_blocks s xs"
  by (simp_all add: used_blocks_def)

lemma merge_core:
  assumes core: "heap_core s (us @ x # y # a # vs)" and y: "is_free (hmem s y)" and a: "is_free (hmem s a)"
  shows "heap_core (s\<lparr>hmem := absorb (hmem s) x y a\<rparr>) (us @ x # a # vs) \<and>
    used_blocks (s\<lparr>hmem := absorb (hmem s) x y a\<rparr>) (us @ x # a # vs) = used_blocks s (us @ x # y # a # vs)"
proof -
  note D = heap_coreD [OF core]
  have d: "distinct (us @ x # y # a # vs)" by (rule D(2))
  have hd: "hd (us @ x # a # vs) = hd (us @ x # y # a # vs)" by (cases us) auto
  have last: "last (us @ x # a # vs) = last (us @ x # y # a # vs)" by simp
  have hm: "hd (us @ x # y # a # vs) \<in> set (us @ [x])" by (cases us) auto
  then have same: "seg_end (absorb (hmem s) x y a) (hd (us @ x # y # a # vs)) = seg_end (hmem s) (hd (us @ x # y # a # vs))"
    "is_free (absorb (hmem s) x y a (hd (us @ x # y # a # vs))) = is_free (hmem s (hd (us @ x # y # a # vs)))"
    using d by (auto simp: absorb_def seg_end_def)
  have "heap_core (s\<lparr>hmem := absorb (hmem s) x y a\<rparr>) (us @ x # a # vs)"
    using core absorb_seg [OF D(6) d] absorb_segs_inv [OF D(7)] same
    unfolding heap_core_def hd last by simp
  moreover have "used_blocks (s\<lparr>hmem := absorb (hmem s) x y a\<rparr>) (us @ x # a # vs) = used_blocks s (us @ x # y # a # vs)"
  proof -
    have "b \<in> set (tl (us @ x # a # vs)) \<and> \<not> is_free (absorb (hmem s) x y a b) \<longleftrightarrow>
          b \<in> set (tl (us @ x # y # a # vs)) \<and> \<not> is_free (hmem s b)" for b
      using d y by (cases us) (auto simp: absorb_def)
    moreover have "seg_length (absorb (hmem s) x y a b) = seg_length (hmem s b)"
      if "b \<in> set (tl (us @ x # y # a # vs))" "\<not> is_free (hmem s b)" for b
      using that d y a by (cases us) (auto simp: absorb_def)
    ultimately show ?thesis unfolding used_blocks_def by auto
  qed
  ultimately show ?thesis ..
qed

lemma merge_steps:
  assumes core: "heap_core s (us @ x # y # a # vs)"
  shows "wp (merge_last_to_this a) Q s = Q () (s\<lparr>hmem := absorb (hmem s) x y a\<rparr>)"
    "wp (merge_this_to_next y) Q s = Q () (s\<lparr>hmem := absorb (hmem s) x y a\<rparr>)"
proof -
  note D = heap_coreD [OF core]
  have l: "h_next (hmem s y) = Some a" "h_last (hmem s y) = Some x" "h_last (hmem s a) = Some y"
    using D(6) by (auto simp: seg_mid)
  have "seg_end (hmem s) a \<le> y" "seg_end (hmem s) y < 18446744073709551616"
    using D(1) D(4) [of y] by (auto simp: sorted_wrt_append)
  then have n: "seg_length (hmem s a) + (seg_length (hmem s y) + 48) < 18446744073709551616"
    by (simp add: seg_end_def)
  have e: "heap_end s \<le> a" "heap_end s \<le> x" "heap_end s \<le> y" using D(3) by auto
  have d: "x \<noteq> y" "x \<noteq> a" "y \<noteq> a" using D(2) by auto
  show "wp (merge_last_to_this a) Q s = Q () (s\<lparr>hmem := absorb (hmem s) x y a\<rparr>)"
    by (rule merge_last_to_this_wp [OF l(3,2) d e n])
  show "wp (merge_this_to_next y) Q s = Q () (s\<lparr>hmem := absorb (hmem s) x y a\<rparr>)"
    by (rule merge_this_to_next_wp [OF l(1,2) d e n])
qed

text \<open>Marking the segment \<open>a\<close> free or used.\<close>

definition mark :: "bool \<Rightarrow> nat \<Rightarrow> (nat \<Rightarrow> heap_segment_header) \<Rightarrow> nat \<Rightarrow> heap_segment_header" where
  "mark b a m = m(a := (m a)\<lparr>is_free := b\<rparr>)"

lemma mark_simps [simp]:
  "seg_length (mark b a m c) = seg_length (m c)" "h_next (mark b a m c) = h_next (m c)"
  "h_last (mark b a m c) = h_last (m c)" "is_free (mark b a m c) = (if c = a then b else is_free (m c))"
  "seg_end (mark b a m) c = seg_end m c"
  by (simp_all add: mark_def seg_end_def)

lemma mark_core:
  assumes "heap_core s (us @ x # a # vs)"
  shows "heap_core (s\<lparr>hmem := mark b a (hmem s)\<rparr>) (us @ x # a # vs)"
proof -
  have "hd (us @ x # a # vs) \<noteq> a" using heap_coreD(2) [OF assms] by (cases us) auto
  moreover have "seg (mark b a (hmem s)) l p ys q = seg (hmem s) l p ys q" for l p ys q
    by (rule seg_cong) simp
  moreover have "sorted_wrt (below (mark b a (hmem s))) ys = sorted_wrt (below (hmem s)) ys" for ys
    by (rule sorted_below_cong) simp
  ultimately show ?thesis using assms by (simp add: heap_core_def segs_inv_def)
qed

lemma mark_free_used:
  assumes "heap_core s (us @ x # a # vs)"
  shows "used_blocks (s\<lparr>hmem := mark True a (hmem s)\<rparr>) (us @ x # a # vs) =
    used_blocks s (us @ x # a # vs) - {(a, seg_length (hmem s a))}"
  by (auto simp: used_blocks_def)

lemma mark_used_used:
  assumes "heap_core s (us @ x # a # vs)"
  shows "used_blocks (s\<lparr>hmem := mark False a (hmem s)\<rparr>) (us @ x # a # vs) =
    insert (a, seg_length (hmem s a)) (used_blocks s (us @ x # a # vs))"
proof -
  have "a \<in> set (tl (us @ x # a # vs))" by (cases us) auto
  then show ?thesis by (auto simp: used_blocks_def)
qed

lemma pairs_mid:
  "successively P (us @ x # c # vs) \<longleftrightarrow>
     successively P (us @ [x]) \<and> P x c \<and> successively P vs \<and> (vs = [] \<or> P c (hd vs))"
  by (auto simp: successively_append_iff successively_Cons)

lemma heap_inv_pairs:
  assumes "heap_core s (us @ x # c # vs)" "\<not> heap_lock s"
    and "\<And>b. b \<in> set (us @ x # vs) \<Longrightarrow> is_free (hmem s b) = is_free (m b)"
    and "successively (no_free_pair m) (us @ [x])" "successively (no_free_pair m) vs" "\<not> is_free (m x)"
    and "vs \<noteq> [] \<Longrightarrow> \<not> is_free (m (hd vs))"
  shows "heap_inv s (us @ x # c # vs)"
proof -
  have "successively (no_free_pair (hmem s)) (us @ [x])" "successively (no_free_pair (hmem s)) vs"
    using assms(3-5) no_free_pair_cong [of "us @ [x]" "hmem s" m] no_free_pair_cong [of vs "hmem s" m] by auto
  moreover have "\<not> is_free (hmem s x)" "vs \<noteq> [] \<Longrightarrow> \<not> is_free (hmem s (hd vs))"
    using assms(3,6,7) by auto
  ultimately show ?thesis using assms(1,2)
    by (auto simp: heap_inv_def pairs_mid no_free_pair_def)
qed

subsection \<open>Release\<close>

definition only_hmem :: "heap_state \<Rightarrow> heap_state \<Rightarrow> bool" where
  "only_hmem s t \<longleftrightarrow> t = s\<lparr>hmem := hmem t\<rparr>"

lemma only_hmem_upd [simp]: "only_hmem s (s\<lparr>hmem := m\<rparr>)"
  by (simp add: only_hmem_def)

lemma only_hmemD:
  assumes "only_hmem s t"
  shows "hvmm t = hvmm s" "heap_end t = heap_end s"
  using arg_cong [OF assms [unfolded only_hmem_def], of hvmm]
    arg_cong [OF assms [unfolded only_hmem_def], of heap_end] by simp_all

abbreviation free_spec :: "heap_state \<Rightarrow> nat list \<Rightarrow> heap_state \<Rightarrow> bool" where
  "free_spec s xs t \<equiv> \<exists>ys. heap_inv (t\<lparr>heap_lock := False\<rparr>) ys \<and> used_blocks t ys = used_blocks s xs \<and> only_hmem s t"

lemma free_merge_next:
  assumes core: "heap_core s (us @ x # a # b # vs)" and m: "hmem s = mark True a m"
    and p: "successively (no_free_pair m) (us @ x # a # b # vs)"
    and f: "is_free (hmem s b)" "\<not> is_free (hmem s x)"
  shows "wp (merge_this_to_next a) (\<lambda>_. free_spec s (us @ x # a # b # vs)) s"
proof -
  note D = heap_coreD [OF core]
  let ?t = "s\<lparr>hmem := absorb (hmem s) x a b\<rparr>"
  have af: "is_free (hmem s a)" using m by simp
  note mc = merge_core [OF core af f(1)]
  have "heap_inv (?t\<lparr>heap_lock := False\<rparr>) (us @ x # b # vs)"
  proof (rule heap_inv_pairs [where m = m])
    show "is_free (hmem (?t\<lparr>heap_lock := False\<rparr>) c) = is_free (m c)" if "c \<in> set (us @ x # vs)" for c
      using that D(2) m by (auto simp: absorb_def)
    show "successively (no_free_pair m) (us @ [x])" "successively (no_free_pair m) vs"
      "vs \<noteq> [] \<Longrightarrow> \<not> is_free (m (hd vs))" "\<not> is_free (m x)"
      using p f D(2) m by (auto simp: pairs_mid successively_Cons no_free_pair_def)
  qed (use mc in simp_all)
  then show ?thesis using mc unfolding merge_steps(2) [OF core] by auto
qed

lemma free_merge_last:
  assumes core: "heap_core s (us @ w # x # a # vs)" and m: "hmem s = mark True a m"
    and p: "successively (no_free_pair m) (us @ w # x # a # vs)"
    and f: "vs \<noteq> [] \<Longrightarrow> \<not> is_free (hmem s (hd vs))" "is_free (hmem s x)"
  shows "wp (merge_last_to_this a) (\<lambda>_. free_spec s (us @ w # x # a # vs)) s"
proof -
  note D = heap_coreD [OF core]
  let ?t = "s\<lparr>hmem := absorb (hmem s) w x a\<rparr>"
  have af: "is_free (hmem s a)" using m by simp
  note mc = merge_core [OF core f(2) af]
  have "heap_inv (?t\<lparr>heap_lock := False\<rparr>) (us @ w # a # vs)"
  proof (rule heap_inv_pairs [where m = m])
    show "is_free (hmem (?t\<lparr>heap_lock := False\<rparr>) c) = is_free (m c)" if "c \<in> set (us @ w # vs)" for c
      using that D(2) m by (auto simp: absorb_def)
    show "successively (no_free_pair m) (us @ [w])" "successively (no_free_pair m) vs"
      "vs \<noteq> [] \<Longrightarrow> \<not> is_free (m (hd vs))" "\<not> is_free (m w)"
      using p f D(2) m by (auto simp: pairs_mid successively_Cons no_free_pair_def split: if_splits)
  qed (use mc in simp_all)
  then show ?thesis using mc unfolding merge_steps(1) [OF core] by auto
qed

lemma free_merge_both:
  assumes core: "heap_core s (us @ w # x # a # b # vs)" and m: "hmem s = mark True a m"
    and p: "successively (no_free_pair m) (us @ w # x # a # b # vs)"
    and f: "is_free (hmem s b)" "is_free (hmem s x)"
  shows "wp (merge_last_and_this_to_next a) (\<lambda>_. free_spec s (us @ w # x # a # b # vs)) s"
proof -
  note D = heap_coreD [OF core]
  let ?t = "s\<lparr>hmem := absorb (hmem s) w x a\<rparr>" let ?u = "?t\<lparr>hmem := absorb (hmem ?t) w a b\<rparr>"
  have af: "is_free (hmem s a)" using m by simp
  note mc = merge_core [OF core f(2) af]
  have tf: "is_free (hmem ?t a)" "is_free (hmem ?t b)" using af f D(2) by (auto simp: absorb_def)
  have core_t: "heap_core ?t (us @ w # a # b # vs)" using mc by simp
  note mc2 = merge_core [OF core_t tf]
  have "heap_inv (?u\<lparr>heap_lock := False\<rparr>) (us @ w # b # vs)"
  proof (rule heap_inv_pairs [where m = m])
    show "is_free (hmem (?u\<lparr>heap_lock := False\<rparr>) c) = is_free (m c)" if "c \<in> set (us @ w # vs)" for c
      using that D(2) m by (auto simp: absorb_def)
    show "successively (no_free_pair m) (us @ [w])" "successively (no_free_pair m) vs"
      "vs \<noteq> [] \<Longrightarrow> \<not> is_free (m (hd vs))" "\<not> is_free (m w)"
      using p f D(2) m by (auto simp: pairs_mid successively_Cons no_free_pair_def)
  qed (use mc2 in simp_all)
  then show ?thesis
    using mc mc2 unfolding merge_last_and_this_to_next_def wp_seqc merge_steps(1) [OF core] merge_steps(2) [OF core_t]
    by (auto simp: only_hmem_def)
qed

lemma used_block_split:
  assumes "(a, n) \<in> used_blocks s xs"
  obtains us x vs where "xs = us @ x # a # vs" "n = seg_length (hmem s a)" "\<not> is_free (hmem s a)"
proof -
  have a: "a \<in> set (tl xs)" "n = seg_length (hmem s a)" "\<not> is_free (hmem s a)"
    using assms by (auto simp: used_blocks_def)
  then obtain ys vs where "tl xs = ys @ a # vs" by (meson split_list)
  then have "xs = hd xs # ys @ a # vs" by (cases xs) auto
  then have "xs = butlast (hd xs # ys) @ last (hd xs # ys) # a # vs"
    by (metis append.assoc append_Cons append_Nil append_butlast_last_id list.distinct(1))
  with a show thesis using that by blast
qed

lemma free_merge_wp:
  assumes core: "heap_core s (us @ x # a # vs)" and m: "hmem s = mark True a m"
    and p: "successively (no_free_pair m) (us @ x # a # vs)"
    and nf: "nf \<longleftrightarrow> vs \<noteq> [] \<and> is_free (hmem s (hd vs))" and lf: "lf \<longleftrightarrow> is_free (hmem s x)"
  shows "wp (if nf \<and> lf then merge_last_and_this_to_next a else if lf then merge_last_to_this a
             else if nf then merge_this_to_next a else ret ())
    (\<lambda>_. free_spec s (us @ x # a # vs)) s"
proof -
  note D = heap_coreD [OF core]
  have us: "us \<noteq> []" if lf using that lf D(8) by (cases us) auto
  have eq: "us' @ w # x # a # vs = us @ x # a # vs" if "us = us' @ [w]" for us' w using that by simp
  show ?thesis
  proof (cases lf)
    case True
    then obtain us' w where us': "us = us' @ [w]" using us by (metis append_butlast_last_id)
    note c = core [folded eq [OF us']] p [folded eq [OF us']]
    show ?thesis
    proof (cases nf)
      case nf': True
      then obtain b vs' where vs: "vs = b # vs'" using nf by (cases vs) auto
      have "is_free (hmem s b)" "is_free (hmem s x)" using nf nf' lf True vs by auto
      from free_merge_both [OF c(1) [unfolded vs] m c(2) [unfolded vs] this]
      show ?thesis using True nf' unfolding eq [OF us', unfolded vs] vs by (simp only: simp_thms if_True)
    next
      case False
      have "vs \<noteq> [] \<Longrightarrow> \<not> is_free (hmem s (hd vs))" "is_free (hmem s x)" using nf False lf True by blast+
      from free_merge_last [OF c(1) m c(2) this]
      show ?thesis using True False unfolding eq [OF us'] by (simp only: simp_thms if_True if_False)
    qed
  next
    case lf': False
    show ?thesis
    proof (cases nf)
      case True
      then obtain b vs' where vs: "vs = b # vs'" using nf by (cases vs) auto
      have "is_free (hmem s b)" "\<not> is_free (hmem s x)" using nf True lf lf' vs by auto
      from free_merge_next [OF core [unfolded vs] m p [unfolded vs] this]
      show ?thesis using True lf' unfolding vs by (simp only: simp_thms if_True if_False)
    next
      case False
      have "heap_inv (s\<lparr>heap_lock := False\<rparr>) (us @ x # a # vs)"
      proof (rule heap_inv_pairs [where m = m])
        show "is_free (hmem (s\<lparr>heap_lock := False\<rparr>) c) = is_free (m c)" if "c \<in> set (us @ x # vs)" for c
          using that D(2) m by auto
        show "successively (no_free_pair m) (us @ [x])" "successively (no_free_pair m) vs"
          "vs \<noteq> [] \<Longrightarrow> \<not> is_free (m (hd vs))" "\<not> is_free (m x)"
          using p nf lf False lf' D(2) m
          by (auto simp: pairs_mid successively_Cons no_free_pair_def split: if_splits)
      qed (use core in simp_all)
      then show ?thesis using lf' False by (auto simp: wp_simps only_hmem_def)
    qed
  qed
qed

lemma free_wp:
  assumes inv: "heap_inv s xs" and used: "(a, n) \<in> used_blocks s xs"
  shows "wp (free (Some (a + 48))) (\<lambda>_ t. \<exists>ys. heap_inv t ys \<and> used_blocks t ys = used_blocks s xs - {(a, n)} \<and>
    hvmm t = hvmm s \<and> heap_end t = heap_end s) s"
proof -
  obtain us x vs where xs: "xs = us @ x # a # vs" and n: "n = seg_length (hmem s a)" and uf: "\<not> is_free (hmem s a)"
    by (rule used_block_split [OF used])
  have core: "heap_core s (us @ x # a # vs)" and p: "successively (no_free_pair (hmem s)) (us @ x # a # vs)"
    using inv xs by (simp_all add: heap_inv_def)
  note D = heap_coreD [OF core]
  have sz: "u64_sub (a + 48) 48 = a" using D(4) [of a] by (subst u64_sub_small) (auto simp: seg_end_def)
  have lk: "h_last (hmem s a) = Some x" "h_next (hmem s a) = (case vs of [] \<Rightarrow> None | b # _ \<Rightarrow> Some b)"
    using D(6) by (auto simp: seg_mid split: list.split)
  have e: "heap_end s \<le> a" "heap_end s \<le> x" "vs \<noteq> [] \<Longrightarrow> heap_end s \<le> hd vs" using D(3) by auto
  define L where "L = u64_add (seg_length (hmem s a)) HDR"
  define s1 where "s1 = s\<lparr>heap_lock := True, hmem := mark True a (hmem s),
    free_size := u64_add (free_size s) L, used_size := u64_sub (used_size s) L\<rparr>"
  define nf where "nf \<longleftrightarrow> vs \<noteq> [] \<and> is_free (hmem s1 (hd vs))"
  define lf where "lf \<longleftrightarrow> is_free (hmem s1 x)"
  have core1: "heap_core s1 (us @ x # a # vs)"
    using mark_core [OF core, of True] by (simp add: s1_def heap_core_def)
  have used1: "used_blocks s1 (us @ x # a # vs) = used_blocks s xs - {(a, n)}"
    using mark_free_used [OF core] by (simp add: s1_def xs n used_blocks_def)
  have m1: "hmem s1 = mark True a (hmem s)" by (simp add: s1_def)
  have ok: "\<not> heap_lock s" using inv by (simp add: heap_inv_def)
  have "wp (if nf \<and> lf then merge_last_and_this_to_next a else if lf then merge_last_to_this a
             else if nf then merge_this_to_next a else ret ())
    (\<lambda>_ t. \<exists>ys. heap_inv (t\<lparr>heap_lock := False\<rparr>) ys \<and> used_blocks t ys = used_blocks s xs - {(a, n)} \<and>
      hvmm t = hvmm s \<and> heap_end t = heap_end s) s1"
  proof (rule wp_mono [OF free_merge_wp [OF core1 m1 p nf_def lf_def]])
    fix t assume t: "free_spec s1 (us @ x # a # vs) t"
    have "hvmm s1 = hvmm s" "heap_end s1 = heap_end s" by (simp_all add: s1_def)
    with t show "\<exists>ys. heap_inv (t\<lparr>heap_lock := False\<rparr>) ys \<and> used_blocks t ys = used_blocks s xs - {(a, n)} \<and>
      hvmm t = hvmm s \<and> heap_end t = heap_end s"
      using only_hmemD [of s1 t] unfolding used1 by auto
  qed
  moreover have "wp (free (Some (a + 48))) Q s = wp (if nf \<and> lf then merge_last_and_this_to_next a
      else if lf then merge_last_to_this a else if nf then merge_this_to_next a else ret ())
      (\<lambda>_ t. Q () (t\<lparr>heap_lock := False\<rparr>)) s1" for Q
    using ok e lk D(2)
    by (cases vs) (simp_all add: free_def HDR_def sz Let_def wp_simps nf_def lf_def s1_def mark_def L_def)
  ultimately show ?thesis by simp
qed

subsection \<open>Splitting and taking a segment\<close>

lemma heap_inv_used:
  assumes "heap_core s (us @ x # c # vs)" "\<not> heap_lock s" "\<not> is_free (hmem s c)"
    and "\<And>b. b \<in> set (us @ x # vs) \<Longrightarrow> is_free (hmem s b) = is_free (m b)"
    and "successively (no_free_pair m) (us @ [x])" "successively (no_free_pair m) vs"
  shows "heap_inv s (us @ x # c # vs)"
proof -
  have "successively (no_free_pair (hmem s)) (us @ [x])" "successively (no_free_pair (hmem s)) vs"
    using assms(4-6) no_free_pair_cong [of "us @ [x]" "hmem s" m] no_free_pair_cong [of vs "hmem s" m] by auto
  with assms(1-3) show ?thesis by (auto simp: heap_inv_def pairs_mid no_free_pair_def)
qed

definition split_hdr :: "(nat \<Rightarrow> heap_segment_header) \<Rightarrow> nat \<Rightarrow> nat \<Rightarrow> nat \<Rightarrow> nat \<Rightarrow> nat \<Rightarrow> heap_segment_header" where
  "split_hdr m x n a sz = m(n := zero_header\<lparr>is_free := True, signature := 0xff, seg_length := sz,
       h_next := Some a, h_last := Some x\<rparr>,
     x := (m x)\<lparr>h_next := Some n\<rparr>,
     a := (m a)\<lparr>h_last := Some n, seg_length := seg_length (m a) - (sz + 48)\<rparr>)"

lemma split_core:
  assumes core: "heap_core s (us @ x # a # vs)" and sz: "sz + 48 < seg_length (hmem s a)" "sz mod 16 = 0"
    and n: "n = a + seg_length (hmem s a) - sz"
  shows "heap_core (s\<lparr>hmem := split_hdr (hmem s) x n a sz\<rparr>) (us @ x # n # a # vs)"
    and "n \<notin> set (us @ x # a # vs)"
proof -
  let ?m = "split_hdr (hmem s) x n a sz"
  note D = heap_coreD [OF core]
  have na: "a < n" "n < seg_end (hmem s) a" using sz n by (auto simp: seg_end_def)
  have so: "sorted_wrt (below (hmem s)) (us @ x # a # vs)" by (rule D(1))
  then show nn: "n \<notin> set (us @ x # a # vs)"
    using na by (fastforce simp: sorted_wrt_append seg_end_def)
  have d: "distinct (us @ x # n # a # vs)" using D(2) nn by auto
  have e: "\<And>b. b \<in> set us \<Longrightarrow> seg_end ?m b = seg_end (hmem s) b" "\<And>b. b \<in> set vs \<Longrightarrow> seg_end ?m b = seg_end (hmem s) b"
    "seg_end ?m x = seg_end (hmem s) x" "seg_end ?m n = seg_end (hmem s) a" "seg_end ?m a = n"
    using d n sz by (auto simp: split_hdr_def seg_end_def)
  have f: "\<And>b. b \<in> set (us @ x # a # vs) \<Longrightarrow> is_free (?m b) = is_free (hmem s b)"
    using d by (auto simp: split_hdr_def)
  have 1: "sorted_wrt (below ?m) (us @ x # n # a # vs)"
    using so na sorted_below_cong [of us ?m "hmem s", OF e(1)] sorted_below_cong [of vs ?m "hmem s", OF e(2)]
    by (fastforce simp: sorted_wrt_append e)
  have dv: "16 dvd seg_length (hmem s a)" "16 dvd sz" "16 dvd a" "16 dvd (48 :: nat)"
    using sz(2) D(5) [of a] by (auto simp: dvd_eq_mod_eq_0)
  have ln: "(seg_length (hmem s a) - (sz + 48)) mod 16 = 0" "n mod 16 = 0"
    unfolding n mod_0_imp_dvd dvd_eq_mod_eq_0 [symmetric] by (intro dvd_diff_nat dvd_add dv)+
  have 2: "\<forall>b \<in> set (us @ x # n # a # vs). b mod 16 = 0 \<and> seg_length (?m b) mod 16 = 0"
    using ln sz(2) d D(5) by (auto simp: split_hdr_def)
  have 3: "seg ?m None p us (Some x) = seg (hmem s) None p us (Some x)" for p
    by (rule seg_cong) (use d in \<open>auto simp: split_hdr_def\<close>)
  have 4: "seg ?m (Some a) p vs None = seg (hmem s) (Some a) p vs None" for p
    by (rule seg_cong) (use d in \<open>auto simp: split_hdr_def\<close>)
  have hd: "hd (us @ x # n # a # vs) = hd (us @ x # a # vs)" "hd (us @ x # a # vs) \<in> set (us @ [x])" by (cases us; auto)+
  have 5: "seg ?m None (Some (hd (us @ x # a # vs))) (us @ x # n # a # vs) None"
    using D(6) d by (auto simp: seg_mid 3 4) (auto simp: split_hdr_def)
  have 6: "seg_end ?m (hd (us @ x # a # vs)) = seg_end (hmem s) (hd (us @ x # a # vs))"
    "is_free (?m (hd (us @ x # a # vs))) = is_free (hmem s (hd (us @ x # a # vs)))"
    using hd(2) e f by auto
  show "heap_core (s\<lparr>hmem := ?m\<rparr>) (us @ x # n # a # vs)"
    using core 1 2 5 6 unfolding heap_core_def segs_inv_def hd(1) by simp
qed

lemma last_segment_same: "last_segment s = v \<Longrightarrow> s\<lparr>last_segment := v, hmem := m\<rparr> = s\<lparr>hmem := m\<rparr>"
  by (cases s) simp

lemma split_segment_wp:
  assumes core: "heap_core s (us @ x # a # vs)" and sz: "sz + 48 < seg_length (hmem s a)"
  shows "wp (split_segment a sz) Q s =
    Q (Some (a + seg_length (hmem s a) - sz))
      (s\<lparr>hmem := split_hdr (hmem s) x (a + seg_length (hmem s a) - sz) a sz\<rparr>)"
proof -
  note D = heap_coreD [OF core]
  have lk: "h_last (hmem s a) = Some x" "h_next (hmem s a) = (case vs of [] \<Rightarrow> None | b # _ \<Rightarrow> Some b)"
    using D(6) by (auto simp: seg_mid split: list.split)
  have e: "heap_end s \<le> a" "heap_end s \<le> x" "x \<noteq> a" using D(2,3) by auto
  have b: "a + 48 + seg_length (hmem s a) < 18446744073709551616" using D(4) [of a] by (simp add: seg_end_def)
  have w: "u64_add sz 48 = sz + 48" "u64_sub (u64_add a (seg_length (hmem s a))) sz = a + seg_length (hmem s a) - sz"
    "u64_sub (seg_length (hmem s a)) (sz + 48) = seg_length (hmem s a) - (sz + 48)"
    using sz b by (simp_all add: u64_add_small u64_sub_small)
  have n: "a + seg_length (hmem s a) - sz \<noteq> x" "a + seg_length (hmem s a) - sz \<noteq> a" "heap_end s \<le> a + seg_length (hmem s a) - sz"
    using D(1) sz e by (auto simp: sorted_wrt_append seg_end_def)
  have l: "vs = [] \<Longrightarrow> last_segment s = Some a" using D(11) by simp
  show ?thesis
    using sz lk e n w l
    by (cases vs) (simp_all add: split_segment_def HDR_def Let_def wp_simps split_hdr_def last_segment_same)
qed

lemma take_segment_wp:
  assumes "heap_end s \<le> a" "a + 48 < 18446744073709551616"
  shows "\<exists>u f. \<forall>Q. wp (take_segment a) Q s =
    Q (a + 48) (s\<lparr>hmem := mark False a (hmem s), used_size := u, free_size := f, heap_lock := False\<rparr>)"
  using assms by (auto simp: take_segment_def wp_simps mark_def HDR_def u64_add_small)

definition fits :: "heap_state \<Rightarrow> nat \<Rightarrow> nat \<Rightarrow> bool" where
  "fits s sz a \<longleftrightarrow> is_free (hmem s a) \<and> (sz + 48 < seg_length (hmem s a) \<or> seg_length (hmem s a) = sz)"

text \<open>\<open>took s xs sz p t\<close>: a block of \<open>sz\<close> bytes at \<open>p\<close> that was not in use before is in use now.\<close>

definition took :: "heap_state \<Rightarrow> nat list \<Rightarrow> nat \<Rightarrow> nat \<Rightarrow> heap_state \<Rightarrow> bool" where
  "took s xs sz p t \<longleftrightarrow> (\<exists>a ys. p = a + 48 \<and> heap_inv t ys \<and> used_blocks t ys = insert (a, sz) (used_blocks s xs) \<and>
     a \<notin> fst ` used_blocks s xs \<and> hvmm t = hvmm s \<and> heap_end t = heap_end s)"

lemma not_used_fst: "n \<notin> set xs \<Longrightarrow> n \<notin> fst ` used_blocks s xs"
  by (auto simp: used_blocks_def dest: list.set_sel(2) [rotated]) (metis list.sel(2) list.set_sel(2))

lemma take_split:
  assumes core: "heap_core s (us @ x # a # vs)" and p: "successively (no_free_pair (hmem s)) (us @ x # a # vs)"
    and sz: "sz + 48 < seg_length (hmem s a)" "sz mod 16 = 0" and af: "is_free (hmem s a)"
  shows "wp (split_segment a sz) (\<lambda>new. wp (case new of None \<Rightarrow> stop NullDeref
       | Some new_segment \<Rightarrow> bindc (take_segment new_segment) (\<lambda>a. ret (Some a)))
     (\<lambda>r t. \<exists>p. r = Some p \<and> took s (us @ x # a # vs) sz p t)) s"
proof -
  note D = heap_coreD [OF core]
  define n where "n = a + seg_length (hmem s a) - sz"
  let ?m = "split_hdr (hmem s) x n a sz" let ?t = "s\<lparr>hmem := ?m\<rparr>"
  have core_t: "heap_core ?t (us @ x # n # a # vs)" and nn: "n \<notin> set (us @ x # a # vs)"
    using split_core [OF core sz n_def] by auto
  note E = heap_coreD [OF core_t]
  have "heap_end ?t \<le> n" "n + 48 < 18446744073709551616" using E(3,4) [of n] by (auto simp: seg_end_def)
  from take_segment_wp [OF this] obtain u f where t: "\<And>Q. wp (take_segment n) Q ?t =
    Q (n + 48) (?t\<lparr>hmem := mark False n ?m, used_size := u, free_size := f, heap_lock := False\<rparr>)" by auto
  let ?u = "s\<lparr>hmem := mark False n ?m, used_size := u, free_size := f, heap_lock := False\<rparr>"
  have ln: "seg_length (?m n) = sz" using nn by (auto simp: split_hdr_def)
  have "heap_core (?t\<lparr>hmem := mark False n (hmem ?t)\<rparr>) (us @ x # n # a # vs)" by (rule mark_core [OF core_t])
  then have core_u: "heap_core ?u (us @ x # n # a # vs)" by (simp add: heap_core_def)
  have "heap_inv ?u (us @ x # n # a # vs)"
  proof (rule heap_inv_used [OF core_u, where m = "hmem s"])
    show "is_free (hmem ?u b) = is_free (hmem s b)" if "b \<in> set (us @ x # a # vs)" for b
      using that nn D(2) by (auto simp: split_hdr_def)
    show "successively (no_free_pair (hmem s)) (us @ [x])" "successively (no_free_pair (hmem s)) (a # vs)"
      using p by (auto simp: successively_append_iff successively_Cons)
  qed simp_all
  moreover have "used_blocks ?u (us @ x # n # a # vs) = insert (n, sz) (used_blocks s (us @ x # a # vs))"
  proof -
    have tls: "set (tl (us @ x # n # a # vs)) = insert n (set (tl (us @ x # a # vs)))" by (cases us) auto
    have "is_free (?m b) = is_free (hmem s b) \<and> (\<not> is_free (hmem s b) \<longrightarrow> seg_length (?m b) = seg_length (hmem s b))"
      "b \<noteq> n" if "b \<in> set (tl (us @ x # a # vs))" for b
    proof -
      have b: "b \<in> set (us @ x # a # vs)" using that by (cases us) auto
      then show "b \<noteq> n" using nn by auto
      then show "is_free (?m b) = is_free (hmem s b) \<and> (\<not> is_free (hmem s b) \<longrightarrow> seg_length (?m b) = seg_length (hmem s b))"
        using af by (auto simp: split_hdr_def)
    qed
    then show ?thesis unfolding used_blocks_def tls by (auto simp: ln) force+
  qed
  ultimately have "took s (us @ x # a # vs) sz (n + 48) ?u"
    using not_used_fst [OF nn] by (auto simp: took_def)
  then show ?thesis
    unfolding split_segment_wp [OF core sz(1)] n_def [symmetric] by (simp add: wp_simps t)
qed

lemma take_exact:
  assumes core: "heap_core s (us @ x # a # vs)" and p: "successively (no_free_pair (hmem s)) (us @ x # a # vs)"
    and af: "is_free (hmem s a)"
  shows "wp (take_segment a) (\<lambda>p t. took s (us @ x # a # vs) (seg_length (hmem s a)) p t) s"
proof -
  note D = heap_coreD [OF core]
  have "heap_end s \<le> a" "a + 48 < 18446744073709551616" using D(3,4) [of a] by (auto simp: seg_end_def)
  from take_segment_wp [OF this] obtain u f where t: "\<And>Q. wp (take_segment a) Q s =
    Q (a + 48) (s\<lparr>hmem := mark False a (hmem s), used_size := u, free_size := f, heap_lock := False\<rparr>)" by auto
  let ?u = "s\<lparr>hmem := mark False a (hmem s), used_size := u, free_size := f, heap_lock := False\<rparr>"
  have core_u: "heap_core ?u (us @ x # a # vs)" using mark_core [OF core, of False] by (simp add: heap_core_def)
  have "heap_inv ?u (us @ x # a # vs)"
  proof (rule heap_inv_used [OF core_u, where m = "hmem s"])
    show "is_free (hmem ?u b) = is_free (hmem s b)" if "b \<in> set (us @ x # vs)" for b
      using that D(2) by auto
    show "successively (no_free_pair (hmem s)) (us @ [x])" "successively (no_free_pair (hmem s)) vs"
      using p by (auto simp: pairs_mid)
  qed simp_all
  moreover have "used_blocks ?u (us @ x # a # vs) =
      insert (a, seg_length (hmem s a)) (used_blocks s (us @ x # a # vs))"
    using mark_used_used [OF core] by (simp add: used_blocks_def)
  moreover have "a \<notin> fst ` used_blocks s (us @ x # a # vs)" using af by (auto simp: used_blocks_def)
  ultimately show ?thesis unfolding t by (auto simp: took_def)
qed

subsection \<open>The walk\<close>

abbreviation head :: "nat list \<Rightarrow> nat option" where
  "head zs \<equiv> (case zs of [] \<Rightarrow> None | a # _ \<Rightarrow> Some a)"

lemma malloc_walk_wp:
  assumes "heap_core s xs" "successively (no_free_pair (hmem s)) xs" "xs = us @ zs" "length zs < fuel"
    and "sz mod 16 = 0" "sz + 48 < 18446744073709551616"
  shows "wp (malloc_walk fuel (head zs) sz) (\<lambda>r t. case r of
      None \<Rightarrow> t = s \<and> (\<forall>a \<in> set zs. \<not> fits s sz a)
    | Some p \<Rightarrow> took s xs sz p t) s"
  using assms
proof (induction zs arbitrary: us fuel)
  case Nil
  then obtain f where "fuel = Suc f" by (cases fuel) auto
  then show ?case by (simp add: wp_simps)
next
  case (Cons a vs)
  then obtain f where f: "fuel = Suc f" by (cases fuel) auto
  note D = heap_coreD [OF Cons.prems(1)]
  have e: "heap_end s \<le> a" using D(3) Cons.prems(3) by simp
  have sz: "u64_add sz HDR = sz + 48" using Cons.prems(6) by (simp add: u64_add_small HDR_def)
  have nx: "h_next (hmem s a) = head vs" using D(6) unfolding Cons.prems(3) by (auto simp: seg_mid split: list.split)
  show ?case
  proof (cases "fits s sz a")
    case True
    then have af: "is_free (hmem s a)" by (simp add: fits_def)
    have "us \<noteq> []" using D(8) Cons.prems(3) af by (cases us) auto
    then obtain us' x where us: "us = us' @ [x]" by (metis append_butlast_last_id)
    then have xs: "xs = us' @ x # a # vs" using Cons.prems(3) by simp
    note c = Cons.prems(1,2) [unfolded xs]
    show ?thesis
    proof (cases "sz + 48 < seg_length (hmem s a)")
      case True
      from take_split [OF c True Cons.prems(5) af] show ?thesis
        using f sz af True e unfolding xs by (simp add: wp_simps) (erule wp_mono, erule wp_mono, auto)
    next
      case False
      then have "seg_length (hmem s a) = sz" using \<open>fits s sz a\<close> by (simp add: fits_def)
      with take_exact [OF c af] show ?thesis
        using f sz af False e unfolding xs by (simp add: wp_simps)
    qed
  next
    case False
    have "wp (malloc_walk f (head vs) sz) (\<lambda>r t. case r of
      None \<Rightarrow> t = s \<and> (\<forall>a \<in> set vs. \<not> fits s sz a) | Some p \<Rightarrow> took s xs sz p t) s"
      by (rule Cons.IH [of "us @ [a]"]) (use Cons.prems f in auto)
    then have "wp (malloc_walk f (head vs) sz) (\<lambda>r t. case r of
      None \<Rightarrow> t = s \<and> (\<forall>a \<in> set (a # vs). \<not> fits s sz a) | Some p \<Rightarrow> took s xs sz p t) s"
      by (rule wp_mono) (use False in \<open>auto split: option.splits\<close>)
    moreover have "wp (malloc_walk fuel (head (a # vs)) sz) Q s = wp (malloc_walk f (head vs) sz) Q s" for Q
      using False f sz e nx by (auto simp: wp_simps fits_def)
    ultimately show ?thesis by simp
  qed
qed

subsection \<open>Growing\<close>

text \<open>The kernel address space is well formed and at least \<open>k\<close> physical pages are free.\<close>

definition heap_env :: "heap_state \<Rightarrow> nat \<Rightarrow> bool" where
  "heap_env s k \<longleftrightarrow> vmm_inv (frame (kernel_space (hvmm s))) (hvmm s) \<and> k \<le> card (free_pages (vpmm (hvmm s)))"

lemma heap_map_wp:
  assumes env: "heap_env s (7 * n + k)" and len: "len = n * 4096" "len \<le> 2 ^ 64 - 4096"
    and Q: "\<And>v. heap_env (s\<lparr>hvmm := v\<rparr>) k \<Longrightarrow> kernel_space v = kernel_space (hvmm s) \<Longrightarrow> Q () (s\<lparr>hvmm := v\<rparr>)"
  shows "wp (heap_map a len) Q s"
proof -
  let ?k = "kernel_space (hvmm s)" let ?rg = "\<lparr>range_address = a, range_size = len\<rparr>"
  have "wp (vmm_map_allocate ?k ?rg (MEMORY_FLAG_READABLE OR MEMORY_FLAG_WRITABLE))
    (\<lambda>_. backed (frame ?k) (range_pages (range_address ?rg) 0 n) (7 * n) (hvmm s)) (hvmm s)"
    by (rule vmm_map_allocate_wp) (use env len in \<open>auto simp: heap_env_def\<close>)
  then show ?thesis unfolding heap_map_def wp_bindc wp_getc wp_zoomc wp_ret
    by (rule wp_mono) (rule Q, use env in \<open>auto simp: heap_env_def backed_def vmm_rest_def\<close>)
qed

text \<open>A new last segment, either behind the old one or in its place.\<close>

definition add_hdr :: "(nat \<Rightarrow> heap_segment_header) \<Rightarrow> nat \<Rightarrow> nat \<Rightarrow> heap_segment_header \<Rightarrow> nat \<Rightarrow> heap_segment_header" where
  "add_hdr m x n h = m(n := h, x := (m x)\<lparr>h_next := Some n\<rparr>)"

lemma add_core:
  assumes core: "heap_core s (us @ x # vs)" and n: "n < heap_end s" "n mod 4096 = 0"
    and h: "h_last h = Some x" "h_next h = None" "is_free h" "n + 48 + seg_length h \<le> x" "seg_length h mod 16 = 0"
  shows "heap_core (s\<lparr>heap_end := n, last_segment := Some n, hmem := add_hdr (hmem s) x n h\<rparr>) (us @ [x, n])"
proof -
  let ?m = "add_hdr (hmem s) x n h"
  note D = heap_coreD [OF core]
  have nn: "n \<notin> set (us @ x # vs)" using D(3) n(1) by fastforce
  have so: "sorted_wrt (below (hmem s)) (us @ [x])" using D(1) by (auto simp: sorted_wrt_append)
  have d: "distinct (us @ [x, n])" using D(2) nn by auto
  have e: "\<And>b. b \<in> set (us @ [x]) \<Longrightarrow> seg_end ?m b = seg_end (hmem s) b" "seg_end ?m n = n + 48 + seg_length h"
    using d by (auto simp: add_hdr_def seg_end_def)
  have "b \<ge> x" if "b \<in> set (us @ [x])" for b using so that by (auto simp: sorted_wrt_append seg_end_def)
  then have "sorted_wrt (below ?m) (us @ [x] @ [n])"
    using so h(4) sorted_below_cong [of "us @ [x]" ?m "hmem s", OF e(1)]
    unfolding append_assoc [symmetric] sorted_wrt_append [of _ "us @ [x]"] by (fastforce simp: e(2))
  then have 1: "sorted_wrt (below ?m) (us @ [x, n])" by simp
  have "(16 :: nat) dvd 4096" "4096 dvd n" using n(2) by (simp_all add: dvd_eq_mod_eq_0)
  then have "16 dvd n" by (rule dvd_trans)
  then have 2: "\<forall>b \<in> set (us @ [x, n]). b mod 16 = 0 \<and> seg_length (?m b) mod 16 = 0"
    using D(5) d h(5) by (auto simp: add_hdr_def)
  have 3: "seg ?m None p us (Some x) = seg (hmem s) None p us (Some x)" for p
    by (rule seg_cong) (use d in \<open>auto simp: add_hdr_def\<close>)
  have hd: "hd (us @ [x, n]) = hd (us @ x # vs)" "hd (us @ x # vs) \<in> set (us @ [x])" by (cases us; auto)+
  have 4: "seg ?m None (Some (hd (us @ x # vs))) (us @ [x, n]) None"
    using D(6) d h(1,2) by (auto simp: seg_mid 3) (auto simp: add_hdr_def)
  have 5: "seg_end ?m (hd (us @ x # vs)) = seg_end (hmem s) (hd (us @ x # vs))"
    "is_free (?m (hd (us @ x # vs))) = is_free (hmem s (hd (us @ x # vs)))"
    using hd(2) e(1) d by (auto simp: add_hdr_def)
  show ?thesis
    using core 1 2 4 5 n(2) unfolding heap_core_def segs_inv_def hd(1) by simp
qed

lemma add_used:
  assumes core: "heap_core s (us @ x # vs)" and n: "n < heap_end s" and h: "is_free h"
    and vs: "\<forall>b \<in> set vs. is_free (hmem s b)"
  shows "used_blocks (s\<lparr>heap_end := e, last_segment := l, hmem := add_hdr (hmem s) x n h\<rparr>) (us @ [x, n]) =
    used_blocks s (us @ x # vs)"
proof -
  have nn: "n \<notin> set (us @ x # vs)" using heap_coreD(3) [OF core] n by fastforce
  have "b \<in> set (tl (us @ [x, n])) \<and> \<not> is_free (add_hdr (hmem s) x n h b) \<longleftrightarrow>
        b \<in> set (tl (us @ x # vs)) \<and> \<not> is_free (hmem s b)" for b
    using nn vs h by (cases us) (auto simp: add_hdr_def)
  moreover have "seg_length (add_hdr (hmem s) x n h b) = seg_length (hmem s b)"
    if "b \<in> set (tl (us @ x # vs))" for b
    using nn that by (cases us) (auto simp: add_hdr_def)
  ultimately show ?thesis unfolding used_blocks_def by auto
qed

lemma add_pairs:
  assumes core: "heap_core s (us @ x # vs)" and n: "n < heap_end s"
    and p: "successively (no_free_pair (hmem s)) (us @ x # vs)" and x: "\<not> is_free (hmem s x)"
  shows "successively (no_free_pair (add_hdr (hmem s) x n h)) (us @ [x, n])"
proof -
  have nn: "n \<notin> set (us @ x # vs)" using heap_coreD(3) [OF core] n by fastforce
  have "successively (no_free_pair (hmem s)) (us @ [x])"
    using p by (auto simp: successively_append_iff successively_Cons)
  then have "successively (no_free_pair (add_hdr (hmem s) x n h)) (us @ [x])"
    by (subst no_free_pair_cong [where m = "hmem s"]) (use nn in \<open>auto simp: add_hdr_def\<close>)
  moreover have "\<not> is_free (add_hdr (hmem s) x n h x)" using nn x by (auto simp: add_hdr_def)
  ultimately show ?thesis
    by (simp add: successively_append_iff [of _ us] successively_Cons no_free_pair_def)
qed

lemma dvd16_page:
  fixes len :: nat
  assumes "len mod 4096 = 0"
  shows "16 dvd len - 48"
proof -
  have "(16 :: nat) dvd 4096" "4096 dvd len" using assms by (simp_all add: dvd_eq_mod_eq_0)
  then have "16 dvd len" by (rule dvd_trans)
  then show ?thesis by (rule dvd_diff_nat) simp
qed

definition grown :: "heap_state \<Rightarrow> nat list \<Rightarrow> nat \<Rightarrow> nat \<Rightarrow> nat \<Rightarrow> heap_state \<Rightarrow> nat list \<Rightarrow> bool" where
  "grown s xs len c k t ys \<longleftrightarrow> heap_core t ys \<and> successively (no_free_pair (hmem t)) ys \<and>
     used_blocks t ys = used_blocks s xs \<and> heap_env t k \<and> heap_end t = heap_end s - len \<and>
     heap_lock t = heap_lock s \<and> is_free (hmem t (last ys)) \<and> length ys \<le> Suc (length xs) \<and>
     seg_length (hmem t (last ys)) =
       (if is_free (hmem s (last xs)) then seg_length (hmem s (last xs)) + c else c)"

lemma grown_behind:
  assumes core: "heap_core s xs" and p: "successively (no_free_pair (hmem s)) xs"
    and nf: "\<not> is_free (hmem s (last xs))"
    and len: "0 < len" "len < heap_end s" "len mod 4096 = 0"
    and env: "heap_env (s\<lparr>hvmm := v\<rparr>) k"
    and h: "h_last h = Some (last xs)" "h_next h = None" "is_free h" "seg_length h = len - 48"
    and m: "m = add_hdr (hmem s) (last xs) (heap_end s - len) h"
  shows "grown s xs len (len - 48) k (s\<lparr>heap_end := heap_end s - len, hvmm := v, hmem := m,
    last_segment := Some (heap_end s - len), total_size := a, free_size := b\<rparr>) (xs @ [heap_end s - len])"
proof -
  note D = heap_coreD [OF core]
  let ?n = "heap_end s - len"
  obtain us x where xs: "xs = us @ [x]" using D(9) by (metis append_butlast_last_id)
  have al: "heap_end s mod 4096 = 0" using core by (simp add: heap_core_def)
  then have n: "?n < heap_end s" "?n mod 4096 = 0" using len by (auto simp: mod_eq_0_iff_dvd dvd_diff_nat)
  have "4096 \<le> len" using len by (metis dvd_eq_mod_eq_0 dvd_imp_le)
  moreover have "heap_end s \<le> last xs" using core by (simp add: heap_core_def)
  ultimately have l: "?n + 48 + seg_length h \<le> x" using h(4) len(2) xs by auto
  have "16 dvd len - 48" by (rule dvd16_page [OF len(3)])
  then have "seg_length h mod 16 = 0" using h(4) by auto
  note add = add_core [of s us x "[]", OF core [unfolded xs] n h(1) [unfolded xs last_snoc] h(2,3) l this]
  have "heap_core (s\<lparr>heap_end := ?n, hvmm := v, hmem := m, last_segment := Some ?n, total_size := a, free_size := b\<rparr>) (xs @ [?n])"
    using add m xs by (simp add: heap_core_def)
  moreover have "used_blocks (s\<lparr>heap_end := ?n, hvmm := v, hmem := m, last_segment := Some ?n, total_size := a, free_size := b\<rparr>) (xs @ [?n]) = used_blocks s xs"
    using add_used [of s us x "[]" ?n h, OF core [unfolded xs] n(1) h(3)] m xs by (simp add: used_blocks_def)
  moreover have "successively (no_free_pair m) (xs @ [?n])"
    using add_pairs [of s us x "[]" ?n, OF core [unfolded xs] n(1) p [unfolded xs]] nf m xs by simp
  moreover have "m ?n = h" using D(3) [of x] n(1) xs m by (auto simp: add_hdr_def)
  ultimately show ?thesis using env nf h(3,4) by (simp add: grown_def heap_env_def)
qed

lemma grown_merged:
  assumes core: "heap_core s xs" and p: "successively (no_free_pair (hmem s)) xs"
    and xs: "xs = us @ [x, l]" and lf: "is_free (hmem s l)"
    and len: "0 < len" "len < heap_end s" "len mod 4096 = 0"
    and env: "heap_env (s\<lparr>hvmm := v\<rparr>) k"
    and h: "h_last h = Some x" "h_next h = None" "is_free h" "seg_length h = seg_length (hmem s l) + (len - 48)"
    and m: "m = add_hdr (hmem s) x (heap_end s - len) h"
  shows "grown s xs len (len - 48) k (s\<lparr>heap_end := heap_end s - len, hvmm := v, hmem := m,
    last_segment := Some (heap_end s - len), total_size := a, free_size := b\<rparr>) (us @ [x, heap_end s - len])"
proof -
  note D = heap_coreD [OF core]
  let ?n = "heap_end s - len"
  have al: "heap_end s mod 4096 = 0" "heap_end s \<le> l" using core xs by (auto simp: heap_core_def)
  then have n: "?n < heap_end s" "?n mod 4096 = 0" using len by (auto simp: mod_eq_0_iff_dvd dvd_diff_nat)
  have c: "4096 \<le> len" using len by (metis dvd_eq_mod_eq_0 dvd_imp_le)
  have "seg_end (hmem s) l \<le> x" using D(1) xs by (auto simp: sorted_wrt_append)
  with c have l: "?n + 48 + seg_length h \<le> x" using h(4) len(2) al(2) by (auto simp: seg_end_def)
  have "16 dvd len - 48" by (rule dvd16_page [OF len(3)])
  moreover have "16 dvd seg_length (hmem s l)" using D(5) [of l] xs by auto
  ultimately have "16 dvd seg_length h" using h(4) by simp
  then have l16: "seg_length h mod 16 = 0" by auto
  have nx: "\<not> is_free (hmem s x)" using p lf xs by (auto simp: successively_append_iff successively_Cons no_free_pair_def)
  note add = add_core [of s us x "[l]", OF core [unfolded xs] n h(1-3) l l16]
  have "heap_core (s\<lparr>heap_end := ?n, hvmm := v, hmem := m, last_segment := Some ?n, total_size := a, free_size := b\<rparr>) (us @ [x, ?n])"
    using add m by (simp add: heap_core_def)
  moreover have "used_blocks (s\<lparr>heap_end := ?n, hvmm := v, hmem := m, last_segment := Some ?n, total_size := a, free_size := b\<rparr>) (us @ [x, ?n]) = used_blocks s xs"
    using add_used [of s us x "[l]" ?n h, OF core [unfolded xs] n(1) h(3)] m xs lf by (simp add: used_blocks_def)
  moreover have "successively (no_free_pair m) (us @ [x, ?n])"
    using add_pairs [of s us x "[l]" ?n, OF core [unfolded xs] n(1) p [unfolded xs] nx] m by simp
  moreover have "m ?n = h" using D(3) [of x] n(1) xs m by (auto simp: add_hdr_def)
  ultimately show ?thesis using env lf h(3,4) xs by (simp add: grown_def heap_env_def)
qed

lemma expand_link_wp:
  assumes core: "heap_core s xs" and p: "successively (no_free_pair (hmem s)) xs"
    and len: "48 \<le> len" "len mod 4096 = 0" "len < heap_end s"
    and env: "heap_env (s\<lparr>hvmm := v\<rparr>) k"
  shows "wp (expand_link (heap_end s - len) len)
    (\<lambda>_ t. \<exists>ys. grown s xs len (len - 48) k (t\<lparr>total_size := f (total_size t), free_size := g (free_size t)\<rparr>) ys)
    (s\<lparr>heap_end := heap_end s - len, hvmm := v\<rparr>)"
proof -
  note D = heap_coreD [OF core]
  let ?n = "heap_end s - len"
  have he: "heap_end s \<le> last xs" using core by (simp add: heap_core_def)
  have l64: "seg_end (hmem s) (last xs) < 18446744073709551616" using D(4,9) by simp
  have w: "u64_sub len 48 = len - 48" using len he l64 by (simp add: u64_sub_small seg_end_def)
  have pos: "0 < len" using len by simp
  have nl: "?n \<le> last xs" "?n \<noteq> last xs" using he len(3) pos by auto
  show ?thesis
  proof (cases "is_free (hmem s (last xs))")
    case False
    let ?h = "(hmem s ?n)\<lparr>signature := 0xff, seg_length := len - 48, is_free := True,
      h_last := Some (last xs), h_next := None\<rparr>"
    have "grown s xs len (len - 48) k (s\<lparr>heap_end := ?n, hvmm := v, hmem := add_hdr (hmem s) (last xs) ?n ?h,
        last_segment := Some ?n, total_size := f (total_size s), free_size := g (free_size s)\<rparr>) (xs @ [?n])"
      by (rule grown_behind [OF core p False pos len(3,2) env _ _ _ _ refl]) simp_all
    then show ?thesis
      using nl D(11) False w by (auto simp: expand_link_def wp_simps add_hdr_def HDR_def)
  next
    case True
    then have "last xs \<noteq> hd xs" using D(8) by auto
    then obtain us x where xs: "xs = us @ [x, last xs]"
      using D(9) by (metis append_butlast_last_id butlast.simps(2) list.sel(1) append.assoc append_Cons append_Nil hd_append2)
    have lk: "h_last (hmem s (last xs)) = Some x"
    proof -
      have "seg (hmem s) None (Some (hd xs)) (us @ x # [last xs]) None" using D(6) xs by simp
      then show ?thesis by (simp add: seg_mid)
    qed
    have xin: "x \<in> set xs" "distinct (us @ [x, last xs])" using D(2) xs by (metis in_set_conv_decomp) (metis D(2) xs)
    have x: "?n \<le> x" "?n \<noteq> x" "x \<noteq> last xs" using D(3) [OF xin(1)] xin(2) len(3) pos by auto
    have w2: "u64_sub (u64_add (seg_length (hmem s (last xs))) len) 48 = seg_length (hmem s (last xs)) + (len - 48)"
    proof -
      have "seg_length (hmem s (last xs)) + len < 18446744073709551616" using l64 he len(3) by (simp add: seg_end_def)
      then show ?thesis using len(1) by (simp add: u64_add_small u64_sub_small)
    qed
    let ?h = "(hmem s ?n)\<lparr>signature := 0xff, seg_length := seg_length (hmem s (last xs)) + (len - 48), is_free := True,
      h_last := Some x, h_next := None\<rparr>"
    have "grown s xs len (len - 48) k (s\<lparr>heap_end := ?n, hvmm := v, hmem := add_hdr (hmem s) x ?n ?h,
        last_segment := Some ?n, total_size := f (total_size s), free_size := g (free_size s)\<rparr>) (us @ [x, ?n])"
      by (rule grown_merged [OF core p xs True pos len(3,2) env _ _ _ _ refl]) simp_all
    then show ?thesis
      using nl D(11) True lk x w2 by (auto simp: expand_link_def wp_simps add_hdr_def HDR_def Let_def fun_upd_twist)
  qed
qed

lemma expand_heap_wp:
  assumes core: "heap_core s xs" and p: "successively (no_free_pair (hmem s)) xs"
    and len: "len = round_up 4096 (sz + 48)" "len < heap_end s" and sz: "sz + 48 + 4096 \<le> 18446744073709551616"
    and env: "heap_env s (7 * (len div 4096) + k)"
  shows "wp (expand_heap sz) (\<lambda>_ t. \<exists>ys. grown s xs len (len - 48) k t ys) s"
proof -
  note D = heap_coreD [OF core]
  have r: "sz + 48 \<le> len" "len mod 4096 = 0" using round_up_props [of 4096 "sz + 48"] sz len(1) by auto
  have he: "heap_end s < 18446744073709551616"
    using D(9) D(4) [of "last xs"] core by (auto simp: heap_core_def seg_end_def)
  let ?n = "heap_end s - len"
  have w: "u64_add sz HDR = sz + 48" "u64_sub (heap_end s) len = ?n"
    using sz he r len(2) by (simp_all add: u64_add_small u64_sub_small HDR_def)
  have ln: "len = len div 4096 * 4096" using r(2) by (metis add.right_neutral div_mult_mod_eq)
  have l64: "len \<le> 2 ^ 64 - 4096" using len(2) he r(2) by (auto simp: mod_eq_0_iff_dvd elim!: dvdE)
  have "wp (heap_map ?n len) (\<lambda>_. wp (expand_link ?n len)
      (\<lambda>_ t. \<exists>ys. grown s xs len (len - 48) k (t\<lparr>total_size := u64_add (total_size t) (u64_add len HDR),
         free_size := u64_add (free_size t) (u64_add len HDR)\<rparr>) ys)) (s\<lparr>heap_end := ?n\<rparr>)"
  proof (rule heap_map_wp [OF _ ln l64])
    show "heap_env (s\<lparr>heap_end := ?n\<rparr>) (7 * (len div 4096) + k)" using env by (simp add: heap_env_def)
    fix v assume "heap_env (s\<lparr>heap_end := ?n, hvmm := v\<rparr>) k"
    then have "heap_env (s\<lparr>hvmm := v\<rparr>) k" by (simp add: heap_env_def)
    from expand_link_wp [OF core p _ r(2) len(2) this] r(1)
    show "wp (expand_link ?n len)
      (\<lambda>_ t. \<exists>ys. grown s xs len (len - 48) k (t\<lparr>total_size := u64_add (total_size t) (u64_add len HDR),
         free_size := u64_add (free_size t) (u64_add len HDR)\<rparr>) ys) (s\<lparr>heap_end := ?n, hvmm := v\<rparr>)" by simp
  qed
  then show ?thesis
    by (simp add: expand_heap_def PAGE_SIZE_def w len(1) [symmetric] Let_def wp_simps)
qed

subsection \<open>Allocation\<close>

definition malloc_spec :: "(nat \<times> nat) set \<Rightarrow> nat \<Rightarrow> nat option \<Rightarrow> heap_state \<Rightarrow> bool" where
  "malloc_spec U sz r t \<longleftrightarrow> (\<exists>a ys. r = Some (a + 48) \<and> heap_inv t ys \<and> used_blocks t ys = insert (a, sz) U \<and>
     a \<notin> fst ` U \<and> a mod 16 = 0)"

lemma took_spec:
  assumes "took s xs sz p t"
  shows "malloc_spec (used_blocks s xs) sz (Some p) t"
proof -
  obtain a ys where a: "p = a + 48" "heap_inv t ys" "used_blocks t ys = insert (a, sz) (used_blocks s xs)"
    "a \<notin> fst ` used_blocks s xs" using assms by (auto simp: took_def)
  have "(a, sz) \<in> used_blocks t ys" using a(3) by simp
  then have "a \<in> set (tl ys)" by (auto simp: used_blocks_def)
  then have "a \<in> set ys" by (cases ys) auto
  then have "a mod 16 = 0" using a(2) heap_coreD(5) by (auto simp: heap_inv_def)
  with a show ?thesis by (auto simp: malloc_spec_def)
qed

lemma malloc_walk_fits:
  assumes "heap_core s xs" "successively (no_free_pair (hmem s)) xs" "length xs < wk" "sz mod 16 = 0"
    "sz + 48 < 18446744073709551616"
  shows "wp (malloc_walk wk (main_segment s) sz) (\<lambda>r t. case r of
      None \<Rightarrow> t = s \<and> (\<forall>a \<in> set xs. \<not> fits s sz a) | Some p \<Rightarrow> malloc_spec (used_blocks s xs) sz (Some p) t) s"
proof -
  have m: "main_segment s = head xs" using heap_coreD(9,10) [OF assms(1)] by (cases xs) auto
  show ?thesis unfolding m
    by (rule wp_mono [OF malloc_walk_wp [of s xs "[]" xs, OF assms(1,2) _ assms(3-5)]])
      (auto split: option.splits intro: took_spec)
qed

lemma malloc_step:
  assumes inv: "heap_inv s xs" and wk: "length xs < wk" and sz: "0 < sz" "R = round_up 16 sz"
    and R: "R mod 16 = 0" "R + 48 < 18446744073709551616"
    and found: "\<And>r t. malloc_spec (used_blocks s xs) R r t \<Longrightarrow> Q r t"
    and grow: "\<forall>a \<in> set xs. \<not> fits s R a \<Longrightarrow>
      wp (expand_heap R) (\<lambda>_ t. wp (malloc wk fuel R) Q (t\<lparr>heap_lock := False\<rparr>)) (s\<lparr>heap_lock := True\<rparr>)"
  shows "wp (malloc wk (Suc fuel) sz) Q s"
proof -
  let ?s = "s\<lparr>heap_lock := True\<rparr>"
  have core: "heap_core ?s xs" "successively (no_free_pair (hmem ?s)) xs" "\<not> heap_lock s"
    using inv by (simp_all add: heap_inv_def)
  have "wp (malloc_walk wk (main_segment ?s) R) (\<lambda>r. wp (case r of Some a \<Rightarrow> ret (Some a)
         | None \<Rightarrow> seqc (expand_heap R) (seqc (lock_release heap_lock_update) (malloc wk fuel R))) Q) ?s"
    by (rule wp_mono [OF malloc_walk_fits [OF core(1,2) wk R]])
      (use found grow in \<open>auto simp: wp_simps fits_def split: option.splits\<close>)
  then show ?thesis using core(3) sz(1) by (simp add: wp_simps Let_def sz(2) [symmetric])
qed

lemma round_up_id: "n mod k = 0 \<Longrightarrow> round_up k n = n"
  by (simp add: round_up_def)

lemma malloc_wp:
  assumes inv: "heap_inv s xs" and wk: "length xs + 2 < wk" and sz: "0 < sz" "R = round_up 16 sz" "sz + 8192 \<le> 2 ^ 64"
    and L: "L = round_up 4096 (R + 48)" "2 * L < heap_end s" and env: "heap_env s (14 * (L div 4096))"
  shows "wp (malloc wk (Suc (Suc (Suc fuel))) sz) (malloc_spec (used_blocks s xs) R) s"
proof -
  have R: "R mod 16 = 0" "sz \<le> R" "R < sz + 16" using round_up_props [of 16 sz] sz by auto
  have L2: "R + 48 \<le> L" "L mod 4096 = 0" using round_up_props [of 4096 "R + 48"] R sz L(1) by auto
  have "4096 \<le> L" using L2 by (metis dvd_eq_mod_eq_0 dvd_imp_le add_gr_0 less_le_trans zero_less_numeral)
  have R48: "R + 48 < 18446744073709551616" "R + 48 + 4096 \<le> 18446744073709551616" "0 < R"
    using R sz by auto
  have rr: "R = round_up 16 R" using R(1) by (simp add: round_up_id)
  let ?U = "used_blocks s xs" and ?k = "7 * (L div 4096)"
  have last: "fits t R (last ys)" if "is_free (hmem t (last ys))" "R + 48 < seg_length (hmem t (last ys))" for t ys
    using that by (simp add: fits_def)
  have third: "wp (malloc wk (Suc fuel) R) (malloc_spec ?U R) (u\<lparr>heap_lock := False\<rparr>)"
    if u: "heap_core u zs" "successively (no_free_pair (hmem u)) zs" "used_blocks u zs = ?U" "length zs < wk"
      "is_free (hmem u (last zs))" "R + 48 < seg_length (hmem u (last zs))" for u zs
  proof (rule malloc_step [of _ zs, OF _ u(4) R48(3) rr R(1) R48(1)])
    show "heap_inv (u\<lparr>heap_lock := False\<rparr>) zs" using u by (simp add: heap_inv_def)
    have "last zs \<in> set zs" using heap_coreD(9) [OF u(1)] by simp
    moreover assume "\<forall>a \<in> set zs. \<not> fits (u\<lparr>heap_lock := False\<rparr>) R a"
    ultimately show "wp (expand_heap R) (\<lambda>_ t. wp (malloc wk fuel R) (malloc_spec ?U R) (t\<lparr>heap_lock := False\<rparr>))
      (u\<lparr>heap_lock := False, heap_lock := True\<rparr>)"
      using u(5,6) by (auto simp: fits_def)
  qed (use u in simp)
  have second: "wp (malloc wk (Suc (Suc fuel)) R) (malloc_spec ?U R) (t\<lparr>heap_lock := False\<rparr>)"
    if t: "heap_core t ys" "successively (no_free_pair (hmem t)) ys" "used_blocks t ys = ?U" "Suc (length ys) < wk"
      "is_free (hmem t (last ys))" "L - 48 \<le> seg_length (hmem t (last ys))" "L < heap_end t" "heap_env t ?k" for t ys
  proof (rule malloc_step [of _ ys, OF _ _ R48(3) rr R(1) R48(1)])
    show "heap_inv (t\<lparr>heap_lock := False\<rparr>) ys" "length ys < wk" using t by (simp_all add: heap_inv_def)
    let ?t = "t\<lparr>heap_lock := False, heap_lock := True\<rparr>"
    have g: "wp (expand_heap R) (\<lambda>_ u. \<exists>zs. grown ?t ys L (L - 48) 0 u zs) ?t"
      by (rule expand_heap_wp) (use t L(1) R48(2) in \<open>simp_all add: heap_env_def\<close>)
    show "wp (expand_heap R) (\<lambda>_ u. wp (malloc wk (Suc fuel) R) (malloc_spec ?U R) (u\<lparr>heap_lock := False\<rparr>)) ?t"
    proof (rule wp_mono [OF g], elim exE)
      fix u zs assume "grown ?t ys L (L - 48) 0 u zs"
      then show "wp (malloc wk (Suc fuel) R) (malloc_spec ?U R) (u\<lparr>heap_lock := False\<rparr>)"
        using t L2(1) \<open>4096 \<le> L\<close> by (intro third [of _ zs]) (auto simp: grown_def)
    qed
  qed (use t in simp)
  show ?thesis
  proof (rule malloc_step [OF inv _ sz(1,2) R(1) R48(1)])
    show "length xs < wk" using wk by simp
    let ?s = "s\<lparr>heap_lock := True\<rparr>"
    have g: "wp (expand_heap R) (\<lambda>_ t. \<exists>ys. grown ?s xs L (L - 48) ?k t ys) ?s"
      by (rule expand_heap_wp) (use inv L R48(2) env in \<open>simp_all add: heap_inv_def heap_env_def\<close>)
    show "wp (expand_heap R) (\<lambda>_ t. wp (malloc wk (Suc (Suc fuel)) R) (malloc_spec ?U R) (t\<lparr>heap_lock := False\<rparr>)) ?s"
    proof (rule wp_mono [OF g], elim exE)
      fix t ys assume "grown ?s xs L (L - 48) ?k t ys"
      then show "wp (malloc wk (Suc (Suc fuel)) R) (malloc_spec ?U R) (t\<lparr>heap_lock := False\<rparr>)"
        using wk L(2) by (intro second [of _ ys]) (auto simp: grown_def)
    qed
  qed
qed

subsection \<open>The data in the blocks\<close>

lemma keeps_hread [keeps_intros]: "keeps f (hread p)"
  by (auto simp: keeps_def hread_def split: option.splits if_splits)

lemma keeps_hwrite [keeps_intros]: "(\<And>s m. f (s\<lparr>hmem := m\<rparr>) = f s) \<Longrightarrow> keeps f (hwrite p g)"
  by (auto simp: keeps_def hwrite_def split: option.splits if_splits)

lemma keeps_hdata_split [keeps_intros]: "keeps hdata (split_segment a sz)"
  unfolding split_segment_def Let_def by (intro keeps_intros; simp)

lemma keeps_hdata_take [keeps_intros]: "keeps hdata (take_segment a)"
  unfolding take_segment_def by (intro keeps_intros; simp)

lemma keeps_hdata_expand [keeps_intros]: "keeps hdata (expand_heap len)"
  unfolding expand_heap_def expand_link_def heap_map_def Let_def by (intro keeps_intros; simp)

lemma keeps_hdata_walk [keeps_intros]: "keeps hdata (malloc_walk wk p sz)"
proof (induction wk arbitrary: p)
  case (Suc wk)
  then show ?case by (cases p) (simp_all, (intro keeps_intros; simp)+)
qed (simp add: keeps_stop)

lemma keeps_hdata_malloc [keeps_intros]: "keeps hdata (malloc wk fuel sz)"
proof (induction fuel arbitrary: sz)
  case (Suc fuel)
  then show ?case by (simp add: Let_def) (intro keeps_intros impI conjI; simp)
qed (simp add: keeps_stop)

lemma keeps_hdata_free [keeps_intros]: "keeps hdata (free p)"
  unfolding free_def merge_last_and_this_to_next_def merge_last_to_this_def merge_this_to_next_def Let_def
  by (intro keeps_intros; simp)

subsection \<open>Properties\<close>

lemma used_blocks_apart:
  assumes inv: "heap_inv s xs" and u: "(a, n) \<in> used_blocks s xs" "(b, k) \<in> used_blocks s xs" "a \<noteq> b"
  shows "a + 48 + n \<le> b \<or> b + 48 + k \<le> a"
proof -
  have so: "sorted_wrt (below (hmem s)) xs" using inv heap_coreD(1) by (simp add: heap_inv_def)
  have m: "a \<in> set xs" "b \<in> set xs" "n = seg_length (hmem s a)" "k = seg_length (hmem s b)"
    using u by (auto simp: used_blocks_def dest: list.set_sel(2) [rotated])
  then obtain i j where ij: "i < length xs" "j < length xs" "a = xs ! i" "b = xs ! j" by (auto simp: in_set_conv_nth)
  then consider "i < j" | "j < i" using u(3) by fastforce
  then show ?thesis
    using so ij m(3,4) by cases (auto simp: sorted_wrt_iff_nth_less seg_end_def)
qed

lemma page_loop_one: "page_loop body 4096 0 = seqc (body 0) (ret ())"
  by (intro ext) (simp add: page_loop.simps [of _ _ 0] page_loop.simps [of _ _ 4096])

lemma vmm_map_one_wp:
  assumes "vmm_inv (frame k) s" "3 \<le> card (free_pages (vpmm s))"
    and Q: "\<And>t. vmm_inv (frame k) t \<Longrightarrow> vmm_rest s t \<Longrightarrow>
      card (free_pages (vpmm s)) \<le> card (free_pages (vpmm t)) + 3 \<Longrightarrow> Q EOK t"
  shows "wp (vmm_map k \<lparr>range_address = va, range_size = PAGE_SIZE\<rparr> \<lparr>range_address = pa, range_size = PAGE_SIZE\<rparr> fl) Q s"
  by (simp add: vmm_map_def PAGE_SIZE_def page_loop_one wp_simps,
      rule wp_mono [OF vmm_map_page_wp [OF assms(1,2)]], rule Q, auto simp: entry_upd_def)

lemma vmm_map_new_page_wp:
  assumes inv: "vmm_inv (frame (kernel_space s)) s" and free: "4 + c \<le> card (free_pages (vpmm s))"
    and Q: "\<And>t. vmm_inv (frame (kernel_space s)) t \<Longrightarrow> kernel_space t = kernel_space s \<Longrightarrow> c \<le> card (free_pages (vpmm t)) \<Longrightarrow> Q EOK t"
  shows "wp vmm_allocate_page (\<lambda>pa u. wp (vmm_map (kernel_space u) \<lparr>range_address = va, range_size = PAGE_SIZE\<rparr>
    \<lparr>range_address = pa, range_size = PAGE_SIZE\<rparr> fl) Q u) s"
proof (rule vmm_allocate_page_wp [OF inv])
  show "free_pages (vpmm s) \<noteq> {}" using free by auto
  fix g p
  assume g: "g \<in> free_pages (vpmm s)" and p: "pmm_inv p"
    "free_pages p = free_pages (vpmm s) - {g}" "highest_page_index p = highest_page_index (vpmm s)"
  note w = walk_vpmm [of p s]
  have inv_u: "vmm_inv (frame (kernel_space s)) (s\<lparr>vpmm := p\<rparr>)" using inv p unfolding vmm_inv_def w by auto
  have c: "card (free_pages p) = card (free_pages (vpmm s)) - 1" using p(2) g by simp
  show "wp (vmm_map (kernel_space (s\<lparr>vpmm := p\<rparr>)) \<lparr>range_address = va, range_size = PAGE_SIZE\<rparr>
    \<lparr>range_address = g * 4096, range_size = PAGE_SIZE\<rparr> fl) Q (s\<lparr>vpmm := p\<rparr>)"
    by (rule vmm_map_one_wp) (use inv_u c free in \<open>auto simp: vmm_rest_def intro!: Q\<close>)
qed

lemma heap_init_wp:
  assumes env: "heap_env s (4 + c)" and hi: "high mod 4096 = 0" "4096 \<le> high" "high < 2 ^ 64" and lk: "\<not> heap_lock s"
  shows "wp (heap_init high low) (\<lambda>_ t. heap_inv t [high - 48, high - 4096] \<and>
    used_blocks t [high - 48, high - 4096] = {} \<and> heap_env t c \<and> heap_end t = high - 4096) s"
proof -
  let ?k = "kernel_space (hvmm s)"
  have inv: "vmm_inv (frame ?k) (hvmm s)" and fr: "4 + c \<le> card (free_pages (vpmm (hvmm s)))"
    using env by (auto simp: heap_env_def)
  obtain q where q: "high = (q + 1) * 4096"
    using hi(1,2) by (metis One_nat_def add.commute div_greater_zero_iff div_mult_mod_eq gr0_conv_Suc
        add.right_neutral less_le_trans mult.commute plus_1_eq_Suc zero_less_numeral)
  then have q: "high = q * 4096 + 4096" by simp
  have b: "q * 4096 + 4096 < 2 ^ 64" using hi(3) q by simp
  have w: "u64_sub high PAGE_SIZE = q * 4096" "u64_sub PAGE_SIZE HDR = 4048" "u64_add (q * 4096) 4048 = q * 4096 + 4048"
    "u64_sub 4048 HDR = 4000"
    using b unfolding q by (simp_all add: u64_sub_small u64_add_small PAGE_SIZE_def HDR_def)
  have w': "u64_add (u64_sub (q * 4096 + 4048) PAGE_SIZE) HDR = q * 4096"
  proof -
    have "u64_add (u64_sub (q * 4096 + 4048) PAGE_SIZE) HDR =
        (q * 4096 + 4048 + (2 ^ 64 - 4096) + 48) mod 2 ^ 64"
      by (simp only: u64_add_def u64_sub_def u64_def PAGE_SIZE_def HDR_def mod_add_left_eq) simp
    also have "\<dots> = (q * 4096 + 2 ^ 64) mod 2 ^ 64" by simp
    also have "\<dots> = q * 4096" using b by simp
    finally show ?thesis .
  qed
  have "q * 4096 = q * 256 * 16" "q * 4096 + 4048 = (q * 256 + 253) * 16" by simp_all
  then have d16: "q * 4096 mod 16 = 0" "(q * 4096 + 4048) mod 16 = 0" by (metis mod_mult_self2_is_0)+
  show ?thesis
    unfolding heap_init_def
    by (simp add: wp_simps w w' Let_def, rule vmm_map_new_page_wp [OF inv fr])
      (use d16 lk hi(3) q in \<open>auto simp: wp_simps w w' heap_inv_def heap_core_def segs_inv_def seg_end_def
        used_blocks_def heap_env_def no_free_pair_def\<close>)
qed

definition heap_zero :: "vmm_state \<Rightarrow> heap_state" where
  "heap_zero v = \<lparr>hvmm = v, heap_end = 0, heap_low = 0, last_segment = None, main_segment = None, total_size = 0,
     free_size = 0, used_size = 0, heap_lock = False, hmem = (\<lambda>_. zero_header), hdata = (\<lambda>_. 0)\<rparr>"

lemma heap_zero_example:
  obtains v where "heap_env (heap_zero v) 40" "\<not> heap_lock (heap_zero v)"
proof -
  obtain s where s: "vmm_inv 2 s" "40 \<le> card (free_pages (vpmm s))" by (rule vmm_example)
  have "next_table (s\<lparr>kernel_space := 8192\<rparr>) = next_table s" by (intro ext) (simp add: next_table_def)
  then have w: "walk (s\<lparr>kernel_space := 8192\<rparr>) = walk s" by (intro ext) (simp add: walk_def)
  then have "vmm_inv 2 (s\<lparr>kernel_space := 8192\<rparr>)" using s(1) by (simp add: vmm_inv_def)
  then show ?thesis using that [of "s\<lparr>kernel_space := 8192\<rparr>"] s(2) by (simp add: heap_env_def heap_zero_def)
qed

lemma heap_example:
  obtains s where "heap_inv s [1048528, 1044480]" "used_blocks s [1048528, 1044480] = {}" "heap_env s 36"
    "heap_end s = 1044480"
proof -
  obtain v where v: "heap_env (heap_zero v) 40" "\<not> heap_lock (heap_zero v)" by (rule heap_zero_example)
  then have "heap_env (heap_zero v) (4 + 36)" by simp
  from wp_exI [OF heap_init_wp [OF this, of 1048576 0]] v(2) that show ?thesis by auto
qed

lemma heap_used_example:
  obtains s xs a where "heap_inv s xs" "(a, 112) \<in> used_blocks s xs"
proof -
  obtain s where s: "heap_inv s [1048528, 1044480]" "used_blocks s [1048528, 1044480] = {}" "heap_env s 36"
    "heap_end s = 1044480" by (rule heap_example)
  have e: "heap_env s (14 * (4096 div 4096))" using s(3) by (simp add: heap_env_def)
  have "round_up 16 100 = 112" "round_up 4096 (112 + 48) = 4096" by (simp_all add: round_up_def u64_add_def u64_sub_def u64_def)
  with malloc_wp [of s _ 5 100 112 4096 3, OF s(1) _ _ _ _ _ _ e] s(4)
  obtain a t ys where "heap_inv t ys" "used_blocks t ys = insert (a, 112) (used_blocks s [1048528, 1044480])"
    by (auto simp: malloc_spec_def dest!: wp_exI)
  then show ?thesis by (intro that [of t ys a]) auto
qed







end
