(* ===== verification/Kstring.thy ===== *)
theory Kstring
  imports Kot_Prelude "HOL-Library.Signed_Division"
begin

section \<open>The kernel's memory and string routines\<close>

text \<open>
  Model of \<^verbatim>\<open>lib/memory.c\<close> and \<^verbatim>\<open>lib/string.h\<close> over a byte-addressed memory. The routines that
  scan for a terminator are partial functions: they have no result on a memory without one.
  \<^verbatim>\<open>char\<close> is signed, as on amd64, so comparisons of characters go through \<^const>\<open>sint\<close>, and
  \<^verbatim>\<open>int\<close> is a HOL integer kept in the 32-bit range by the statements that use it.
\<close>

type_synonym mem = "nat \<Rightarrow> 8 word"

subsection \<open>Memory\<close>

function memcpy_loop :: "mem \<Rightarrow> nat \<Rightarrow> nat \<Rightarrow> nat \<Rightarrow> nat \<Rightarrow> mem" where
  "memcpy_loop m dest src n i =
     (if i < n then memcpy_loop (m(dest + i := m (src + i))) dest src n (i + 1) else m)"
  by pat_completeness auto
termination
  by (relation "measure (\<lambda>(m, d, s, n, i). n - i)") auto

definition memcpy :: "mem \<Rightarrow> nat \<Rightarrow> nat \<Rightarrow> nat \<Rightarrow> mem" where
  "memcpy m dest src n = memcpy_loop m dest src n 0"

function memset_loop :: "mem \<Rightarrow> nat \<Rightarrow> 8 word \<Rightarrow> nat \<Rightarrow> nat \<Rightarrow> mem" where
  "memset_loop m s c n i = (if i < n then memset_loop (m(s + i := c)) s c n (i + 1) else m)"
  by pat_completeness auto
termination
  by (relation "measure (\<lambda>(m, s, c, n, i). n - i)") auto

definition memset :: "mem \<Rightarrow> nat \<Rightarrow> 8 word \<Rightarrow> nat \<Rightarrow> mem" where
  "memset m s c n = memset_loop m s c n 0"

text \<open>A store of \<open>k\<close> bytes, the least significant first.\<close>

fun put_le :: "nat \<Rightarrow> mem \<Rightarrow> nat \<Rightarrow> 'a::len word \<Rightarrow> mem" where
  "put_le 0 m a v = m"
| "put_le (Suc k) m a v = put_le k (m(a := ucast v)) (a + 1) (drop_bit 8 v)"

function memset_wide_loop :: "nat \<Rightarrow> mem \<Rightarrow> nat \<Rightarrow> 'a::len word \<Rightarrow> nat \<Rightarrow> nat \<Rightarrow> mem" where
  "memset_wide_loop k m s c n i =
     (if i < n then memset_wide_loop k (put_le k m (s + k * i) c) s c n (i + 1) else m)"
  by pat_completeness auto
termination
  by (relation "measure (\<lambda>(k, m, s, c, n, i). n - i)") auto

definition memset16 :: "mem \<Rightarrow> nat \<Rightarrow> 16 word \<Rightarrow> nat \<Rightarrow> mem" where
  "memset16 m s c n = memset_wide_loop 2 m s c n 0"

definition memset32 :: "mem \<Rightarrow> nat \<Rightarrow> 32 word \<Rightarrow> nat \<Rightarrow> mem" where
  "memset32 m s c n = memset_wide_loop 4 m s c n 0"

definition memset64 :: "mem \<Rightarrow> nat \<Rightarrow> 64 word \<Rightarrow> nat \<Rightarrow> mem" where
  "memset64 m s c n = memset_wide_loop 8 m s c n 0"

fun memmove_back :: "mem \<Rightarrow> nat \<Rightarrow> nat \<Rightarrow> nat \<Rightarrow> mem" where
  "memmove_back m dest src 0 = m"
| "memmove_back m dest src (Suc i) = memmove_back (m(dest + i := m (src + i))) dest src i"

definition memmove :: "mem \<Rightarrow> nat \<Rightarrow> nat \<Rightarrow> nat \<Rightarrow> mem" where
  "memmove m dest src n =
     (if src > dest then memcpy_loop m dest src n 0
      else if src < dest then memmove_back m dest src n
      else m)"

function memcmp_loop :: "mem \<Rightarrow> nat \<Rightarrow> nat \<Rightarrow> nat \<Rightarrow> nat \<Rightarrow> int" where
  "memcmp_loop m s1 s2 n i =
     (if i < n then
        if m (s1 + i) \<noteq> m (s2 + i) then if m (s1 + i) < m (s2 + i) then - 1 else 1
        else memcmp_loop m s1 s2 n (i + 1)
      else 0)"
  by pat_completeness auto
termination
  by (relation "measure (\<lambda>(m, s1, s2, n, i). n - i)") auto

definition memcmp :: "mem \<Rightarrow> nat \<Rightarrow> nat \<Rightarrow> nat \<Rightarrow> int" where
  "memcmp m s1 s2 n = memcmp_loop m s1 s2 n 0"

declare memcpy_loop.simps [simp del] memset_loop.simps [simp del] memset_wide_loop.simps [simp del]
  memcmp_loop.simps [simp del]

subsection \<open>Strings\<close>

partial_function (option) strlen_loop :: "mem \<Rightarrow> nat \<Rightarrow> nat option" where
  "strlen_loop m s = (if m s \<noteq> 0 then strlen_loop m (s + 1) else Some s)"

definition strlen :: "mem \<Rightarrow> nat \<Rightarrow> nat option" where
  "strlen m str = map_option (\<lambda>s. s - str) (strlen_loop m str)"

partial_function (option) strcmp :: "mem \<Rightarrow> nat \<Rightarrow> nat \<Rightarrow> int option" where
  "strcmp m str1 str2 =
     (if m str1 \<noteq> 0 \<and> m str2 \<noteq> 0 \<and> m str1 = m str2 then strcmp m (str1 + 1) (str2 + 1)
      else if m str1 = m str2 then Some 0
      else if sint (m str1) < sint (m str2) then Some (- 1)
      else Some 1)"

function strncmp_loop :: "mem \<Rightarrow> nat \<Rightarrow> nat \<Rightarrow> nat \<Rightarrow> nat \<Rightarrow> int" where
  "strncmp_loop m s1 s2 n i =
     (if i < n then
        if m (s1 + i) \<noteq> m (s2 + i) then uint (m (s1 + i)) - uint (m (s2 + i))
        else if m (s1 + i) = 0 then 0
        else strncmp_loop m s1 s2 n (i + 1)
      else 0)"
  by pat_completeness auto
termination
  by (relation "measure (\<lambda>(m, s1, s2, n, i). n - i)") auto

declare strncmp_loop.simps [simp del]

definition strncmp :: "mem \<Rightarrow> nat \<Rightarrow> nat \<Rightarrow> nat \<Rightarrow> int" where
  "strncmp m s1 s2 n = strncmp_loop m s1 s2 n 0"

text \<open>The pointer results are options inside the option of termination: \<^verbatim>\<open>NULL\<close> is \<open>Some None\<close>.\<close>

partial_function (option) strstr_loop :: "mem \<Rightarrow> nat \<Rightarrow> nat \<Rightarrow> nat \<Rightarrow> nat option option" where
  "strstr_loop m a b n =
     (if m a \<noteq> 0 then if strncmp m a b n = 0 then Some (Some a) else strstr_loop m (a + 1) b n
      else Some None)"

definition strstr :: "mem \<Rightarrow> nat \<Rightarrow> nat \<Rightarrow> nat option option" where
  "strstr m a b = Option.bind (strlen m b) (\<lambda>n. strstr_loop m a b n)"

partial_function (option) strchr_loop :: "mem \<Rightarrow> nat \<Rightarrow> 8 word \<Rightarrow> nat option option" where
  "strchr_loop m p c =
     (if m p \<noteq> 0 then if m p = c then Some (Some p) else strchr_loop m (p + 1) c else Some None)"

definition strchr :: "mem \<Rightarrow> nat \<Rightarrow> int \<Rightarrow> nat option option" where
  "strchr m p ch = strchr_loop m p (word_of_int ch)"

text \<open>\<^verbatim>\<open>strrchr\<close> compares the promoted character with the whole \<^verbatim>\<open>int\<close>.\<close>

partial_function (option) strrchr_loop :: "mem \<Rightarrow> nat \<Rightarrow> int \<Rightarrow> nat option \<Rightarrow> nat option option" where
  "strrchr_loop m p ch last_occurrence =
     (if m p \<noteq> 0
      then strrchr_loop m (p + 1) ch (if sint (m p) = ch then Some p else last_occurrence)
      else Some last_occurrence)"

definition strrchr :: "mem \<Rightarrow> nat \<Rightarrow> int \<Rightarrow> nat option option" where
  "strrchr m p ch = strrchr_loop m p ch None"

definition to_lower :: "8 word \<Rightarrow> 8 word" where
  "to_lower c = (if sint c \<ge> 65 \<and> sint c \<le> 90 then c + 32 else c)"

definition to_upper :: "8 word \<Rightarrow> 8 word" where
  "to_upper c = (if sint c \<ge> 97 \<and> sint c \<le> 122 then c - 32 else c)"

text \<open>The copying loop of \<^verbatim>\<open>strcpy\<close> and \<^verbatim>\<open>strcat\<close>, with the final terminator.\<close>

partial_function (option) strcpy_loop :: "mem \<Rightarrow> nat \<Rightarrow> nat \<Rightarrow> mem option" where
  "strcpy_loop m destination source =
     (if m source \<noteq> 0 then strcpy_loop (m(destination := m source)) (destination + 1) (source + 1)
      else Some (m(destination := 0)))"

definition strcat :: "mem \<Rightarrow> nat \<Rightarrow> nat \<Rightarrow> mem option" where
  "strcat m destination source =
     Option.bind (strlen m destination) (\<lambda>n. strcpy_loop m (destination + n) source)"

definition strcpy :: "mem \<Rightarrow> nat option \<Rightarrow> nat \<Rightarrow> (nat option \<times> mem) option" where
  "strcpy m destination source =
     (case destination of None \<Rightarrow> Some (None, m)
      | Some d \<Rightarrow> map_option (\<lambda>m'. (Some d, m')) (strcpy_loop m d source))"

fun strncpy_loop :: "mem \<Rightarrow> nat \<Rightarrow> nat \<Rightarrow> nat \<Rightarrow> mem" where
  "strncpy_loop m destination source 0 = m(destination := 0)"
| "strncpy_loop m destination source (Suc num) =
     (if m source \<noteq> 0 then strncpy_loop (m(destination := m source)) (destination + 1) (source + 1) num
      else m(destination := 0))"

definition strncpy :: "mem \<Rightarrow> nat option \<Rightarrow> nat \<Rightarrow> nat \<Rightarrow> nat option \<times> mem" where
  "strncpy m destination source num =
     (case destination of None \<Rightarrow> (None, m)
      | Some d \<Rightarrow> (Some d, strncpy_loop m d source num))"

subsection \<open>Numbers\<close>

abbreviation INT_MAX :: int where "INT_MAX \<equiv> 2147483647"
abbreviation INT_MIN :: int where "INT_MIN \<equiv> - 2147483648"

partial_function (option) atoi_spaces :: "mem \<Rightarrow> nat \<Rightarrow> nat \<Rightarrow> nat option" where
  "atoi_spaces m str i = (if m (str + i) = 32 then atoi_spaces m str (i + 1) else Some i)"

partial_function (option) atoi_digits :: "mem \<Rightarrow> nat \<Rightarrow> int \<Rightarrow> int \<Rightarrow> nat \<Rightarrow> int option" where
  "atoi_digits m str sign base i =
     (let c = sint (m (str + i)) in
      if c \<ge> 48 \<and> c \<le> 57 then
        if base > INT_MAX div 10 \<or> (base = INT_MAX div 10 \<and> c - 48 > 7) then
          if sign = 1 then Some INT_MAX else Some INT_MIN
        else atoi_digits m str sign (10 * base + (c - 48)) (i + 1)
      else Some (base * sign))"

definition atoi :: "mem \<Rightarrow> nat \<Rightarrow> int option" where
  "atoi m str =
     Option.bind (atoi_spaces m str 0) (\<lambda>i.
     if m (str + i) = 45 \<or> m (str + i) = 43
     then atoi_digits m str (1 - 2 * (if m (str + i) = 45 then 1 else 0)) 0 (i + 1)
     else atoi_digits m str 1 0 i)"

function reverse_loop :: "mem \<Rightarrow> nat \<Rightarrow> int \<Rightarrow> int \<Rightarrow> mem" where
  "reverse_loop m str start finish =
     (if start < finish then
        let temp = m (str + nat start);
            m1 = m(str + nat start := m (str + nat finish));
            m2 = m1(str + nat finish := temp)
        in reverse_loop m2 str (start + 1) (finish - 1)
      else m)"
  by pat_completeness auto
termination
  by (relation "measure (\<lambda>(m, str, start, finish). nat (finish - start))") auto

declare reverse_loop.simps [simp del]

definition reverse :: "mem \<Rightarrow> nat \<Rightarrow> int \<Rightarrow> mem" where
  "reverse m str len = reverse_loop m str 0 (len - 1)"

text \<open>
  Division by a base 0 traps and has no result, like a base 1, for which the loop never ends.
  C's \<^verbatim>\<open>/\<close> and \<^verbatim>\<open>%\<close> round towards zero.
\<close>

partial_function (option) itoa_loop :: "mem \<Rightarrow> nat \<Rightarrow> int \<Rightarrow> int \<Rightarrow> nat \<Rightarrow> (mem \<times> nat) option" where
  "itoa_loop m str num base i =
     (if num \<noteq> 0 then
        if base = 0 then None
        else
          let rem = num smod base in
          itoa_loop (m(str + i := word_of_int (if rem > 9 then (rem - 10) + 97 else rem + 48)))
            str (num sdiv base) base (i + 1)
      else Some (m, i))"

definition itoa :: "int \<Rightarrow> mem \<Rightarrow> nat \<Rightarrow> int \<Rightarrow> mem option" where
  "itoa num m str base =
     (if num = 0 then Some (m(str := 48, str + 1 := 0))
      else
        let isNegative = num < 0 \<and> base \<noteq> 10;
            num = (if isNegative then - num else num)
        in map_option (\<lambda>(m, i).
             let (m, i) = (if isNegative \<and> base = 10 then (m(str + i := 45), i + 1) else (m, i));
                 m = m(str + i := 0)
             in reverse m str (int i)) (itoa_loop m str num base 0))"

end
