(* ===== verification/Kstring_Correct.thy ===== *)
theory Kstring_Correct
  imports Kstring "HOL-Library.Sublist"
begin

section \<open>Correctness of the memory and string routines\<close>

text \<open>
  The loops are shown equal to simultaneous copies and to operations on lists of bytes.
  \<open>cstr m p xs\<close> says that \<open>m\<close> holds the C string \<open>xs\<close> at \<open>p\<close>; the lemmas turn each string routine
  on such memories into a list function, which also shows that the routine returns.
\<close>

subsection \<open>Copying\<close>

definition copied :: "mem \<Rightarrow> nat \<Rightarrow> nat \<Rightarrow> nat \<Rightarrow> mem" where
  "copied m dest src n = (\<lambda>a. if dest \<le> a \<and> a < dest + n then m (src + (a - dest)) else m a)"

lemma memcpy_loop_eq:
  assumes "dest \<le> src \<or> src + n \<le> dest"
  shows "memcpy_loop m dest src n i = (\<lambda>a. if dest + i \<le> a \<and> a < dest + n then m (src + (a - dest)) else m a)"
  using assms
proof (induction m dest src n i rule: memcpy_loop.induct)
  case (1 m dest src n i)
  show ?case
  proof (cases "i < n")
    case True
    then have "memcpy_loop m dest src n i = memcpy_loop (m(dest + i := m (src + i))) dest src n (i + 1)"
      by (simp add: memcpy_loop.simps [of m dest src n i])
    also have "\<dots> = (\<lambda>a. if dest + (i + 1) \<le> a \<and> a < dest + n then (m(dest + i := m (src + i))) (src + (a - dest))
        else (m(dest + i := m (src + i))) a)"
      by (rule 1(1) [OF True 1(2)])
    finally show ?thesis using True 1(2) by (auto simp: fun_eq_iff)
  qed (auto simp: memcpy_loop.simps fun_eq_iff)
qed

lemma memmove_back_eq:
  "src < dest \<Longrightarrow> memmove_back m dest src n = copied m dest src n"
proof (induction m dest src n rule: memmove_back.induct)
  case (2 m dest src i)
  then show ?case by (fastforce simp: copied_def fun_eq_iff)
qed (auto simp: copied_def fun_eq_iff)

text \<open>
  C23: \<^verbatim>\<open>memmove\<close> copies as if it first read all source bytes: the \<open>n\<close> bytes at \<open>dest\<close> become the old
  bytes at \<open>src\<close>, also when the ranges overlap, and no other byte changes.
\<close>

theorem memmove_correct: "memmove m dest src n = copied m dest src n"
  using memcpy_loop_eq [of dest src n m 0] memmove_back_eq [of src dest m n]
  by (auto simp: memmove_def copied_def fun_eq_iff)

lemma memcpy_eq: "src + n \<le> dest \<or> dest \<le> src \<Longrightarrow> memcpy m dest src n = copied m dest src n"
  using memcpy_loop_eq [of dest src n m 0] by (auto simp: memcpy_def copied_def)

lemma memset_eq: "memset m s c n = (\<lambda>a. if s \<le> a \<and> a < s + n then c else m a)"
proof -
  have "memset_loop m s c n i = (\<lambda>a. if s + i \<le> a \<and> a < s + n then c else m a)" for i
  proof (induction m s c n i rule: memset_loop.induct)
    case (1 m s c n i)
    show ?case
    proof (cases "i < n")
      case True
      then have "memset_loop m s c n i = memset_loop (m(s + i := c)) s c n (i + 1)"
        by (simp add: memset_loop.simps [of m s c n i])
      also have "\<dots> = (\<lambda>a. if s + (i + 1) \<le> a \<and> a < s + n then c else (m(s + i := c)) a)"
        by (rule 1 [OF True])
      finally show ?thesis using True by (auto simp: fun_eq_iff)
    qed (auto simp: memset_loop.simps fun_eq_iff)
  qed
  from this [of 0] show ?thesis by (simp add: memset_def)
qed

lemma memcmp_zero: "memcmp m s1 s2 n = 0 \<longleftrightarrow> (\<forall>i<n. m (s1 + i) = m (s2 + i))"
proof -
  have "memcmp_loop m s1 s2 n i = 0 \<longleftrightarrow> (\<forall>k. i \<le> k \<and> k < n \<longrightarrow> m (s1 + k) = m (s2 + k))" for i
  proof (induction m s1 s2 n i rule: memcmp_loop.induct)
    case (1 m s1 s2 n i)
    then show ?case by (subst memcmp_loop.simps) (auto simp: Suc_le_eq nat_less_le dest: le_neq_implies_less)
  qed
  from this [of 0] show ?thesis by (simp add: memcmp_def)
qed

subsection \<open>C strings\<close>

fun cstr :: "mem \<Rightarrow> nat \<Rightarrow> 8 word list \<Rightarrow> bool" where
  "cstr m p [] = (m p = 0)"
| "cstr m p (x # xs) = (m p = x \<and> x \<noteq> 0 \<and> cstr m (p + 1) xs)"

text \<open>A memory that starts with the given bytes.\<close>

definition mem_of :: "8 word list \<Rightarrow> mem" where
  "mem_of xs = (\<lambda>a. if a < length xs then xs ! a else 0)"

lemma cstr_iff: "cstr m p xs \<longleftrightarrow> (\<forall>i<length xs. m (p + i) = xs ! i \<and> xs ! i \<noteq> 0) \<and> m (p + length xs) = 0"
  by (induction xs arbitrary: p) (auto simp: All_less_Suc2)

lemma cstr_cong: "(\<And>a. p \<le> a \<Longrightarrow> a \<le> p + length xs \<Longrightarrow> m' a = m a) \<Longrightarrow> cstr m' p xs = cstr m p xs"
  by (simp add: cstr_iff)

lemma cstr_drop: "cstr m p xs \<Longrightarrow> k \<le> length xs \<Longrightarrow> cstr m (p + k) (drop k xs)"
  by (auto simp: cstr_iff add.assoc)

lemma strlen_loop_cstr: "cstr m p xs \<Longrightarrow> strlen_loop m p = Some (p + length xs)"
  by (induction xs arbitrary: p) (subst strlen_loop.simps, auto)+

lemma strlen_cstr [simp]: "cstr m p xs \<Longrightarrow> strlen m p = Some (length xs)"
  by (simp add: strlen_def strlen_loop_cstr)

lemma strcmp_zero: "cstr m p xs \<Longrightarrow> cstr m q ys \<Longrightarrow> \<exists>r. strcmp m p q = Some r \<and> (r = 0 \<longleftrightarrow> xs = ys)"
proof (induction xs arbitrary: p q ys)
  case Nil
  then show ?case by (cases ys) (subst strcmp.simps, auto)+
next
  case (Cons x xs)
  then show ?case by (cases ys) (subst strcmp.simps, auto)+
qed

lemma uint_eq: "uint a = uint b \<longleftrightarrow> a = b" "uint a = 0 \<longleftrightarrow> a = 0" for a b :: "8 word"
  by (transfer, simp)+

lemma strncmp_prefix:
  assumes "cstr m p xs" "cstr m q ys"
  shows "strncmp m p q (length ys) = 0 \<longleftrightarrow> prefix ys xs"
proof -
  have "strncmp_loop m p q (length ys) i = 0 \<longleftrightarrow> prefix (drop i ys) (drop i xs)"
    if "i \<le> length ys" "i \<le> length xs" for i
    using that
  proof (induction "length ys - i" arbitrary: i)
    case 0
    then show ?case by (simp add: strncmp_loop.simps)
  next
    case (Suc n)
    then have i: "i < length ys" by simp
    have y: "m (q + i) = ys ! i" "ys ! i \<noteq> 0" "drop i ys = ys ! i # drop (Suc i) ys"
      using assms(2) i by (auto simp: cstr_iff Cons_nth_drop_Suc)
    show ?case
    proof (cases "i < length xs")
      case True
      then have "m (p + i) = xs ! i" "drop i xs = xs ! i # drop (Suc i) xs"
        using assms(1) by (auto simp: cstr_iff Cons_nth_drop_Suc)
      with y Suc True i show ?thesis by (subst strncmp_loop.simps) (auto simp: uint_eq)
    next
      case False
      then have "i = length xs" "m (p + i) = 0" using Suc.prems assms(1) by (auto simp: cstr_iff)
      with y i show ?thesis by (subst strncmp_loop.simps) (auto simp: uint_eq)
    qed
  qed
  from this [of 0] show ?thesis by (simp add: strncmp_def)
qed

lemma strstr_loop_cstr:
  assumes "cstr m a xs" "cstr m b ys"
  shows "strstr_loop m a b (length ys) =
    Some (map_option (\<lambda>k. a + k) (find (\<lambda>k. prefix ys (drop k xs)) [0..<length xs]))"
  using assms(1)
proof (induction xs arbitrary: a)
  case Nil
  then show ?case by (subst strstr_loop.simps) simp
next
  case (Cons x xs)
  have up: "[0..<length (x # xs)] = 0 # map Suc [0..<length xs]" by (simp add: upt_conv_Cons map_Suc_upt del: upt_Suc)
  have "find P (map Suc ks) = map_option Suc (find (\<lambda>k. P (Suc k)) ks)" for P ks
    by (induction ks) auto
  then show ?case
    using Cons strncmp_prefix [OF Cons.prems assms(2)] unfolding up
    by (subst strstr_loop.simps) (auto simp: option.map_comp comp_def)
qed

text \<open>
  C27: \<^verbatim>\<open>strstr\<close> on two C strings returns, and returns the first position of a non-empty haystack from which
  the needle can be read, or \<^verbatim>\<open>NULL\<close> when there is none. (On an empty haystack it returns \<^verbatim>\<open>NULL\<close>
  even for an empty needle.)
\<close>

theorem strstr_correct:
  assumes "cstr m a xs" "cstr m b ys"
  shows "strstr m a b = Some (map_option (\<lambda>k. a + k) (find (\<lambda>k. prefix ys (drop k xs)) [0..<length xs]))"
  using strstr_loop_cstr [OF assms] assms(2) by (simp add: strstr_def)

theorem strstr_correct_witness:
  "strstr (mem_of [97, 98, 98, 99, 0, 98, 99]) 0 5 = Some (Some 2)"
  using strstr_correct [of "mem_of [97, 98, 98, 99, 0, 98, 99]" 0 "[97, 98, 98, 99]" 5 "[98, 99]"]
  by (simp add: mem_of_def upt_rec)

text \<open>Copying strings.\<close>

definition put_string :: "mem \<Rightarrow> nat \<Rightarrow> 8 word list \<Rightarrow> mem" where
  "put_string m d xs =
     (\<lambda>a. if d \<le> a \<and> a < d + length xs then xs ! (a - d) else if a = d + length xs then 0 else m a)"

lemma put_string_Nil: "put_string m d [] = m(d := 0)"
  by (auto simp: put_string_def fun_eq_iff)

lemma put_string_Cons: "put_string (m(d := x)) (d + 1) xs = put_string m d (x # xs)"
  by (auto simp: put_string_def fun_eq_iff nth_Cons' Suc_le_eq)

lemma cstr_put_string: "0 \<notin> set xs \<Longrightarrow> cstr (put_string m d xs) d xs"
  by (auto simp: cstr_iff put_string_def in_set_conv_nth)

lemma cstr_nonzero: "cstr m p xs \<Longrightarrow> 0 \<notin> set xs"
  by (induction xs arbitrary: p) auto

lemma strcpy_loop_cstr:
  assumes "cstr m s xs" "s + length xs < d \<or> d \<le> s"
  shows "strcpy_loop m d s = Some (put_string m d xs)"
  using assms
proof (induction xs arbitrary: m d s)
  case Nil
  then show ?case by (subst strcpy_loop.simps) (simp add: put_string_Nil)
next
  case (Cons x xs)
  have "cstr (m(d := x)) (s + 1) xs = cstr m (s + 1) xs"
    using Cons.prems(2) by (intro cstr_cong) auto
  then have "strcpy_loop (m(d := x)) (d + 1) (s + 1) = Some (put_string (m(d := x)) (d + 1) xs)"
    using Cons.prems by (intro Cons.IH) (auto simp del: fun_upd_apply)
  with Cons.prems show ?case
    by (subst strcpy_loop.simps) (simp add: put_string_Cons [of m d x, symmetric])
qed

lemma strcpy_cstr:
  assumes "cstr m s xs" "s + length xs < d \<or> d \<le> s"
  shows "strcpy m (Some d) s = Some (Some d, put_string m d xs)"
  using strcpy_loop_cstr [OF assms(1)] assms(2) by (auto simp: strcpy_def)

lemma strcat_cstr:
  assumes "cstr m d xs" "cstr m s ys" "s + length ys < d \<or> d + length xs + length ys < s"
  shows "\<exists>m'. strcat m d s = Some m' \<and> cstr m' d (xs @ ys) \<and>
    (\<forall>a. a < d + length xs \<or> d + length xs + length ys < a \<longrightarrow> m' a = m a)"
proof -
  have "strcat m d s = Some (put_string m (d + length xs) ys)"
    using assms strcpy_loop_cstr [OF assms(2), of "d + length xs"] by (auto simp: strcat_def)
  moreover have "cstr (put_string m (d + length xs) ys) d (xs @ ys)"
    using assms(1,2) by (auto simp: cstr_iff put_string_def nth_append)
  ultimately show ?thesis by (auto simp: put_string_def)
qed

lemma strncpy_cstr:
  assumes "cstr m s xs" "s + length xs < d"
  shows "strncpy m (Some d) s num = (Some d, put_string m d (take num xs))"
proof -
  have "strncpy_loop m d s num = put_string m d (take num xs)"
    using assms
  proof (induction num arbitrary: m d s xs)
    case 0
    then show ?case by (simp add: put_string_Nil)
  next
    case (Suc num)
    show ?case
    proof (cases xs)
      case Nil
      then show ?thesis using Suc.prems by (simp add: put_string_Nil)
    next
      case (Cons x ys)
      then have "cstr (m(d := x)) (s + 1) ys = cstr m (s + 1) ys"
        using Suc.prems(2) by (intro cstr_cong) auto
      then have "strncpy_loop (m(d := x)) (d + 1) (s + 1) num = put_string (m(d := x)) (d + 1) (take num ys)"
        using Suc.prems Cons by (intro Suc.IH) (auto simp del: fun_upd_apply)
      with Suc.prems Cons show ?thesis by (simp add: put_string_Cons [of m d x, symmetric])
    qed
  qed
  then show ?thesis by (simp add: strncpy_def)
qed

subsection \<open>Reading numbers\<close>

definition is_digit :: "8 word \<Rightarrow> bool" where
  "is_digit c \<longleftrightarrow> 48 \<le> sint c \<and> sint c \<le> 57"

fun digits_at :: "mem \<Rightarrow> nat \<Rightarrow> 8 word list \<Rightarrow> bool" where
  "digits_at m p [] = (\<not> is_digit (m p))"
| "digits_at m p (d # ds) = (m p = d \<and> is_digit d \<and> digits_at m (p + 1) ds)"

definition digits_value :: "int \<Rightarrow> 8 word list \<Rightarrow> int" where
  "digits_value base ds = foldl (\<lambda>v c. 10 * v + (sint c - 48)) base ds"

lemma digits_value_simps [simp]:
  "digits_value base [] = base"
  "digits_value base (d # ds) = digits_value (10 * base + (sint d - 48)) ds"
  by (simp_all add: digits_value_def)

lemma digits_value_ge: "digits_at m p ds \<Longrightarrow> 0 \<le> base \<Longrightarrow> base \<le> digits_value base ds"
proof (induction ds arbitrary: p base)
  case (Cons d ds)
  then have "10 * base + (sint d - 48) \<le> digits_value (10 * base + (sint d - 48)) ds"
    by (auto simp: is_digit_def)
  with Cons.prems show ?case by (auto simp: is_digit_def)
qed simp

definition clamp :: "int \<Rightarrow> int" where
  "clamp v = max INT_MIN (min INT_MAX v)"

lemma atoi_digits_clamp:
  assumes "digits_at m (str + i) ds" "0 \<le> base" "base \<le> INT_MAX" "sg = 1 \<or> sg = - 1"
  shows "atoi_digits m str sg base i = Some (clamp (sg * digits_value base ds))"
  using assms
proof (induction ds arbitrary: base i)
  case Nil
  then show ?case by (subst atoi_digits.simps) (auto simp: is_digit_def clamp_def)
next
  case (Cons d ds)
  let ?b = "10 * base + (sint d - 48)"
  have d: "m (str + i) = d" "48 \<le> sint d" "sint d \<le> 57" "digits_at m (str + (i + 1)) ds"
    using Cons.prems by (auto simp: is_digit_def)
  have ge: "?b \<le> digits_value ?b ds" using digits_value_ge [OF d(4), of ?b] Cons.prems d by simp
  show ?case
  proof (cases "?b > INT_MAX")
    case True
    then have "base > INT_MAX div 10 \<or> (base = INT_MAX div 10 \<and> sint d - 48 > 7)" using d by auto
    with True ge d Cons.prems show ?thesis by (subst atoi_digits.simps) (auto simp: clamp_def Let_def)
  next
    case False
    then have "\<not> (base > INT_MAX div 10 \<or> (base = INT_MAX div 10 \<and> sint d - 48 > 7))" using d by auto
    with False d Cons.IH [OF d(4), of ?b] Cons.prems show ?thesis
      by (subst atoi_digits.simps) (auto simp: Let_def)
  qed
qed

lemma atoi_spaces_eq:
  assumes "\<forall>k<n. m (str + i + k) = 32" "m (str + i + n) \<noteq> 32"
  shows "atoi_spaces m str i = Some (i + n)"
  using assms
proof (induction n arbitrary: i)
  case 0
  then show ?case by (subst atoi_spaces.simps) simp
next
  case (Suc n)
  have "atoi_spaces m str (i + 1) = Some (i + 1 + n)"
    using Suc.prems by (intro Suc.IH) (auto simp: All_less_Suc2)
  moreover have "m (str + i) = 32" using Suc.prems(1) by force
  ultimately show ?case by (subst atoi_spaces.simps) simp
qed

text \<open>\<open>sign_at m p sg q\<close>: the number at \<open>p\<close> has the sign \<open>sg\<close>, and its digits start at \<open>q\<close>.\<close>

definition sign_at :: "mem \<Rightarrow> nat \<Rightarrow> int \<Rightarrow> nat \<Rightarrow> bool" where
  "sign_at m p sg q \<longleftrightarrow> (m p = 45 \<and> sg = - 1 \<and> q = p + 1) \<or> (m p = 43 \<and> sg = 1 \<and> q = p + 1) \<or>
     (is_digit (m p) \<and> sg = 1 \<and> q = p)"

lemma is_digit_other: "is_digit c \<Longrightarrow> c \<noteq> 32 \<and> c \<noteq> 45 \<and> c \<noteq> 43"
  by (auto simp: is_digit_def)

lemma atoi_clamp:
  assumes "\<forall>k<n. m (str + k) = 32" "sign_at m (str + n) sg q" "digits_at m q ds"
  shows "atoi m str = Some (clamp (sg * digits_value 0 ds))"
proof -
  have "m (str + n) \<noteq> 32" using assms(2) by (auto simp: sign_at_def dest: is_digit_other)
  then have s: "atoi_spaces m str 0 = Some n" using assms(1) atoi_spaces_eq [of n m str 0] by simp
  have "sg = 1 \<or> sg = - 1" using assms(2) by (auto simp: sign_at_def)
  moreover have "digits_at m (str + (q - str)) ds" using assms(2,3) by (auto simp: sign_at_def)
  ultimately have "atoi_digits m str sg 0 (q - str) = Some (clamp (sg * digits_value 0 ds))"
    by (intro atoi_digits_clamp) auto
  with assms(2) show ?thesis
    by (auto simp: atoi_def s sign_at_def dest: is_digit_other)
qed

text \<open>
  C24: \<^verbatim>\<open>atoi\<close> returns on every string of blanks, an optional sign and digits, and its result is the number
  the string denotes, clamped to the range of \<^verbatim>\<open>int\<close>: no intermediate value overflows.
\<close>

theorem atoi_correct:
  assumes "\<forall>k<n. m (str + k) = 32" "sign_at m (str + n) sg q" "digits_at m q ds"
  shows "atoi m str = Some (max INT_MIN (min INT_MAX (sg * digits_value 0 ds)))"
  using atoi_clamp [OF assms] by (simp add: clamp_def)

theorem atoi_correct_witness: "atoi (mem_of [32, 45, 52, 50]) 0 = Some (- 42)"
  using atoi_correct [of 1 "mem_of [32, 45, 52, 50]" 0 "- 1" 2 "[52, 50]"]
  by (simp add: mem_of_def sign_at_def is_digit_def)

subsection \<open>Writing numbers\<close>

fun dec :: "nat \<Rightarrow> 8 word list" where
  "dec n = (if n = 0 then [] else of_nat (48 + n mod 10) # dec (n div 10))"

declare dec.simps [simp del]

definition put_bytes :: "mem \<Rightarrow> nat \<Rightarrow> 8 word list \<Rightarrow> mem" where
  "put_bytes m d xs = (\<lambda>a. if d \<le> a \<and> a < d + length xs then xs ! (a - d) else m a)"

lemma put_bytes_Cons: "put_bytes (m(d := x)) (Suc d) xs = put_bytes m d (x # xs)"
  by (auto simp: put_bytes_def fun_eq_iff nth_Cons' Suc_le_eq)

lemma itoa_loop_dec:
  "itoa_loop m p (int n) 10 i = Some (put_bytes m (p + i) (dec n), i + length (dec n))"
proof (induction n arbitrary: m i rule: dec.induct)
  case (1 n)
  show ?case
  proof (cases "n = 0")
    case True
    then show ?thesis by (subst itoa_loop.simps) (auto simp: dec.simps put_bytes_def fun_eq_iff)
  next
    case False
    let ?c = "of_nat (48 + n mod 10) :: 8 word"
    have "int n sdiv 10 = int (n div 10)" "int n smod 10 = int (n mod 10)"
      using False by (simp_all add: signed_divide_int_def signed_modulo_int_def zdiv_int zmod_int)
    moreover have "int (n mod 10) \<le> 9" by simp
    moreover have "itoa_loop (m(p + i := ?c)) p (int (n div 10)) 10 (i + 1) =
        Some (put_bytes (m(p + i := ?c)) (p + (i + 1)) (dec (n div 10)), i + 1 + length (dec (n div 10)))"
      by (rule 1 [OF False])
    ultimately show ?thesis using False
      by (subst itoa_loop.simps)
        (simp add: Let_def dec.simps [of n] put_bytes_Cons del: of_nat_add fun_upd_apply, simp add: add.commute)
  qed
qed

lemma reverse_loop_eq:
  "reverse_loop m p (int i) (int j) = (\<lambda>a. if p + i \<le> a \<and> a \<le> p + j then m (p + (i + j - (a - p))) else m a)"
proof (induction "j - i" arbitrary: m i j rule: less_induct)
  case less
  show ?case
  proof (cases "i < j")
    case True
    let ?m = "m(p + i := m (p + j), p + j := m (p + i))"
    have ij: "(i + 1) + (j - 1) = i + j" using True by simp
    have step: "reverse_loop m p (int i) (int j) = reverse_loop ?m p (int (i + 1)) (int (j - 1))"
      using True by (subst reverse_loop.simps) (simp add: Let_def of_nat_diff algebra_simps)
    have ih: "reverse_loop ?m p (int (i + 1)) (int (j - 1)) =
      (\<lambda>a. if p + (i + 1) \<le> a \<and> a \<le> p + (j - 1) then ?m (p + (i + 1 + (j - 1) - (a - p))) else ?m a)"
      by (rule less) (use True in simp)
    show ?thesis unfolding step ih ij
    proof (rule ext, goal_cases)
      case (1 a)
      show ?case
      proof (cases "a < p")
        case False
        then obtain k where a: "a = p + k" using le_Suc_ex not_less by blast
        consider "k < i" | "k = i" | "i < k" "k < j" | "k = j" | "j < k" by linarith
        then show ?thesis unfolding a by cases (use True in auto)
      qed (use True in simp)
    qed
  next
    case False
    then show ?thesis by (subst reverse_loop.simps) (auto simp: fun_eq_iff intro!: arg_cong [of _ _ m])
  qed
qed

lemma reverse_put_bytes:
  assumes "xs \<noteq> []"
  shows "reverse ((put_bytes m p xs)(p + length xs := 0)) p (int (length xs)) = put_string m p (rev xs)"
proof -
  let ?m = "(put_bytes m p xs)(p + length xs := 0)"
  have "reverse ?m p (int (length xs)) = reverse_loop ?m p (int 0) (int (length xs - 1))"
    using assms by (simp add: reverse_def of_nat_diff Suc_le_eq)
  also have "\<dots> = put_string m p (rev xs)" unfolding reverse_loop_eq
  proof (rule ext, goal_cases)
    case (1 a)
    show ?case
    proof (cases "a < p")
      case False
      then obtain k where a: "a = p + k" using le_Suc_ex not_less by blast
      obtain n where "length xs = Suc n" using assms by (cases xs) auto
      then show ?thesis unfolding a
        by (cases "k < length xs") (auto simp: put_bytes_def put_string_def rev_nth)
    qed (simp add: put_bytes_def put_string_def)
  qed
  finally show ?thesis .
qed

definition decimal :: "nat \<Rightarrow> 8 word list" where
  "decimal n = (if n = 0 then [48] else rev (dec n))"

lemma itoa_decimal: "itoa (int n) m p 10 = Some (put_string m p (decimal n))"
proof (cases "n = 0")
  case True
  then show ?thesis by (auto simp: itoa_def decimal_def put_string_def fun_eq_iff)
next
  case False
  then have "dec n \<noteq> []" by (simp add: dec.simps)
  with False show ?thesis
    using itoa_loop_dec [of m p n 0] reverse_put_bytes [of "dec n" m p]
    by (simp add: itoa_def Let_def decimal_def)
qed

lemma sint_digit: "sint (of_nat (48 + d) :: 8 word) = 48 + int d" if "d < 10"
proof -
  have "d \<in> {0..9}" using that by simp
  then have "d \<in> set [0..<10]" by auto
  then show ?thesis by (simp add: upt_rec) (elim disjE; simp)
qed

lemma dec_digits: "c \<in> set (dec n) \<Longrightarrow> is_digit c"
proof (induction n rule: dec.induct)
  case (1 n)
  then show ?case using sint_digit [of "n mod 10"]
    by (subst (asm) (2) dec.simps) (auto simp: is_digit_def split: if_splits simp del: of_nat_add)
qed

lemma dec_value: "digits_value 0 (rev (dec n)) = int n"
proof (induction n rule: dec.induct)
  case (1 n)
  show ?case
  proof (cases "n = 0")
    case False
    then have "digits_value 0 (rev (dec n)) = 10 * int (n div 10) + int (n mod 10)"
      using 1 sint_digit [of "n mod 10"] by (simp add: dec.simps [of n] digits_value_def del: of_nat_add)
    then show ?thesis by (simp add: zdiv_int zmod_int)
  qed (simp add: dec.simps)
qed

lemma dec_length: "n < 10 ^ k \<Longrightarrow> length (dec n) \<le> k"
proof (induction n arbitrary: k rule: dec.induct)
  case (1 n)
  then show ?case
    by (cases k) (auto simp: dec.simps [of n] dec.simps [of 0] less_mult_imp_div_less mult.commute)
qed

lemma digits_at_put: "\<forall>c \<in> set xs. is_digit c \<Longrightarrow> digits_at (put_string m p xs) p xs"
proof (induction xs arbitrary: m p)
  case Nil
  then show ?case by (simp add: put_string_def is_digit_def)
next
  case (Cons x xs)
  then have "digits_at (put_string (m(p := x)) (p + 1) xs) (p + 1) xs" by simp
  then have "digits_at (put_string m p (x # xs)) (p + 1) xs" unfolding put_string_Cons .
  moreover have "put_string m p (x # xs) p = x" by (simp add: put_string_def)
  ultimately show ?case using Cons.prems by simp
qed

text \<open>
  C25: writing a non-negative \<^verbatim>\<open>int\<close> with \<^verbatim>\<open>itoa\<close> in base 10 and reading it back with \<^verbatim>\<open>atoi\<close> gives the number; \<^verbatim>\<open>itoa\<close>
  writes at most eleven bytes, with the terminator.
\<close>

theorem itoa_atoi_roundtrip:
  assumes "n < 2 ^ 31"
  shows "\<exists>m'. itoa (int n) m p 10 = Some m' \<and> atoi m' p = Some (int n) \<and>
    (\<forall>a. a < p \<or> p + 10 < a \<longrightarrow> m' a = m a)"
proof -
  let ?m = "put_string m p (decimal n)"
  have d: "\<forall>c \<in> set (decimal n). is_digit c" "decimal n \<noteq> []"
    using dec_digits [of _ n] by (auto simp: decimal_def dec.simps [of n] is_digit_def)
  have v: "digits_value 0 (decimal n) = int n" using dec_value [of n] by (simp add: decimal_def)
  have "sign_at ?m p 1 p" using d by (auto simp: sign_at_def put_string_def)
  then have "atoi ?m p = Some (clamp (1 * int n))"
    using atoi_clamp [of 0 ?m p 1 p "decimal n"] digits_at_put [OF d(1)] by (simp add: v)
  moreover have "clamp (1 * int n) = int n" using assms by (simp add: clamp_def)
  moreover have "length (decimal n) \<le> 10" using dec_length [of n 10] assms by (simp add: decimal_def)
  ultimately show ?thesis by (auto simp: itoa_decimal put_string_def)
qed

theorem itoa_atoi_roundtrip_witness:
  "\<exists>m'. itoa (int 1234) (\<lambda>_. 7) 16 10 = Some m' \<and> atoi m' 16 = Some (int 1234) \<and> m' 15 = 7"
  using itoa_atoi_roundtrip [of 1234 "\<lambda>_. 7" 16] by force


end
