(* ===== verification/Resources.thy ===== *)
theory Resources
  imports Kot_Prelude
begin

section \<open>Descriptor tables\<close>

text \<open>
  Model of \<^verbatim>\<open>global/resources.c\<close> and its header. A table is an array of 256 pointers to
  descriptors, which several tables may share; \<open>dheap\<close> holds the descriptors and \<open>ctxs\<close> the
  tables by the address of their context. The search counter of \<^verbatim>\<open>allocate_index\<close> is an 8-bit
  word: its bound 256 is never reached, the counter wraps to 0 instead. The properties show
  that the lowest free index is handed out, that a full table makes the search run forever,
  and what moving and inheriting descriptors do.
\<close>

subsection \<open>Model\<close>

definition MAX_DESCRIPTORS :: nat where "MAX_DESCRIPTORS = 256"

definition DESCRIPTOR_TYPE_FILE :: nat where "DESCRIPTOR_TYPE_FILE = 0"
definition DESCRIPTOR_TYPE_DIR :: nat where "DESCRIPTOR_TYPE_DIR = 1"
definition DESCRIPTOR_TYPE_SOCKET :: nat where "DESCRIPTOR_TYPE_SOCKET = 2"

record descriptor =
  dtype :: nat
  ddata :: nat
  is_parent :: bool

record descriptors_ctx =
  descriptors :: "nat option list"
  index_search_begin :: "8 word"
  ctx_lock :: bool

record res_state =
  dheap :: "nat \<Rightarrow> descriptor"
  ctxs :: "nat \<Rightarrow> descriptors_ctx"

definition upd_ctx :: "nat \<Rightarrow> (descriptors_ctx \<Rightarrow> descriptors_ctx) \<Rightarrow> (unit, res_state) cmd" where
  "upd_ctx c f = modc (\<lambda>s. s\<lparr>ctxs := (ctxs s)(c := f (ctxs s c))\<rparr>)"

abbreviation ctx_acquire :: "nat \<Rightarrow> (unit, res_state) cmd" where
  "ctx_acquire c \<equiv> bindc (getc (\<lambda>s. ctx_lock (ctxs s c))) (\<lambda>held.
     seqc (assertc (\<not> held)) (upd_ctx c (\<lambda>x. x\<lparr>ctx_lock := True\<rparr>)))"

abbreviation ctx_release :: "nat \<Rightarrow> (unit, res_state) cmd" where
  "ctx_release c \<equiv> upd_ctx c (\<lambda>x. x\<lparr>ctx_lock := False\<rparr>)"

definition check_index :: "int \<Rightarrow> errno" where
  "check_index index = (if index < 0 then EINVAL else if index \<ge> int MAX_DESCRIPTORS then EINVAL else EOK)"

partial_function (option) allocate_index_loop :: "nat option list \<Rightarrow> 8 word \<Rightarrow> (errno + 8 word) option" where
  "allocate_index_loop ds i =
     (if unat i < MAX_DESCRIPTORS then
        if ds ! unat i = None then Some (Inr i) else allocate_index_loop ds (i + 1)
      else Some (Inl EINVAL))"

definition allocate_index :: "nat \<Rightarrow> (errno + 8 word, res_state) cmd" where
  "allocate_index c =
     bindc (getc (\<lambda>s. ctxs s c)) (\<lambda>ctx.
     case allocate_index_loop (descriptors ctx) (index_search_begin ctx) of
       None \<Rightarrow> stop NoReturn
     | Some (Inl e) \<Rightarrow> ret (Inl e)
     | Some (Inr i) \<Rightarrow> seqc (upd_ctx c (\<lambda>x. x\<lparr>index_search_begin := i\<rparr>)) (ret (Inr i)))"

definition allocate_target_index :: "nat \<Rightarrow> nat \<Rightarrow> (errno, res_state) cmd" where
  "allocate_target_index c index =
     bindc (getc (\<lambda>s. descriptors (ctxs s c) ! index)) (\<lambda>d. ret (if d = None then EOK else EINVAL))"

definition free_index :: "nat \<Rightarrow> nat \<Rightarrow> (errno, res_state) cmd" where
  "free_index c index =
     seqc (upd_ctx c (\<lambda>x. x\<lparr>descriptors := (descriptors x)[index := None]\<rparr>))
    (seqc (upd_ctx c (\<lambda>x. if index < unat (index_search_begin x)
                           then x\<lparr>index_search_begin := of_nat index\<rparr> else x))
    (ret EOK))"

definition add_descriptor :: "nat \<Rightarrow> nat \<Rightarrow> (errno + nat, res_state) cmd" where
  "add_descriptor c descriptor =
     seqc (ctx_acquire c)
    (bindc (allocate_index c) (\<lambda>index.
     case index of
       Inl e \<Rightarrow> seqc (ctx_release c) (ret (Inl e))
     | Inr i \<Rightarrow>
         seqc (modc (\<lambda>s. s\<lparr>dheap := (dheap s)(descriptor := (dheap s descriptor)\<lparr>is_parent := True\<rparr>)\<rparr>))
        (seqc (upd_ctx c (\<lambda>x. x\<lparr>descriptors := (descriptors x)[unat i := Some descriptor]\<rparr>))
        (seqc (ctx_release c)
        (ret (Inr (unat i)))))))"

definition get_descriptor :: "nat \<Rightarrow> int \<Rightarrow> (nat option, res_state) cmd" where
  "get_descriptor c index =
     (if check_index index \<noteq> EOK then ret None
      else
        seqc (ctx_acquire c)
       (bindc (getc (\<lambda>s. descriptors (ctxs s c) ! nat index)) (\<lambda>d.
        seqc (ctx_release c) (ret d))))"

definition remove_descriptor :: "nat \<Rightarrow> int \<Rightarrow> (errno, res_state) cmd" where
  "remove_descriptor c index =
     (if check_index index \<noteq> EOK then ret (check_index index)
      else
        seqc (ctx_acquire c)
       (bindc (free_index c (nat index)) (\<lambda>_.
        seqc (ctx_release c) (ret EOK))))"

definition move_descriptor :: "nat \<Rightarrow> int \<Rightarrow> int \<Rightarrow> (errno, res_state) cmd" where
  "move_descriptor c old_index new_index =
     (if check_index old_index \<noteq> EOK then ret (check_index old_index)
      else if check_index new_index \<noteq> EOK then ret (check_index new_index)
      else
        seqc (ctx_acquire c)
       (bindc (getc (\<lambda>s. descriptors (ctxs s c) ! nat old_index)) (\<lambda>old.
        if old = None then seqc (ctx_release c) (ret EINVAL)
        else
          bindc (allocate_target_index c (nat new_index)) (\<lambda>e.
          if e \<noteq> EOK then seqc (ctx_release c) (ret EINVAL)
          else
            seqc (upd_ctx c (\<lambda>x. x\<lparr>descriptors := (descriptors x)[nat new_index := descriptors x ! nat old_index]\<rparr>))
           (bindc (free_index c (nat old_index)) (\<lambda>_.
            seqc (ctx_release c)
           (ret EOK)))))))"

fun copy_descriptors_loop :: "nat \<Rightarrow> nat \<Rightarrow> nat list \<Rightarrow> (unit, res_state) cmd" where
  "copy_descriptors_loop dst src [] = ret ()"
| "copy_descriptors_loop dst src (i # is) =
     bindc (getc (\<lambda>s. descriptors (ctxs s src) ! i)) (\<lambda>d.
     seqc (upd_ctx dst (\<lambda>x. x\<lparr>descriptors := (descriptors x)[i := d]\<rparr>))
    (seqc (case d of None \<Rightarrow> ret ()
           | Some p \<Rightarrow> modc (\<lambda>s. s\<lparr>dheap := (dheap s)(p := (dheap s p)\<lparr>is_parent := False\<rparr>)\<rparr>))
    (copy_descriptors_loop dst src is)))"

definition copy_process_descriptors :: "nat \<Rightarrow> nat \<Rightarrow> (errno, res_state) cmd" where
  "copy_process_descriptors dst src =
     bindc (getc (\<lambda>s. index_search_begin (ctxs s dst))) (\<lambda>b.
     seqc (assertc (b = 0))
    (seqc (copy_descriptors_loop dst src [0..<MAX_DESCRIPTORS])
    (ret EOK)))"

subsection \<open>Search for a free index\<close>

lemma wp_upd_ctx [wp_simps]: "wp (upd_ctx c f) Q s = Q () (s\<lparr>ctxs := (ctxs s)(c := f (ctxs s c))\<rparr>)"
  by (simp add: upd_ctx_def wp_simps)

lemma unat_8_lt [simp]: "unat (i :: 8 word) < MAX_DESCRIPTORS"
  using unsigned_less [of i] by (simp add: MAX_DESCRIPTORS_def)

text \<open>\<open>ctx_inv\<close>: the table has 256 slots, the lock is free and every slot below the search start is in use.\<close>

definition ctx_inv :: "descriptors_ctx \<Rightarrow> bool" where
  "ctx_inv x \<longleftrightarrow> length (descriptors x) = MAX_DESCRIPTORS \<and> \<not> ctx_lock x \<and>
     (\<forall>i < unat (index_search_begin x). descriptors x ! i \<noteq> None)"

lemma ctx_inv_unlock [simp]: "ctx_inv x \<Longrightarrow> ctx_inv (x\<lparr>ctx_lock := False\<rparr>)"
  by (simp add: ctx_inv_def)

lemma allocate_index_loop_eq:
  assumes "unat b \<le> k" "k < MAX_DESCRIPTORS" "ds ! k = None" "\<forall>j. unat b \<le> j \<and> j < k \<longrightarrow> ds ! j \<noteq> None"
  shows "allocate_index_loop ds b = Some (Inr (of_nat k))"
  using assms
proof (induction "k - unat b" arbitrary: b)
  case 0
  then have "unat b = k" by simp
  then have "b = of_nat k" by auto
  with 0 show ?case by (subst allocate_index_loop.simps) (simp add: unat_of_nat MAX_DESCRIPTORS_def)
next
  case (Suc n)
  then have lt: "unat b < k" by simp
  then have "unat b + 1 < 256" using Suc.prems(2) by (simp add: MAX_DESCRIPTORS_def)
  then have s: "unat (b + 1) = unat b + 1" by (simp add: unat_word_ariths)
  then have "allocate_index_loop ds (b + 1) = Some (Inr (of_nat k))"
    using Suc lt by (intro Suc.hyps) auto
  moreover have "ds ! unat b \<noteq> None" using Suc.prems(4) lt by blast
  ultimately show ?case by (subst allocate_index_loop.simps) auto
qed

text \<open>A search that returns has found a free slot; on a full table it goes round for ever.\<close>

lemma allocate_index_loop_free:
  "allocate_index_loop ds b = Some r \<Longrightarrow> \<exists>j < MAX_DESCRIPTORS. ds ! j = None"
proof (rule allocate_index_loop.raw_induct [of "\<lambda>ds b r. \<exists>j < MAX_DESCRIPTORS. ds ! j = None"], goal_cases)
  case (1 f ds i r)
  then show ?case by (cases "ds ! unat i = None") (auto intro: exI [of _ "unat i"])
qed

lemma allocate_index_loop_full:
  "\<forall>j < MAX_DESCRIPTORS. ds ! j \<noteq> None \<Longrightarrow> allocate_index_loop ds b = None"
  using allocate_index_loop_free by (metis not_None_eq)

text \<open>
  C28: \<^verbatim>\<open>add_descriptor\<close> on a table with a free slot returns. It hands out the lowest free index, stores the
  descriptor there, marks it as owned by this process, changes no other slot and keeps the
  invariant of the table.
\<close>

theorem add_descriptor_correct:
  assumes "ctx_inv (ctxs s c)" "k < MAX_DESCRIPTORS" "descriptors (ctxs s c) ! k = None"
    "\<forall>j<k. descriptors (ctxs s c) ! j \<noteq> None"
  shows "\<exists>t. add_descriptor c d s = Inr (Inr k, t) \<and> ctx_inv (ctxs t c) \<and>
    descriptors (ctxs t c) = (descriptors (ctxs s c))[k := Some d] \<and>
    is_parent (dheap t d) \<and> (\<forall>c'. c' \<noteq> c \<longrightarrow> ctxs t c' = ctxs s c')"
proof -
  let ?x = "ctxs s c"
  have "unat (index_search_begin ?x) \<le> k" using assms(1,3) by (metis ctx_inv_def linorder_not_less)
  then have "allocate_index_loop (descriptors ?x) (index_search_begin ?x) = Some (Inr (of_nat k))"
    using assms by (intro allocate_index_loop_eq) auto
  moreover have "unat (of_nat k :: 8 word) = k"
    using assms(2) by (simp add: unat_of_nat MAX_DESCRIPTORS_def)
  moreover have "\<not> ctx_lock ?x" "length (descriptors ?x) = MAX_DESCRIPTORS" using assms(1) by (simp_all add: ctx_inv_def)
  ultimately have "wp (add_descriptor c d) (\<lambda>r t. r = Inr k \<and> ctx_inv (ctxs t c) \<and>
      descriptors (ctxs t c) = (descriptors ?x)[k := Some d] \<and> is_parent (dheap t d) \<and>
      (\<forall>c'. c' \<noteq> c \<longrightarrow> ctxs t c' = ctxs s c')) s"
    using assms(2,4) by (simp add: add_descriptor_def allocate_index_def wp_simps ctx_inv_def nth_list_update)
  from wp_exI [OF this] show ?thesis by blast
qed

definition res_example :: "nat \<Rightarrow> res_state" where
  "res_example n = \<lparr>dheap = (\<lambda>_. \<lparr>dtype = 0, ddata = 0, is_parent = False\<rparr>),
     ctxs = (\<lambda>_. \<lparr>descriptors = replicate n (Some 7) @ replicate (256 - n) None, index_search_begin = 0, ctx_lock = False\<rparr>)\<rparr>"

theorem add_descriptor_correct_witness:
  "\<exists>t. add_descriptor 1 9 (res_example 3) = Inr (Inr 3, t) \<and> is_parent (dheap t 9)"
  using add_descriptor_correct [of "res_example 3" 1 3 9]
  by (auto simp: res_example_def ctx_inv_def MAX_DESCRIPTORS_def nth_append)

text \<open>
  C29: once all 256 slots are in use, \<^verbatim>\<open>add_descriptor\<close> never returns: the 8-bit search counter stays below
  256, so the loop has no exit and the error return behind it is unreachable.
\<close>

theorem add_descriptor_full_never_returns:
  assumes "\<not> ctx_lock (ctxs s c)" "\<forall>j < MAX_DESCRIPTORS. descriptors (ctxs s c) ! j \<noteq> None"
  shows "add_descriptor c d s = Inl NoReturn"
  using assms allocate_index_loop_full [OF assms(2)]
  by (simp add: add_descriptor_def allocate_index_def seqc_def bindc_def getc_def assertc_def modc_def upd_ctx_def stop_def)

theorem add_descriptor_full_never_returns_witness: "add_descriptor 1 9 (res_example 256) = Inl NoReturn"
  by (rule add_descriptor_full_never_returns) (simp_all add: res_example_def MAX_DESCRIPTORS_def nth_append)

subsection \<open>Removal, moves and inheritance\<close>

lemma check_index_EOK: "check_index i = EOK \<longleftrightarrow> 0 \<le> i \<and> i < int MAX_DESCRIPTORS"
  by (auto simp: check_index_def)

lemma check_index_cases: "check_index i = EOK \<or> check_index i = EINVAL"
  by (auto simp: check_index_def)

definition freed :: "nat \<Rightarrow> descriptors_ctx \<Rightarrow> descriptors_ctx" where
  "freed i x = x\<lparr>descriptors := (descriptors x)[i := None],
     index_search_begin := if i < unat (index_search_begin x) then of_nat i else index_search_begin x\<rparr>"

lemma wp_free_index [wp_simps]:
  "wp (free_index c i) Q s = Q EOK (s\<lparr>ctxs := (ctxs s)(c := freed i (ctxs s c))\<rparr>)"
  by (simp add: free_index_def wp_simps freed_def)

lemma freed_simps [simp]:
  "descriptors (freed i x) = (descriptors x)[i := None]" "ctx_lock (freed i x) = ctx_lock x"
  by (simp_all add: freed_def)

text \<open>Freeing a slot keeps the invariant, whatever the state of the lock.\<close>

lemma ctx_inv_freed:
  assumes "length (descriptors x) = MAX_DESCRIPTORS" "i < MAX_DESCRIPTORS"
    "\<forall>j < unat (index_search_begin x). j \<noteq> i \<longrightarrow> descriptors x ! j \<noteq> None"
  shows "ctx_inv ((freed i x)\<lparr>ctx_lock := False\<rparr>)"
  using assms by (auto simp: ctx_inv_def freed_def nth_list_update unat_of_nat MAX_DESCRIPTORS_def)

text \<open>
  C31: \<^verbatim>\<open>remove_descriptor\<close> rejects indices outside the table with \<^verbatim>\<open>EINVAL\<close> and otherwise frees the slot, so
  that the next descriptor gets an index at most as high; \<^verbatim>\<open>get_descriptor\<close> then finds nothing there.
\<close>

theorem remove_descriptor_correct:
  assumes "ctx_inv (ctxs s c)"
  shows "if 0 \<le> i \<and> i < int MAX_DESCRIPTORS
    then \<exists>t. remove_descriptor c i s = Inr (EOK, t) \<and> ctx_inv (ctxs t c) \<and>
      descriptors (ctxs t c) = (descriptors (ctxs s c))[nat i := None] \<and>
      (\<exists>u. get_descriptor c i t = Inr (None, u) \<and> ctxs u c = ctxs t c)
    else remove_descriptor c i s = Inr (EINVAL, s)"
proof (cases "0 \<le> i \<and> i < int MAX_DESCRIPTORS")
  case True
  then have n: "nat i < MAX_DESCRIPTORS" by linarith
  have "wp (remove_descriptor c i) (\<lambda>r t. r = EOK \<and> ctx_inv (ctxs t c) \<and>
    descriptors (ctxs t c) = (descriptors (ctxs s c))[nat i := None]) s"
    using assms n True ctx_inv_freed [of "(ctxs s c)\<lparr>ctx_lock := True\<rparr>" "nat i"]
    by (simp add: remove_descriptor_def wp_simps check_index_EOK ctx_inv_def [of "ctxs s c"])
  from wp_exI [OF this] obtain t where t: "remove_descriptor c i s = Inr (EOK, t)" "ctx_inv (ctxs t c)"
    "descriptors (ctxs t c) = (descriptors (ctxs s c))[nat i := None]" by auto
  have "wp (get_descriptor c i) (\<lambda>r u. r = None \<and> ctxs u c = ctxs t c) t"
    using t(2,3) assms n True by (auto simp: get_descriptor_def wp_simps check_index_EOK ctx_inv_def)
  from wp_exI [OF this] t True show ?thesis by auto
next
  case False
  then show ?thesis using check_index_EOK [of i] check_index_cases [of i] by (auto simp: remove_descriptor_def ret_def)
qed

theorem remove_descriptor_correct_witness:
  "\<exists>t. remove_descriptor 1 2 (res_example 3) = Inr (EOK, t) \<and> descriptors (ctxs t 1) ! 2 = None"
  using remove_descriptor_correct [of "res_example 3" 1 2]
  by (auto simp: res_example_def ctx_inv_def MAX_DESCRIPTORS_def nth_append)

text \<open>
  C30: \<^verbatim>\<open>move_descriptor\<close> moves a descriptor to a free slot and fails with \<^verbatim>\<open>EINVAL\<close>, leaving the table as it
  was, when an index is outside the table, the old slot is empty or the new one is taken.
\<close>

theorem move_descriptor_correct:
  fixes old new :: int
  assumes inv: "ctx_inv (ctxs s c)"
  defines "ds \<equiv> descriptors (ctxs s c)"
  defines "ok \<equiv> 0 \<le> old \<and> old < int MAX_DESCRIPTORS \<and> 0 \<le> new \<and> new < int MAX_DESCRIPTORS \<and>
    ds ! nat old \<noteq> None \<and> ds ! nat new = None"
  shows "\<exists>t. move_descriptor c old new s = Inr (if ok then EOK else EINVAL, t) \<and> ctx_inv (ctxs t c) \<and>
    descriptors (ctxs t c) = (if ok then ds[nat new := ds ! nat old, nat old := None] else ds)"
proof -
  have l: "length ds = MAX_DESCRIPTORS" "\<not> ctx_lock (ctxs s c)"
    "\<And>j. j < unat (index_search_begin (ctxs s c)) \<Longrightarrow> ds ! j \<noteq> None"
    using inv by (simp_all add: ctx_inv_def ds_def)
  have "wp (move_descriptor c old new) (\<lambda>r t. r = (if ok then EOK else EINVAL) \<and> ctx_inv (ctxs t c) \<and>
    descriptors (ctxs t c) = (if ok then ds[nat new := ds ! nat old, nat old := None] else ds)) s"
  proof (cases "check_index old = EOK \<and> check_index new = EOK")
    case True
    then have n: "nat old < MAX_DESCRIPTORS" "nat new < MAX_DESCRIPTORS"
      by (auto simp: check_index_EOK nat_less_iff)
    have "ctx_inv ((freed (nat old) ((ctxs s c)\<lparr>ctx_lock := True, descriptors := ds[nat new := ds ! nat old]\<rparr>))\<lparr>ctx_lock := False\<rparr>)"
      if "ds ! nat old \<noteq> None" using that l n by (intro ctx_inv_freed) (auto simp: nth_list_update)
    then show ?thesis using True l inv n
      by (auto simp: move_descriptor_def wp_simps allocate_target_index_def check_index_EOK ds_def ok_def)
  next
    case False
    then have "\<not> ok" by (auto simp: ok_def check_index_EOK)
    with False inv check_index_cases [of old] check_index_cases [of new] show ?thesis
      by (auto simp: move_descriptor_def wp_simps ds_def)
  qed
  from wp_exI [OF this] show ?thesis by blast
qed

theorem move_descriptor_correct_witness:
  "\<exists>t. move_descriptor 1 2 7 (res_example 3) = Inr (EOK, t) \<and> descriptors (ctxs t 1) ! 7 = Some 7"
  using move_descriptor_correct [of "res_example 3" 1 2 7]
  by (auto simp: res_example_def ctx_inv_def MAX_DESCRIPTORS_def nth_append)

lemma copy_descriptors_loop_wp:
  assumes "dst \<noteq> src" "length (descriptors (ctxs s dst)) = n" "length (descriptors (ctxs s src)) = n"
    "\<forall>i \<in> set is. i < n"
  shows "wp (copy_descriptors_loop dst src is) (\<lambda>_ t.
    length (descriptors (ctxs t dst)) = n \<and> ctxs t src = ctxs s src \<and>
    (\<forall>i < n. descriptors (ctxs t dst) ! i = (if i \<in> set is then descriptors (ctxs s src) ! i else descriptors (ctxs s dst) ! i)) \<and>
    (\<forall>i \<in> set is. \<forall>p. descriptors (ctxs s src) ! i = Some p \<longrightarrow> \<not> is_parent (dheap t p)) \<and>
    (\<forall>p. \<not> is_parent (dheap s p) \<longrightarrow> \<not> is_parent (dheap t p)) \<and>
    ctx_lock (ctxs t dst) = ctx_lock (ctxs s dst) \<and>
    index_search_begin (ctxs t dst) = index_search_begin (ctxs s dst)) s"
  using assms
proof (induction "is" arbitrary: s)
  case (Cons i "is")
  define d where "d = descriptors (ctxs s src) ! i"
  define u where "u = s\<lparr>ctxs := (ctxs s)(dst := (ctxs s dst)\<lparr>descriptors := (descriptors (ctxs s dst))[i := d]\<rparr>),
    dheap := (case d of None \<Rightarrow> dheap s | Some p \<Rightarrow> (dheap s)(p := (dheap s p)\<lparr>is_parent := False\<rparr>))\<rparr>"
  have step: "wp (copy_descriptors_loop dst src (i # is)) Q s = wp (copy_descriptors_loop dst src is) Q u" for Q
    by (cases d) (simp_all add: wp_simps u_def d_def [symmetric])
  have u: "ctxs u src = ctxs s src" "length (descriptors (ctxs u dst)) = n"
    "\<forall>p. \<not> is_parent (dheap s p) \<longrightarrow> \<not> is_parent (dheap u p)" "d = Some p \<Longrightarrow> \<not> is_parent (dheap u p)" for p
    using Cons.prems by (auto simp: u_def split: option.splits)
  show ?case unfolding step
    by (rule wp_mono [OF Cons.IH]) (use Cons.prems u in \<open>auto simp: u_def d_def nth_list_update\<close>)
qed (simp add: wp_simps)

text \<open>
  C32: a forked process gets a table with the same descriptors, not copies of them: clearing \<^verbatim>\<open>is_parent\<close> through
  the new table also clears it for the parent, so no table is left that owns the descriptor.
\<close>

theorem copy_process_descriptors_shares:
  assumes "dst \<noteq> src" "ctx_inv (ctxs s src)" "ctx_inv (ctxs s dst)" "index_search_begin (ctxs s dst) = 0"
  shows "\<exists>t. copy_process_descriptors dst src s = Inr (EOK, t) \<and> ctx_inv (ctxs t dst) \<and>
    descriptors (ctxs t dst) = descriptors (ctxs s src) \<and> ctxs t src = ctxs s src \<and>
    (\<forall>i < MAX_DESCRIPTORS. \<forall>p. descriptors (ctxs t src) ! i = Some p \<longrightarrow> \<not> is_parent (dheap t p))"
proof -
  have l: "length (descriptors (ctxs s src)) = MAX_DESCRIPTORS" "length (descriptors (ctxs s dst)) = MAX_DESCRIPTORS"
    "\<not> ctx_lock (ctxs s dst)" using assms(2,3) by (simp_all add: ctx_inv_def)
  have "wp (copy_process_descriptors dst src) (\<lambda>r t. r = EOK \<and> ctx_inv (ctxs t dst) \<and>
    descriptors (ctxs t dst) = descriptors (ctxs s src) \<and> ctxs t src = ctxs s src \<and>
    (\<forall>i < MAX_DESCRIPTORS. \<forall>p. descriptors (ctxs t src) ! i = Some p \<longrightarrow> \<not> is_parent (dheap t p))) s"
    unfolding copy_process_descriptors_def wp_bindc wp_getc wp_seqc wp_assertc wp_ret
    by (intro conjI assms(4), rule wp_mono [OF copy_descriptors_loop_wp [OF assms(1) l(2,1)]])
      (use l assms(4) in \<open>auto simp: ctx_inv_def intro: nth_equalityI\<close>)
  from wp_exI [OF this] show ?thesis by auto
qed

theorem copy_process_descriptors_shares_witness:
  "\<exists>t. copy_process_descriptors 2 1 (res_example 3) = Inr (EOK, t) \<and> descriptors (ctxs t 2) ! 0 = Some 7 \<and>
     \<not> is_parent (dheap t 7)"
  using copy_process_descriptors_shares [of 2 1 "res_example 3"]
  by (force simp: res_example_def ctx_inv_def MAX_DESCRIPTORS_def nth_append)

end
