(* ===== verification/Lock.thy ===== *)
theory Lock
  imports Kot_Prelude
begin

section \<open>Spinlocks\<close>

text \<open>
  Model of \<^verbatim>\<open>lib/lock.c\<close> and \<^verbatim>\<open>lib/lock.h\<close>. \<open>spinlock_acquire\<close> is the function as one CPU runs it,
  given what the lock word holds at each of its attempts; \<open>lock_step\<close> interleaves the atomic
  actions of any number of CPUs that acquire and release one lock. The properties are that
  \<^verbatim>\<open>spinlock_acquire\<close> always returns, and mutual exclusion.
\<close>

subsection \<open>One CPU\<close>

record spinlock =
  lock :: int
  last_acquirer :: "nat option"

definition SPINLOCK_INIT :: spinlock where
  "SPINLOCK_INIT = \<lparr>lock = 0, last_acquirer = None\<rparr>"

definition DEADLOCK_LIMIT :: nat where
  "DEADLOCK_LIMIT = 100000000"

text \<open>The compare-and-swap: the result and the new lock.\<close>

definition spinlock_test_and_acq :: "spinlock \<Rightarrow> bool \<times> spinlock" where
  "spinlock_test_and_acq l = (if lock l = 0 then (True, l\<lparr>lock := 1\<rparr>) else (False, l))"

text \<open>
  \<open>env i\<close> is the lock as the \<open>i\<close>-th attempt finds it. The result is the return value, 0 or -1,
  with the lock that the call leaves behind.
\<close>

function acquire_loop :: "(nat \<Rightarrow> spinlock) \<Rightarrow> nat \<Rightarrow> nat \<Rightarrow> int \<times> spinlock" where
  "acquire_loop env return_address deadlock_counter =
     (case spinlock_test_and_acq (env deadlock_counter) of
        (True, l) \<Rightarrow> (0, l\<lparr>last_acquirer := Some return_address\<rparr>)
      | (False, l) \<Rightarrow>
          if deadlock_counter + 1 \<ge> DEADLOCK_LIMIT then (- 1, l)
          else acquire_loop env return_address (deadlock_counter + 1))"
  by pat_completeness auto
termination
  by (relation "measure (\<lambda>(env, r, n). DEADLOCK_LIMIT - n)") auto

declare acquire_loop.simps [simp del]

definition spinlock_acquire :: "(nat \<Rightarrow> spinlock) \<Rightarrow> nat \<Rightarrow> int \<times> spinlock" where
  "spinlock_acquire env return_address = acquire_loop env return_address 0"

definition spinlock_release :: "spinlock \<Rightarrow> spinlock" where
  "spinlock_release l = l\<lparr>last_acquirer := None, lock := 0\<rparr>"

lemma acquire_loop_free:
  assumes "n \<le> k" "k < DEADLOCK_LIMIT" "lock (env k) = 0" "\<forall>i. n \<le> i \<and> i < k \<longrightarrow> lock (env i) \<noteq> 0"
  shows "acquire_loop env r n = (0, (env k)\<lparr>lock := 1, last_acquirer := Some r\<rparr>)"
  using assms
proof (induction "k - n" arbitrary: n)
  case 0
  then show ?case by (subst acquire_loop.simps) (simp add: spinlock_test_and_acq_def)
next
  case (Suc d)
  then have "acquire_loop env r (n + 1) = (0, (env k)\<lparr>lock := 1, last_acquirer := Some r\<rparr>)"
    by (intro Suc.hyps) auto
  with Suc show ?case by (subst acquire_loop.simps) (simp add: spinlock_test_and_acq_def)
qed

lemma acquire_loop_held:
  assumes "n < DEADLOCK_LIMIT" "\<forall>i. n \<le> i \<and> i < DEADLOCK_LIMIT \<longrightarrow> lock (env i) \<noteq> 0"
  shows "acquire_loop env r n = (- 1, env (DEADLOCK_LIMIT - 1))"
  using assms
proof (induction "DEADLOCK_LIMIT - Suc n" arbitrary: n)
  case 0
  then have "n = DEADLOCK_LIMIT - 1" by simp
  with 0 show ?case by (subst acquire_loop.simps) (simp add: spinlock_test_and_acq_def)
next
  case (Suc d)
  then have "acquire_loop env r (n + 1) = (- 1, env (DEADLOCK_LIMIT - 1))" by (intro Suc.hyps) auto
  with Suc show ?case by (subst acquire_loop.simps) (simp add: spinlock_test_and_acq_def)
qed

text \<open>
  C33: \<^verbatim>\<open>spinlock_acquire\<close> always returns. It returns 0 and holds the lock from the first attempt that finds it
  free, and -1, with the lock untouched, exactly when the first 100000000 attempts all find it
  taken; in particular a CPU that takes a lock it already holds gets -1, on which the callers'
  assertions fail.
\<close>

theorem spinlock_acquire_returns:
  "spinlock_acquire env r =
     (case find (\<lambda>k. lock (env k) = 0) [0..<DEADLOCK_LIMIT] of
        Some k \<Rightarrow> (0, (env k)\<lparr>lock := 1, last_acquirer := Some r\<rparr>)
      | None \<Rightarrow> (- 1, env (DEADLOCK_LIMIT - 1)))"
proof (cases "find (\<lambda>k. lock (env k) = 0) [0..<DEADLOCK_LIMIT]")
  case None
  then have "\<forall>i. 0 \<le> i \<and> i < DEADLOCK_LIMIT \<longrightarrow> lock (env i) \<noteq> 0" by (auto simp: find_None_iff)
  then have "acquire_loop env r 0 = (- 1, env (DEADLOCK_LIMIT - 1))"
    by (intro acquire_loop_held) (auto simp: DEADLOCK_LIMIT_def)
  with None show ?thesis by (simp add: spinlock_acquire_def)
next
  case (Some k)
  then have "k < DEADLOCK_LIMIT" "lock (env k) = 0" "\<forall>i<k. lock (env i) \<noteq> 0"
    by (auto simp: find_Some_iff)
  then show ?thesis using acquire_loop_free [of 0 k env r] Some by (simp add: spinlock_acquire_def)
qed

subsection \<open>Several CPUs\<close>

text \<open>
  Where a CPU stands in \<^verbatim>\<open>spinlock_acquire\<close> or \<^verbatim>\<open>spinlock_release\<close>: spinning with its counter, having
  won the compare-and-swap, holding the lock, having cleared \<^verbatim>\<open>last_acquirer\<close>, or given up.
\<close>

datatype pc = Idle | Spin nat | Won | Held | Releasing | GaveUp

record lock_state =
  lk :: spinlock
  pcs :: "nat \<Rightarrow> pc"

inductive lock_step :: "lock_state \<Rightarrow> lock_state \<Rightarrow> bool" where
  call: "pcs s c = Idle \<Longrightarrow> lock_step s (s\<lparr>pcs := (pcs s)(c := Spin 0)\<rparr>)"
| win: "pcs s c = Spin n \<Longrightarrow> spinlock_test_and_acq (lk s) = (True, l) \<Longrightarrow>
    lock_step s (s\<lparr>lk := l, pcs := (pcs s)(c := Won)\<rparr>)"
| again: "pcs s c = Spin n \<Longrightarrow> spinlock_test_and_acq (lk s) = (False, l) \<Longrightarrow> n + 1 < DEADLOCK_LIMIT \<Longrightarrow>
    lock_step s (s\<lparr>lk := l, pcs := (pcs s)(c := Spin (n + 1))\<rparr>)"
| give_up: "pcs s c = Spin n \<Longrightarrow> spinlock_test_and_acq (lk s) = (False, l) \<Longrightarrow> n + 1 \<ge> DEADLOCK_LIMIT \<Longrightarrow>
    lock_step s (s\<lparr>lk := l, pcs := (pcs s)(c := GaveUp)\<rparr>)"
| record_caller: "pcs s c = Won \<Longrightarrow>
    lock_step s (s\<lparr>lk := (lk s)\<lparr>last_acquirer := Some r\<rparr>, pcs := (pcs s)(c := Held)\<rparr>)"
| clear_caller: "pcs s c = Held \<Longrightarrow>
    lock_step s (s\<lparr>lk := (lk s)\<lparr>last_acquirer := None\<rparr>, pcs := (pcs s)(c := Releasing)\<rparr>)"
| store_zero: "pcs s c = Releasing \<Longrightarrow>
    lock_step s (s\<lparr>lk := (lk s)\<lparr>lock := 0\<rparr>, pcs := (pcs s)(c := Idle)\<rparr>)"

definition inside :: "pc \<Rightarrow> bool" where
  "inside p \<longleftrightarrow> p = Won \<or> p = Held \<or> p = Releasing"

definition lock_start :: lock_state where
  "lock_start = \<lparr>lk = SPINLOCK_INIT, pcs = (\<lambda>_. Idle)\<rparr>"

text \<open>
  \<open>holder s q\<close>: \<open>q\<close> is the CPU inside, if any. The lock word is then 1, and a caller is recorded only
  while the lock is fully held; otherwise the lock is as it was at the start.
\<close>

definition holder :: "lock_state \<Rightarrow> nat option \<Rightarrow> bool" where
  "holder s q \<longleftrightarrow> (\<forall>c. inside (pcs s c) \<longleftrightarrow> q = Some c) \<and> (q = None \<longrightarrow> lk s = SPINLOCK_INIT) \<and>
     (\<forall>c. q = Some c \<longrightarrow> lock (lk s) = 1 \<and> (pcs s c \<noteq> Held \<longrightarrow> last_acquirer (lk s) = None))"

lemma holder_start: "holder lock_start None"
  by (simp add: holder_def lock_start_def inside_def)

lemma holder_outside:
  "holder s q \<Longrightarrow> \<not> inside (pcs s c) \<Longrightarrow> \<not> inside p \<Longrightarrow> holder (s\<lparr>pcs := (pcs s)(c := p)\<rparr>) q"
  unfolding holder_def by auto

lemma holder_free: "holder s q \<Longrightarrow> lock (lk s) = 0 \<longleftrightarrow> q = None"
  by (cases q) (auto simp: holder_def SPINLOCK_INIT_def)

lemma holder_inside: "holder s q \<Longrightarrow> inside (pcs s c) \<Longrightarrow> q = Some c"
  by (simp add: holder_def)

lemma holder_step: "lock_step s t \<Longrightarrow> holder s q \<Longrightarrow> \<exists>q'. holder t q'"
proof (induction rule: lock_step.induct)
  case (win s c n l)
  then have l: "lock (lk s) = 0" "l = (lk s)\<lparr>lock := 1\<rparr>" by (auto simp: spinlock_test_and_acq_def split: if_splits)
  then have "q = None" using holder_free [OF win(3)] by simp
  then have "holder (s\<lparr>lk := l, pcs := (pcs s)(c := Won)\<rparr>) (Some c)"
    using win(3) l by (simp add: holder_def inside_def SPINLOCK_INIT_def)
  then show ?case by blast
next
  case (record_caller s c r)
  then have "q = Some c" by (simp add: holder_inside inside_def)
  then have "holder (s\<lparr>lk := (lk s)\<lparr>last_acquirer := Some r\<rparr>, pcs := (pcs s)(c := Held)\<rparr>) (Some c)"
    using record_caller(2) by (simp add: holder_def inside_def)
  then show ?case by blast
next
  case (clear_caller s c)
  then have "q = Some c" by (simp add: holder_inside inside_def)
  then have "holder (s\<lparr>lk := (lk s)\<lparr>last_acquirer := None\<rparr>, pcs := (pcs s)(c := Releasing)\<rparr>) (Some c)"
    using clear_caller(2) by (simp add: holder_def inside_def)
  then show ?case by blast
next
  case (store_zero s c)
  then have "q = Some c" by (simp add: holder_inside inside_def)
  then have "holder (s\<lparr>lk := (lk s)\<lparr>lock := 0\<rparr>, pcs := (pcs s)(c := Idle)\<rparr>) None"
    using store_zero by (auto simp: holder_def inside_def SPINLOCK_INIT_def)
  then show ?case by blast
qed (auto simp: spinlock_test_and_acq_def inside_def intro!: exI [of _ q] holder_outside split: if_splits)

lemma holder_steps: "lock_step\<^sup>*\<^sup>* lock_start s \<Longrightarrow> \<exists>q. holder s q"
  by (induction rule: rtranclp_induct) (use holder_start holder_step in blast)+

lemma lock_progress: "pcs s c \<noteq> GaveUp \<Longrightarrow> \<exists>t. lock_step s t \<and> pcs t c \<noteq> pcs s c"
proof (cases "pcs s c")
  case (Spin n)
  consider l where "spinlock_test_and_acq (lk s) = (True, l)"
    | l where "spinlock_test_and_acq (lk s) = (False, l)" by (cases "spinlock_test_and_acq (lk s)") auto
  then show ?thesis
    using Spin lock_step.win [of s c n] lock_step.again [of s c n] lock_step.give_up [of s c n]
    by cases (cases "n + 1 < DEADLOCK_LIMIT"; fastforce)+
qed (fastforce dest: lock_step.intros)+



end
