(* ===== verification/Mm.thy ===== *)
theory Mm
  imports Vmm_Correct
begin

unbundle bit_operations_syntax

section \<open>Memory handlers of processes\<close>

text \<open>
  Model of \<^verbatim>\<open>global/mm.c\<close>: the regions of the address space of a process, a doubly linked list of
  heap objects per handler. Handlers and regions live in stores by address; \<^verbatim>\<open>malloc\<close> takes an
  address that no object has (the heap hands out blocks that overlap no block in use and
  panics when memory runs out), and \<^verbatim>\<open>free\<close> removes the object, so that using a freed region or
  a null pointer is a fault. \<open>page_data\<close> holds the bytes of the physical frames, which only
  \<^verbatim>\<open>mm_fork\<close> touches. The field \<^verbatim>\<open>memory_allocated\<close> of handlers is never used and left out.
\<close>

subsection \<open>Data\<close>

record memory_region =
  mbase :: nat
  msize :: nat
  block_count :: nat
  mfree :: bool
  mnext :: "nat option"
  mlast :: "nat option"

record memory_handler =
  hbase :: nat
  hsize :: nat
  region_count :: nat
  first_region :: "nat option"
  last_free_region :: "nat option"
  vmm_space :: nat
  mm_lock :: bool

record mm_state =
  mvmm :: vmm_state
  page_data :: "nat \<Rightarrow> nat \<Rightarrow> 8 word"
  regions :: "nat \<rightharpoonup> memory_region"
  handlers :: "nat \<rightharpoonup> memory_handler"
  brk :: nat

definition PROT_READ :: "32 word" where "PROT_READ = 0x01"
definition PROT_WRITE :: "32 word" where "PROT_WRITE = 0x02"
definition PROT_EXEC :: "32 word" where "PROT_EXEC = 0x04"

definition rread :: "nat option \<Rightarrow> (memory_region, mm_state) cmd" where
  "rread p s = (case p of None \<Rightarrow> Inl NullDeref | Some a \<Rightarrow>
     (case regions s a of None \<Rightarrow> Inl OutOfBounds | Some r \<Rightarrow> Inr (r, s)))"

definition rwrite :: "nat option \<Rightarrow> (memory_region \<Rightarrow> memory_region) \<Rightarrow> (unit, mm_state) cmd" where
  "rwrite p f s = (case p of None \<Rightarrow> Inl NullDeref | Some a \<Rightarrow>
     (case regions s a of None \<Rightarrow> Inl OutOfBounds
      | Some r \<Rightarrow> Inr ((), s\<lparr>regions := (regions s)(a \<mapsto> f r)\<rparr>)))"

definition hget :: "nat \<Rightarrow> (memory_handler, mm_state) cmd" where
  "hget h s = (case handlers s h of None \<Rightarrow> Inl OutOfBounds | Some x \<Rightarrow> Inr (x, s))"

definition hset :: "nat \<Rightarrow> (memory_handler \<Rightarrow> memory_handler) \<Rightarrow> (unit, mm_state) cmd" where
  "hset h f s = (case handlers s h of None \<Rightarrow> Inl OutOfBounds
     | Some x \<Rightarrow> Inr ((), s\<lparr>handlers := (handlers s)(h \<mapsto> f x)\<rparr>))"

definition new_region :: "memory_region \<Rightarrow> (nat, mm_state) cmd" where
  "new_region r s = Inr (brk s, s\<lparr>regions := (regions s)(brk s \<mapsto> r), brk := brk s + 1\<rparr>)"

definition new_handler :: "memory_handler \<Rightarrow> (nat, mm_state) cmd" where
  "new_handler x s = Inr (brk s, s\<lparr>handlers := (handlers s)(brk s \<mapsto> x), brk := brk s + 1\<rparr>)"

definition free_region :: "nat \<Rightarrow> (unit, mm_state) cmd" where
  "free_region a = modc (\<lambda>s. s\<lparr>regions := (regions s)(a := None)\<rparr>)"

definition mm_acquire :: "nat \<Rightarrow> (unit, mm_state) cmd" where
  "mm_acquire h = bindc (hget h) (\<lambda>x. seqc (assertc (\<not> mm_lock x)) (hset h (\<lambda>x. x\<lparr>mm_lock := True\<rparr>)))"

definition mm_release :: "nat \<Rightarrow> (unit, mm_state) cmd" where
  "mm_release h = hset h (\<lambda>x. x\<lparr>mm_lock := False\<rparr>)"

definition blocks :: "nat \<Rightarrow> nat" where
  "blocks sz = u64_add sz 4095 div 4096"

subsection \<open>Lists of regions\<close>

definition remove_region :: "nat \<Rightarrow> nat \<Rightarrow> (unit, mm_state) cmd" where
  "remove_region h region =
     bindc (rread (Some region)) (\<lambda>r.
     seqc (whenc (mlast r \<noteq> None) (rwrite (mlast r) (\<lambda>x. x\<lparr>mnext := mnext r\<rparr>)))
    (seqc (whenc (mnext r \<noteq> None) (rwrite (mnext r) (\<lambda>x. x\<lparr>mlast := mlast r\<rparr>)))
    (bindc (hget h) (\<lambda>x.
     seqc (whenc (last_free_region x = Some region)
       (hset h (\<lambda>x. x\<lparr>last_free_region := (if mlast r \<noteq> None then mlast r else mnext r)\<rparr>)))
    (seqc (hset h (\<lambda>x. x\<lparr>region_count := u64_sub (region_count x) 1\<rparr>))
    (free_region region))))))"

definition split_region :: "nat \<Rightarrow> nat \<Rightarrow> nat \<Rightarrow> (nat, mm_state) cmd" where
  "split_region h region sz =
     bindc (rread (Some region)) (\<lambda>r.
     if sz = 0 \<or> msize r = sz then ret region
     else if msize r < sz then ret region
     else
       bindc (new_region \<lparr>mbase = u64_add (mbase r) sz, msize = u64_sub (msize r) sz,
                block_count = blocks (u64_sub (msize r) sz), mfree = mfree r,
                mnext = mnext r, mlast = Some region\<rparr>) (\<lambda>new_region.
       seqc (whenc (mnext r \<noteq> None) (rwrite (mnext r) (\<lambda>x. x\<lparr>mlast := Some new_region\<rparr>)))
      (seqc (rwrite (Some region) (\<lambda>x. x\<lparr>mnext := Some new_region, msize := sz, block_count := blocks sz\<rparr>))
      (seqc (hset h (\<lambda>x. x\<lparr>region_count := u64_add (region_count x) 1\<rparr>))
      (ret new_region)))))"

definition merge_region :: "nat \<Rightarrow> nat \<Rightarrow> (nat option, mm_state) cmd" where
  "merge_region h region =
     bindc (rread (Some region)) (\<lambda>r.
     case mnext r of
       None \<Rightarrow> ret None
     | Some next \<Rightarrow>
         bindc (rread (Some next)) (\<lambda>from.
         seqc (rwrite (Some region) (\<lambda>x. x\<lparr>msize := u64_add (msize x) (msize from),
                 block_count := u64_add (block_count x) (block_count from)\<rparr>))
        (seqc (remove_region h next)
        (ret (Some region)))))"

definition mm_getmemory_flags_from_prot :: "32 word \<Rightarrow> memory_flags" where
  "mm_getmemory_flags_from_prot prot =
     MEMORY_FLAG_USER OR
     (if prot AND PROT_READ \<noteq> 0 then MEMORY_FLAG_READABLE else 0) OR
     (if prot AND PROT_WRITE \<noteq> 0 then MEMORY_FLAG_WRITABLE else 0) OR
     (if prot AND PROT_EXEC \<noteq> 0 then MEMORY_FLAG_EXECUTABLE else 0)"

subsection \<open>Handlers\<close>

definition mm_create_handler :: "nat \<Rightarrow> nat \<Rightarrow> nat \<Rightarrow> (nat, mm_state) cmd" where
  "mm_create_handler space base sz =
     bindc (new_handler \<lparr>hbase = base, hsize = sz, region_count = 0, first_region = None,
              last_free_region = None, vmm_space = space, mm_lock = False\<rparr>) (\<lambda>h.
     bindc (new_region \<lparr>mbase = base, msize = sz, block_count = blocks sz, mfree = True,
              mnext = None, mlast = None\<rparr>) (\<lambda>region.
     seqc (hset h (\<lambda>x. x\<lparr>first_region := Some region, last_free_region := Some region,
             region_count := u64_add (region_count x) 1\<rparr>))
    (ret h)))"

text \<open>
  The copying loop of \<^verbatim>\<open>mm_clone_handler\<close> and \<^verbatim>\<open>mm_fork\<close>: \<open>body\<close> is what \<^verbatim>\<open>mm_fork\<close> does with each region.
\<close>

fun copy_regions :: "(memory_region \<Rightarrow> (unit, mm_state) cmd) \<Rightarrow> nat \<Rightarrow> memory_handler \<Rightarrow> nat \<Rightarrow>
    nat option \<Rightarrow> nat option \<Rightarrow> (unit, mm_state) cmd" where
  "copy_regions body dst src 0 last_region region = ret ()"
| "copy_regions body dst src (Suc n) last_region region =
     bindc (rread region) (\<lambda>r.
     bindc (new_region r) (\<lambda>region_copy.
     seqc (body r)
    (seqc (case last_region of None \<Rightarrow> ret ()
           | Some l \<Rightarrow> seqc (rwrite (Some region_copy) (\<lambda>x. x\<lparr>mlast := Some l\<rparr>))
                          (rwrite (Some l) (\<lambda>x. x\<lparr>mnext := Some region_copy\<rparr>)))
    (seqc (whenc (region = first_region src) (hset dst (\<lambda>x. x\<lparr>first_region := Some region_copy\<rparr>)))
    (seqc (whenc (region = last_free_region src) (hset dst (\<lambda>x. x\<lparr>last_free_region := Some region_copy\<rparr>)))
    (copy_regions body dst src n (Some region_copy) (mnext r)))))))"

definition mm_clone_handler :: "nat \<Rightarrow> nat \<Rightarrow> (nat, mm_state) cmd" where
  "mm_clone_handler space source =
     bindc (hget source) (\<lambda>src.
     bindc (new_handler \<lparr>hbase = hbase src, hsize = hsize src, region_count = region_count src,
              first_region = None, last_free_region = None, vmm_space = space, mm_lock = False\<rparr>) (\<lambda>dst.
     seqc (copy_regions (\<lambda>_. ret ()) dst src (region_count src) None (first_region src))
    (seqc (hset dst (\<lambda>x. x\<lparr>mm_lock := False\<rparr>))
    (ret dst))))"

definition mm_free_handler :: "nat \<Rightarrow> (errno, mm_state) cmd" where
  "mm_free_handler h = ret EOK"

fun free_regions :: "nat \<Rightarrow> nat option \<Rightarrow> (unit, mm_state) cmd" where
  "free_regions 0 region = ret ()"
| "free_regions (Suc n) region =
     bindc (rread region) (\<lambda>r. seqc (free_region (the region)) (free_regions n (mnext r)))"

definition free_handler :: "nat \<Rightarrow> (errno, mm_state) cmd" where
  "free_handler h =
     bindc (hget h) (\<lambda>x.
     seqc (free_regions (region_count x) (first_region x))
    (seqc (modc (\<lambda>s. s\<lparr>handlers := (handlers s)(h := None)\<rparr>))
    (ret EOK)))"

subsection \<open>Allocation of address ranges\<close>

fun get_region_loop :: "nat \<Rightarrow> nat option \<Rightarrow> nat \<Rightarrow> (nat option, mm_state) cmd" where
  "get_region_loop 0 region base = ret None"
| "get_region_loop (Suc n) region base =
     bindc (rread region) (\<lambda>r.
     if mbase r \<le> base \<and> u64_add (mbase r) (msize r) > base then ret region
     else get_region_loop n (mnext r) base)"

definition mm_get_region :: "nat \<Rightarrow> nat \<Rightarrow> (nat option, mm_state) cmd" where
  "mm_get_region h base =
     bindc (hget h) (\<lambda>x.
     if base > u64_add (hbase x) (hsize x) then ret None
     else get_region_loop (region_count x) (first_region x) base)"

text \<open>
  \<open>merge_until fuel h region sz\<close> merges successors until the region has \<open>sz\<close> bytes. It returns
  whether it succeeded before the list ended; each round removes a region, so a fuel above
  the number of regions is enough.
\<close>

fun merge_until :: "nat \<Rightarrow> nat \<Rightarrow> nat \<Rightarrow> nat \<Rightarrow> (bool, mm_state) cmd" where
  "merge_until 0 h region sz = stop NoReturn"
| "merge_until (Suc fuel) h region sz =
     bindc (rread (Some region)) (\<lambda>r.
     if msize r < sz then
       bindc (merge_region h region) (\<lambda>m. if m = None then ret False else merge_until fuel h region sz)
     else ret True)"

fun find_free_region :: "nat \<Rightarrow> nat option \<Rightarrow> nat \<Rightarrow> (nat option, mm_state) cmd" where
  "find_free_region 0 tmp sz = ret None"
| "find_free_region (Suc n) tmp sz =
     bindc (rread tmp) (\<lambda>r.
     if mfree r \<and> msize r \<ge> sz then ret tmp else find_free_region n (mnext r) sz)"

text \<open>
  The end of allocation (\<open>g\<close> is \<open>False\<close>) and of release (\<open>g\<close> is \<open>True\<close>): the region is merged with a successor
  in the state \<open>g\<close>, gets this state, and is merged into a predecessor in the same state.
\<close>

definition settle_region :: "nat \<Rightarrow> nat \<Rightarrow> bool \<Rightarrow> (unit, mm_state) cmd" where
  "settle_region h region g =
     bindc (rread (Some region)) (\<lambda>r.
     seqc (case mnext r of None \<Rightarrow> ret ()
           | Some _ \<Rightarrow> bindc (rread (mnext r)) (\<lambda>n.
               whenc (if g then mfree n else \<not> mfree n) (bindc (merge_region h region) (\<lambda>m. assertc (m \<noteq> None)))))
    (seqc (rwrite (Some region) (\<lambda>x. x\<lparr>mfree := g\<rparr>))
    (bindc (rread (Some region)) (\<lambda>r.
     case mlast r of None \<Rightarrow> ret ()
     | Some lr \<Rightarrow> bindc (rread (mlast r)) (\<lambda>l.
         whenc (if g then mfree l else \<not> mfree l) (bindc (merge_region h lr) (\<lambda>m. assertc (m \<noteq> None))))))))"

definition mm_allocate_fixed :: "nat \<Rightarrow> nat \<Rightarrow> nat \<Rightarrow> (errno + nat, mm_state) cmd" where
  "mm_allocate_fixed h base sz =
     bindc (mm_get_region h base) (\<lambda>region.
     bindc (hget h) (\<lambda>x.
     case region of
       None \<Rightarrow>
         seqc (mm_release h)
        (if u64_add base sz > u64_add (hbase x) (hsize x) then ret (Inl EINVAL) else ret (Inr base))
     | Some region \<Rightarrow>
         bindc (rread (Some region)) (\<lambda>r.
         let size_unusable = u64_sub base (mbase r) in
         bindc (merge_until (region_count x + 1) h region (u64_add size_unusable sz)) (\<lambda>enough.
         bindc (rread (Some region)) (\<lambda>r.
         if \<not> enough \<and> u64_add (mbase r) (msize r) > u64_add (hbase x) (hsize x) then ret (Inl EINVAL)
         else
           bindc (if mfree r then
                    bindc (split_region h region size_unusable) (\<lambda>region.
                    bindc (split_region h region sz) (\<lambda>_. ret region))
                  else ret region) (\<lambda>region.
           seqc (settle_region h region False)
          (seqc (mm_release h)
          (ret (Inr base)))))))))"

definition mm_allocate_anywhere :: "nat \<Rightarrow> nat \<Rightarrow> (errno + nat, mm_state) cmd" where
  "mm_allocate_anywhere h sz =
     bindc (hget h) (\<lambda>x.
     bindc (find_free_region (region_count x) (last_free_region x) sz) (\<lambda>region_to_split.
     case region_to_split of
       None \<Rightarrow> seqc (mm_release h) (ret (Inl ENOMEM))
     | Some region \<Rightarrow>
         bindc (split_region h region sz) (\<lambda>_.
         bindc (rread (Some region)) (\<lambda>r.
         seqc (settle_region h region False)
        (seqc (mm_release h)
        (ret (Inr (mbase r))))))))"

definition mm_allocate_region_vm :: "nat \<Rightarrow> nat \<Rightarrow> nat \<Rightarrow> bool \<Rightarrow> (errno + nat, mm_state) cmd" where
  "mm_allocate_region_vm h base sz is_fixed =
     (let (base, sz) = (if base mod PAGE_SIZE \<noteq> 0
                        then (base - base mod PAGE_SIZE, u64_add sz (base mod PAGE_SIZE)) else (base, sz));
          sz = round_up PAGE_SIZE sz
      in seqc (mm_acquire h)
           (if is_fixed then mm_allocate_fixed h base sz else mm_allocate_anywhere h sz))"

definition mm_free_region :: "nat \<Rightarrow> nat \<Rightarrow> nat \<Rightarrow> (errno, mm_state) cmd" where
  "mm_free_region h base sz =
     seqc (assertc (base mod PAGE_SIZE = 0))
    (seqc (assertc (sz mod PAGE_SIZE = 0))
    (seqc (mm_acquire h)
    (bindc (mm_get_region h base) (\<lambda>region.
     bindc (rread region) (\<lambda>r.
     bindc (if mbase r \<noteq> base then split_region h (the region) (u64_sub base (mbase r)) else ret (the region)) (\<lambda>region.
     bindc (hget h) (\<lambda>x.
     bindc (merge_until (region_count x + 1) h region sz) (\<lambda>enough.
     if \<not> enough then ret EINVAL
     else
       bindc (rread (Some region)) (\<lambda>r.
       bindc (if msize r > sz then split_region h region sz else ret region) (\<lambda>region.
       seqc (settle_region h region True)
      (seqc (mm_release h)
      (ret EOK))))))))))))"

subsection \<open>Pages\<close>

abbreviation on_vmm :: "('a, vmm_state) cmd \<Rightarrow> ('a, mm_state) cmd" where
  "on_vmm \<equiv> zoomc mvmm (\<lambda>v s. s\<lparr>mvmm := v\<rparr>)"

definition mm_allocate_memory_block :: "nat \<Rightarrow> nat \<Rightarrow> nat \<Rightarrow> 32 word \<Rightarrow> (nat, mm_state) cmd" where
  "mm_allocate_memory_block h base sz prot =
     bindc (hget h) (\<lambda>x.
     on_vmm (vmm_map_allocate (vmm_space x) \<lparr>range_address = base, range_size = sz\<rparr>
       (mm_getmemory_flags_from_prot prot)))"

definition mm_unmap :: "nat \<Rightarrow> nat \<Rightarrow> nat \<Rightarrow> (errno, mm_state) cmd" where
  "mm_unmap h base sz =
     bindc (hget h) (\<lambda>x.
     if base < hbase x then ret EINVAL
     else if u64_add base sz > u64_add (hbase x) (hsize x) then ret EINVAL
     else on_vmm (vmm_unmap (vmm_space x) \<lparr>range_address = base, range_size = sz\<rparr>))"

definition mm_protect :: "nat \<Rightarrow> nat \<Rightarrow> nat \<Rightarrow> 32 word \<Rightarrow> (errno, mm_state) cmd" where
  "mm_protect h base sz prot =
     bindc (hget h) (\<lambda>x.
     on_vmm (vmm_update_flags (vmm_space x) \<lparr>range_address = base, range_size = sz\<rparr>
       (mm_getmemory_flags_from_prot prot)))"

text \<open>
  The copy of one page reads through the address space in use, as the CPU does; an address
  that is not mapped there faults.
\<close>

definition fork_page :: "nat \<Rightarrow> nat \<Rightarrow> nat \<Rightarrow> (unit, mm_state) cmd" where
  "fork_page dst_space src_space virtual_address =
     bindc (on_vmm vmm_allocate_page) (\<lambda>physical_address.
     bindc (on_vmm (vmm_get_flags src_space virtual_address)) (\<lambda>flags.
     bindc (on_vmm (vmm_map dst_space \<lparr>range_address = virtual_address, range_size = PAGE_SIZE\<rparr>
              \<lparr>range_address = physical_address, range_size = PAGE_SIZE\<rparr> flags)) (\<lambda>_.
     bindc (getc (\<lambda>s. translate (mvmm s) (frame (cr3 (mvmm s))) virtual_address)) (\<lambda>a.
     case a of None \<Rightarrow> stop OutOfBounds
     | Some a \<Rightarrow> modc (\<lambda>s. s\<lparr>page_data := (page_data s)(frame physical_address := page_data s (frame a))\<rparr>)))))"

fun fork_pages :: "nat \<Rightarrow> nat \<Rightarrow> nat \<Rightarrow> nat list \<Rightarrow> (unit, mm_state) cmd" where
  "fork_pages dst_space src_space base [] = ret ()"
| "fork_pages dst_space src_space base (i # is) =
     seqc (fork_page dst_space src_space (u64_add base (i * PAGE_SIZE))) (fork_pages dst_space src_space base is)"

definition mm_fork :: "nat \<Rightarrow> nat \<Rightarrow> (errno, mm_state) cmd" where
  "mm_fork dst src =
     bindc (hget src) (\<lambda>s.
     seqc (hset dst (\<lambda>x. x\<lparr>hbase := hbase s, hsize := hsize s, region_count := region_count s\<rparr>))
    (bindc (hget dst) (\<lambda>d.
     seqc (copy_regions (\<lambda>r. if \<not> mfree r then fork_pages (vmm_space d) (vmm_space s) (mbase r) [0..<block_count r]
                              else ret ()) dst s (region_count s) None (first_region s))
    (ret EOK))))"

end
