(* ===== verification/Mm_Correct.thy ===== *)
theory Mm_Correct
  imports Mm
begin

section \<open>Correctness of the memory handlers\<close>

text \<open>
  The abstract view of a handler is the list of its regions, each a base, a size and whether it
  is free; \<open>rseg\<close> relates the linked regions in the store to this list and \<open>tiles\<close> says that they
  partition the address range. Splitting and merging are edits of the list that keep the set
  of free addresses, and allocation and release are shown on this set.
\<close>

subsection \<open>Access to the stores\<close>

lemma wp_rread [wp_simps]: "wp (rread (Some a)) Q s = (case regions s a of None \<Rightarrow> False | Some r \<Rightarrow> Q r s)"
  by (simp add: wp_def rread_def split: option.split)

lemma wp_rwrite [wp_simps]:
  "wp (rwrite (Some a) f) Q s =
     (case regions s a of None \<Rightarrow> False | Some r \<Rightarrow> Q () (s\<lparr>regions := (regions s)(a \<mapsto> f r)\<rparr>))"
  by (simp add: wp_def rwrite_def split: option.split)

lemma wp_hget [wp_simps]: "wp (hget h) Q s = (case handlers s h of None \<Rightarrow> False | Some x \<Rightarrow> Q x s)"
  by (simp add: wp_def hget_def split: option.split)

lemma wp_hset [wp_simps]:
  "wp (hset h f) Q s =
     (case handlers s h of None \<Rightarrow> False | Some x \<Rightarrow> Q () (s\<lparr>handlers := (handlers s)(h \<mapsto> f x)\<rparr>))"
  by (simp add: wp_def hset_def split: option.split)

lemma wp_new_region [wp_simps]:
  "wp (new_region r) Q s = Q (brk s) (s\<lparr>regions := (regions s)(brk s \<mapsto> r), brk := brk s + 1\<rparr>)"
  by (simp add: wp_def new_region_def)

lemma wp_new_handler [wp_simps]:
  "wp (new_handler x) Q s = Q (brk s) (s\<lparr>handlers := (handlers s)(brk s \<mapsto> x), brk := brk s + 1\<rparr>)"
  by (simp add: wp_def new_handler_def)

lemma wp_free_region [wp_simps]: "wp (free_region a) Q s = Q () (s\<lparr>regions := (regions s)(a := None)\<rparr>)"
  by (simp add: free_region_def wp_simps)

subsection \<open>Lists of regions\<close>

type_synonym rview = "nat \<times> nat \<times> bool"

fun mkr :: "rview \<Rightarrow> nat option \<Rightarrow> nat option \<Rightarrow> memory_region" where
  "mkr (b, z, f) l n = \<lparr>mbase = b, msize = z, block_count = z div 4096, mfree = f, mnext = n, mlast = l\<rparr>"

fun nxt :: "nat list \<Rightarrow> nat option \<Rightarrow> nat option" where
  "nxt [] q = q"
| "nxt (a # as) q = Some a"

fun prv :: "nat option \<Rightarrow> nat list \<Rightarrow> nat option" where
  "prv l [] = l"
| "prv l (a # as) = prv (Some a) as"

fun rseg :: "(nat \<rightharpoonup> memory_region) \<Rightarrow> nat option \<Rightarrow> nat list \<Rightarrow> rview list \<Rightarrow> nat option \<Rightarrow> bool" where
  "rseg m l [] [] q = True"
| "rseg m l (a # as) (v # vs) q = (m a = Some (mkr v l (nxt as q)) \<and> rseg m (Some a) as vs q)"
| "rseg m l _ _ q = False"

lemma rseg_length: "rseg m l xs vs q \<Longrightarrow> length xs = length vs"
  by (induction m l xs vs q rule: rseg.induct) auto

lemma nxt_append: "nxt (as @ bs) q = nxt as (nxt bs q)"
  by (cases as) auto

lemma rseg_append:
  "length as = length us \<Longrightarrow> rseg m l (as @ bs) (us @ vs) q \<longleftrightarrow> rseg m l as us (nxt bs q) \<and> rseg m (prv l as) bs vs q"
  by (induction as us arbitrary: l rule: list_induct2) (auto simp: nxt_append)

lemma rseg_cong: "(\<And>a. a \<in> set xs \<Longrightarrow> m' a = m a) \<Longrightarrow> rseg m' l xs vs q = rseg m l xs vs q"
  by (induction m l xs vs q rule: rseg.induct) auto

lemma rseg_split:
  assumes "rseg m l xs (U @ v # W) q"
  obtains us a ws where "xs = us @ a # ws" "length us = length U" "length ws = length W"
proof -
  have l: "length xs = length U + Suc (length W)" using rseg_length [OF assms] by simp
  then have "xs = take (length U) xs @ xs ! length U # drop (Suc (length U)) xs" by (simp add: id_take_nth_drop)
  then show thesis using l by (intro that [of "take (length U) xs" "xs ! length U" "drop (Suc (length U)) xs"]) auto
qed

text \<open>The element after an insertion or removal point gets a new predecessor.\<close>

definition relink :: "nat list \<Rightarrow> nat \<Rightarrow> (nat \<rightharpoonup> memory_region) \<Rightarrow> (nat \<rightharpoonup> memory_region)" where
  "relink ws a m = (case ws of [] \<Rightarrow> m | c # _ \<Rightarrow> m(c := map_option (\<lambda>r. r\<lparr>mlast := Some a\<rparr>) (m c)))"

lemma relink_other: "c \<notin> set ws \<Longrightarrow> relink ws a m c = m c"
  by (cases ws) (auto simp: relink_def)

lemma rseg_relink:
  assumes "rseg m l ws W q" "distinct ws"
  shows "rseg (relink ws a m) (Some a) ws W q"
proof (cases ws)
  case Nil
  with assms show ?thesis by (cases W) auto
next
  case (Cons c cs)
  then obtain v vs where W: "W = v # vs" using assms(1) by (cases W) auto
  obtain b z f where v: "v = (b, z, f)" by (cases v)
  have "rseg (relink ws a m) (Some c) cs vs q = rseg m (Some c) cs vs q"
    using assms(2) Cons by (intro rseg_cong) (auto simp: relink_def)
  moreover have "relink ws a m c = Some (mkr v (Some a) (nxt cs q))"
    using assms(1) Cons W v by (simp add: relink_def)
  ultimately show ?thesis using assms(1) Cons W by simp
qed

subsection \<open>The invariant\<close>

fun tiles :: "nat \<Rightarrow> rview list \<Rightarrow> nat \<Rightarrow> bool" where
  "tiles b [] e = (b = e)"
| "tiles b ((b', z, f) # vs) e = (b' = b \<and> 0 < z \<and> z mod 4096 = 0 \<and> tiles (b + z) vs e)"

lemma tiles_append: "tiles b (us @ vs) e \<longleftrightarrow> (\<exists>c. tiles b us c \<and> tiles c vs e)"
  by (induction b us e rule: tiles.induct) auto

lemma tiles_le: "tiles b vs e \<Longrightarrow> b + 4096 * length vs \<le> e"
proof (induction b vs e rule: tiles.induct)
  case (2 b b' z f vs e)
  then have "4096 \<le> z" by (auto elim: dvdE simp: mod_eq_0_iff_dvd)
  with 2 show ?case by auto
qed simp

definition free_set :: "rview list \<Rightarrow> nat set" where
  "free_set vs = (\<Union>(b, z, f) \<in> set vs. if f then {b..<b + z} else {})"

lemma free_set_simps [simp]:
  "free_set [] = {}"
  "free_set ((b, z, f) # vs) = (if f then {b..<b + z} else {}) \<union> free_set vs"
  "free_set (us @ vs) = free_set us \<union> free_set vs"
  by (auto simp: free_set_def)

lemma tiles_free_set: "tiles b vs e \<Longrightarrow> free_set vs \<subseteq> {b..<e}"
proof (induction b vs e rule: tiles.induct)
  case (2 b b' z f vs e)
  then have "b + z \<le> e" using tiles_le [of "b + z" vs e] by simp
  with 2 show ?case by auto
qed simp

text \<open>
  \<open>mm_core k s h xs vs\<close>: the handler \<open>h\<close> has the regions \<open>vs\<close> at the addresses \<open>xs\<close>, and its lock is
  held if and only if \<open>k\<close>.
\<close>

definition mm_core :: "bool \<Rightarrow> mm_state \<Rightarrow> nat \<Rightarrow> nat list \<Rightarrow> rview list \<Rightarrow> bool" where
  "mm_core k s h xs vs \<longleftrightarrow> (\<exists>b z sp. handlers s h = Some \<lparr>hbase = b, hsize = z, region_count = length vs,
       first_region = Some (hd xs), last_free_region = Some (hd xs), vmm_space = sp, mm_lock = k\<rparr> \<and>
     tiles b vs (b + z) \<and> b mod 4096 = 0 \<and> b + z < 2 ^ 64) \<and>
     rseg (regions s) None xs vs None \<and> distinct xs \<and> xs \<noteq> [] \<and> (\<forall>a \<in> set xs. a < brk s)"

definition mm_inv :: "mm_state \<Rightarrow> nat \<Rightarrow> rview list \<Rightarrow> bool" where
  "mm_inv s h vs \<longleftrightarrow> (\<exists>xs. mm_core False s h xs vs)"

lemma mm_coreE:
  assumes "mm_core k s h xs vs"
  obtains b z sp where "handlers s h = Some \<lparr>hbase = b, hsize = z, region_count = length vs,
      first_region = Some (hd xs), last_free_region = Some (hd xs), vmm_space = sp, mm_lock = k\<rparr>"
    "tiles b vs (b + z)" "b mod 4096 = 0" "b + z < 2 ^ 64" "length vs < 2 ^ 52"
    "rseg (regions s) None xs vs None" "distinct xs" "xs \<noteq> []" "\<forall>a \<in> set xs. a < brk s"
proof -
  from assms obtain b z sp where *: "handlers s h = Some \<lparr>hbase = b, hsize = z, region_count = length vs,
      first_region = Some (hd xs), last_free_region = Some (hd xs), vmm_space = sp, mm_lock = k\<rparr>"
    "tiles b vs (b + z)" "b mod 4096 = 0" "b + z < 2 ^ 64"
    "rseg (regions s) None xs vs None" "distinct xs" "xs \<noteq> []" "\<forall>a \<in> set xs. a < brk s"
    unfolding mm_core_def by (elim exE conjE) (rule that, assumption+)
  moreover have "length vs < 2 ^ 52" using tiles_le [OF *(2)] *(4) by simp
  ultimately show thesis by (intro that)
qed

subsection \<open>Splitting and merging\<close>

lemma rseg_merge:
  assumes "rseg m None (us @ a # b # ws) (U @ va # vb # W) None" "distinct (us @ a # b # ws)" "length us = length U"
    and m': "m' a = Some (mkr v (prv None us) (nxt ws None))" "\<And>c. c \<noteq> a \<Longrightarrow> c \<noteq> b \<Longrightarrow> m' c = relink ws a m c"
  shows "rseg m' None (us @ a # ws) (U @ v # W) None"
proof -
  have "c \<noteq> a \<and> c \<noteq> b \<and> c \<notin> set ws" if "c \<in> set us" for c using assms(2) that by auto
  then have "rseg m' None us U (Some a) = rseg m None us U (Some a)"
    by (intro rseg_cong) (simp add: m'(2) relink_other)
  moreover have "c \<noteq> a \<and> c \<noteq> b" if "c \<in> set ws" for c using assms(2) that by auto
  then have "rseg m' (Some a) ws W None = rseg (relink ws a m) (Some a) ws W None"
    by (intro rseg_cong) (simp add: m'(2))
  ultimately show ?thesis
    using assms(1-3) m'(1) rseg_relink [of m "Some b" ws W None a] by (simp add: rseg_append)
qed

lemma rseg_insert:
  assumes "rseg m None (us @ a # ws) (U @ v # W) None" "distinct (us @ a # ws)" "length us = length U" "n \<notin> set (us @ a # ws)"
    and m': "m' a = Some (mkr v1 (prv None us) (Some n))" "m' n = Some (mkr v2 (Some a) (nxt ws None))"
      "\<And>c. c \<noteq> a \<Longrightarrow> c \<noteq> n \<Longrightarrow> m' c = relink ws n m c"
  shows "rseg m' None (us @ a # n # ws) (U @ v1 # v2 # W) None"
proof -
  have "c \<noteq> a \<and> c \<noteq> n \<and> c \<notin> set ws" if "c \<in> set us" for c using assms(2,4) that by auto
  then have "rseg m' None us U (Some a) = rseg m None us U (Some a)"
    by (intro rseg_cong) (simp add: m'(3) relink_other)
  moreover have "c \<noteq> a \<and> c \<noteq> n" if "c \<in> set ws" for c using assms(2,4) that by auto
  then have "rseg m' (Some n) ws W None = rseg (relink ws n m) (Some n) ws W None"
    by (intro rseg_cong) (simp add: m'(3))
  ultimately show ?thesis
    using assms(1-3) m'(1,2) rseg_relink [of m "Some a" ws W None n] by (simp add: rseg_append)
qed

lemma rseg_mid:
  "rseg m None (us @ a # ws) (U @ v # W) None \<Longrightarrow> length us = length U \<Longrightarrow>
   m a = Some (mkr v (prv None us) (nxt ws None)) \<and> rseg m (Some a) ws W None"
  by (simp add: rseg_append)

lemma hd_mid: "hd (us @ a # b # ws) = hd (us @ a # vs)"
  by (cases us) auto

lemma tiles_merge:
  "tiles b0 (U @ (ba, za, fa) # (bb, zb, fb) # W) e \<Longrightarrow> tiles b0 (U @ (ba, za + zb, f) # W) e \<and> bb = ba + za"
  by (auto simp: tiles_append add.assoc)

lemma tiles_split:
  "tiles b0 (U @ (ba, za, fa) # W) e \<Longrightarrow> 0 < sz \<Longrightarrow> sz < za \<Longrightarrow> sz mod 4096 = 0 \<Longrightarrow>
   tiles b0 (U @ (ba, sz, f) # (ba + sz, za - sz, f') # W) e"
  by (auto simp: tiles_append mod_eq_0_iff_dvd)

lemma tiles_bounds: "tiles b0 (U @ (ba, za, fa) # W) e \<Longrightarrow> b0 \<le> ba \<and> ba + za \<le> e \<and> 0 < za \<and> za mod 4096 = 0"
  using tiles_le by (fastforce simp: tiles_append)

lemma div4096_add: "za mod 4096 = 0 \<Longrightarrow> (za + zb) div 4096 = za div 4096 + zb div 4096" for za zb :: nat
  by (auto simp: mod_eq_0_iff_dvd elim!: dvdE)

lemma u64_add_frames: "za + zb < 18446744073709551616 \<Longrightarrow> u64_add (za div 4096) (zb div 4096) = za div 4096 + zb div 4096"
  by (rule u64_add_small) (use div_le_dividend [of za 4096] div_le_dividend [of zb 4096] in linarith)

lemma merge_region_wp:
  assumes core: "mm_core k s h (us @ a # b # ws) (U @ (ba, za, fa) # (bb, zb, fb) # W)" and len: "length us = length U"
    and Q: "\<And>t. mm_core k t h (us @ a # ws) (U @ (ba, za + zb, fa) # W) \<Longrightarrow> Q (Some a) t"
  shows "wp (merge_region h a) Q s"
  using core
proof (rule mm_coreE)
  fix b0 z sp
  let ?xs = "us @ a # b # ws" let ?vs = "U @ (ba, za, fa) # (bb, zb, fb) # W"
  let ?x = "\<lparr>hbase = b0, hsize = z, region_count = length ?vs, first_region = Some (hd ?xs),
    last_free_region = Some (hd ?xs), vmm_space = sp, mm_lock = k\<rparr>"
  assume x: "handlers s h = Some ?x" and t: "tiles b0 ?vs (b0 + z)" "b0 mod 4096 = 0" "b0 + z < 2 ^ 64" "length ?vs < 2 ^ 52"
    and r: "rseg (regions s) None ?xs ?vs None" and d: "distinct ?xs" "\<forall>c \<in> set ?xs. c < brk s"
  have a: "regions s a = Some (mkr (ba, za, fa) (prv None us) (Some b))"
    and rb: "rseg (regions s) (Some a) (b # ws) ((bb, zb, fb) # W) None"
    using rseg_mid [OF r len] by simp_all
  have b: "regions s b = Some (mkr (bb, zb, fb) (Some a) (nxt ws None))" using rb by simp
  have t': "tiles b0 (U @ (ba, za + zb, fa) # W) (b0 + z)" using tiles_merge [OF t(1)] by blast
  have sz: "u64_add za zb = za + zb" "u64_add (za div 4096) (zb div 4096) = (za + zb) div 4096"
    "u64_sub (Suc (Suc (length U + length W))) (Suc 0) = Suc (length U + length W)"
    using tiles_bounds [OF t'] tiles_bounds [OF t(1)] t(3,4)
    by (simp_all add: u64_add_frames u64_add_small u64_sub_small div4096_add)
  have hd: "hd ?xs \<noteq> b" and ab: "a \<noteq> b" using d by (cases us; auto)+
  have core': "mm_core k t h (us @ a # ws) (U @ (ba, za + zb, fa) # W)"
    if "handlers t h = Some (?x\<lparr>region_count := length (U @ (ba, za + zb, fa) # W)\<rparr>)" "brk t = brk s"
      "regions t a = Some (mkr (ba, za + zb, fa) (prv None us) (nxt ws None))"
      "\<And>c. c \<noteq> a \<Longrightarrow> c \<noteq> b \<Longrightarrow> regions t c = relink ws a (regions s) c" for t
    using rseg_merge [OF r d(1) len that(3,4)] that(1,2) t' t d hd_mid [of us a b ws ws] by (auto simp: mm_core_def)
  show ?thesis
  proof (cases ws)
    case Nil
    show ?thesis
      unfolding merge_region_def remove_region_def
      using ab hd by (simp add: wp_simps a b x Nil sz) (rule Q, rule core'; simp add: Nil relink_def)
  next
    case (Cons c cs)
    obtain c' where c: "regions s c = Some c'" "c \<noteq> a" "c \<noteq> b" using rb d Cons by (cases W) auto
    then show ?thesis
      unfolding merge_region_def remove_region_def
      using ab hd by (simp add: wp_simps a b x Cons sz) (rule Q, rule core'; simp add: Cons relink_def)
  qed
qed

lemma blocks_aligned: "z mod 4096 = 0 \<Longrightarrow> z < 18446744073709551616 \<Longrightarrow> blocks z = z div 4096"
proof -
  assume "z mod 4096 = 0" "z < 18446744073709551616"
  then obtain q where "z = 4096 * q" "q < 4503599627370496" by (auto simp: mod_eq_0_iff_dvd elim!: dvdE)
  then show "blocks z = z div 4096" by (simp add: blocks_def u64_add_small)
qed

lemma split_region_wp:
  assumes core: "mm_core k s h (us @ a # ws) (U @ (ba, za, fa) # W)" and len: "length us = length U"
    and sz: "0 < sz" "sz < za" "sz mod 4096 = 0"
    and Q: "\<And>t n. mm_core k t h (us @ a # n # ws) (U @ (ba, sz, fa) # (ba + sz, za - sz, fa) # W) \<Longrightarrow> Q n t"
  shows "wp (split_region h a sz) Q s"
  using core
proof (rule mm_coreE)
  fix b0 z sp
  let ?xs = "us @ a # ws" let ?vs = "U @ (ba, za, fa) # W" let ?vs' = "U @ (ba, sz, fa) # (ba + sz, za - sz, fa) # W"
  let ?x = "\<lparr>hbase = b0, hsize = z, region_count = length ?vs, first_region = Some (hd ?xs),
    last_free_region = Some (hd ?xs), vmm_space = sp, mm_lock = k\<rparr>" let ?n = "brk s"
  assume x: "handlers s h = Some ?x" and t: "tiles b0 ?vs (b0 + z)" "b0 mod 4096 = 0" "b0 + z < 2 ^ 64" "length ?vs < 2 ^ 52"
    and r: "rseg (regions s) None ?xs ?vs None" and d: "distinct ?xs" "\<forall>c \<in> set ?xs. c < brk s"
  have a: "regions s a = Some (mkr (ba, za, fa) (prv None us) (nxt ws None))"
    and rw: "rseg (regions s) (Some a) ws W None" using rseg_mid [OF r len] by simp_all
  have n: "?n \<notin> set ?xs" using d(2) by blast
  note tb = tiles_bounds [OF t(1)]
  have t': "tiles b0 ?vs' (b0 + z)" using tiles_split [OF t(1) sz] by simp
  have al: "(za - sz) mod 4096 = 0" using tiles_bounds [of b0 "U @ [(ba, sz, fa)]" "ba + sz" "za - sz" fa W] t' by simp
  have lt: "za - sz < 18446744073709551616" "sz < 18446744073709551616" using tb sz t(3) by auto
  have w: "u64_add ba sz = ba + sz" "u64_sub za sz = za - sz" "blocks (za - sz) = (za - sz) div 4096"
    "blocks sz = sz div 4096" "u64_add (Suc (length U + length W)) (Suc 0) = Suc (Suc (length U + length W))"
    using tb sz t(3,4) al lt by (simp_all add: u64_add_small u64_sub_small blocks_aligned)
  have core': "mm_core k t h (us @ a # ?n # ws) ?vs'"
    if "handlers t h = Some (?x\<lparr>region_count := length ?vs'\<rparr>)" "brk t = brk s + 1"
      "regions t a = Some (mkr (ba, sz, fa) (prv None us) (Some ?n))"
      "regions t ?n = Some (mkr (ba + sz, za - sz, fa) (Some a) (nxt ws None))"
      "\<And>c. c \<noteq> a \<Longrightarrow> c \<noteq> ?n \<Longrightarrow> regions t c = relink ws ?n (regions s) c" for t
    using rseg_insert [OF r d(1) len n that(3,4,5)] that(1,2) t' t d n hd_mid [of us a ?n ws ws]
    by (auto simp: mm_core_def intro: less_SucI)
  have na: "?n \<noteq> a" using n by auto
  show ?thesis
  proof (cases ws)
    case Nil
    show ?thesis unfolding split_region_def using sz na
      by (simp add: wp_simps a x Nil w) (rule Q, rule core'; simp add: Nil relink_def)
  next
    case (Cons c cs)
    obtain c' where c: "regions s c = Some c'" "c \<noteq> a" "c \<noteq> ?n" using rw d n Cons by (cases W) auto
    then show ?thesis unfolding split_region_def using sz na
      by (simp add: wp_simps a x Cons w) (rule Q, rule core'; simp add: Cons relink_def)
  qed
qed

lemma mm_core_node:
  assumes "mm_core k s h (us @ a # ws) (U @ v # W)" "length us = length U"
  shows "regions s a = Some (mkr v (prv None us) (nxt ws None)) \<and> rseg (regions s) (Some a) ws W None"
proof (rule rseg_mid [OF _ assms(2)])
  show "rseg (regions s) None (us @ a # ws) (U @ v # W) None" using assms(1) by (simp add: mm_core_def)
qed

lemma split_region_same:
  assumes core: "mm_core k s h (us @ a # ws) (U @ (ba, za, fa) # W)" and len: "length us = length U"
    and "sz = 0 \<or> za \<le> sz" "Q a s"
  shows "wp (split_region h a sz) Q s"
proof -
  have a: "regions s a = Some (mkr (ba, za, fa) (prv None us) (nxt ws None))" using mm_core_node [OF core len] by simp
  show ?thesis using assms(3,4) by (auto simp: split_region_def wp_simps a)
qed

lemma set_free_wp:
  assumes core: "mm_core k s h (us @ a # ws) (U @ (ba, za, fa) # W)" and len: "length us = length U"
    and Q: "\<And>t. mm_core k t h (us @ a # ws) (U @ (ba, za, f) # W) \<Longrightarrow> Q () t"
  shows "wp (rwrite (Some a) (\<lambda>x. x\<lparr>mfree := f\<rparr>)) Q s"
  using core
proof (rule mm_coreE)
  fix b0 z sp
  let ?xs = "us @ a # ws" let ?vs = "U @ (ba, za, fa) # W"
  assume x: "handlers s h = Some \<lparr>hbase = b0, hsize = z, region_count = length ?vs, first_region = Some (hd ?xs),
    last_free_region = Some (hd ?xs), vmm_space = sp, mm_lock = k\<rparr>" and t: "tiles b0 ?vs (b0 + z)" "b0 mod 4096 = 0" "b0 + z < 2 ^ 64"
    and r: "rseg (regions s) None ?xs ?vs None" and d: "distinct ?xs" "\<forall>c \<in> set ?xs. c < brk s"
  let ?m = "(regions s)(a \<mapsto> mkr (ba, za, f) (prv None us) (nxt ws None))"
  have a: "regions s a = Some (mkr (ba, za, fa) (prv None us) (nxt ws None))" using rseg_mid [OF r len] by simp
  have "rseg ?m None us U (Some a) = rseg (regions s) None us U (Some a)"
    "rseg ?m (Some a) ws W None = rseg (regions s) (Some a) ws W None"
    using d(1) by (intro rseg_cong; auto)+
  then have "rseg ?m None ?xs (U @ (ba, za, f) # W) None" using r len by (simp add: rseg_append)
  moreover have "tiles b0 (U @ (ba, za, f) # W) (b0 + z)" using t(1) by (auto simp: tiles_append)
  ultimately have "mm_core k (s\<lparr>regions := ?m\<rparr>) h ?xs (U @ (ba, za, f) # W)" using x t d by (simp add: mm_core_def)
  from Q [OF this] show ?thesis by (simp add: wp_simps a)
qed

subsection \<open>Neighbours\<close>

lemma mm_core_tiles: "mm_core k s h xs vs \<Longrightarrow> \<exists>b e. tiles b vs e"
  by (auto simp: mm_core_def)

lemma prv_snoc [simp]: "prv l (as @ [a]) = Some a"
  by (induction as arbitrary: l) auto

lemma free_set_merge:
  assumes "mm_core k s h xs (U @ (ba, za, f) # (bb, zb, f') # W)"
  shows "free_set (U @ (ba, za + zb, g) # W) = free_set (U @ (ba, za, g) # (bb, zb, g) # W)"
proof -
  obtain b e where "tiles b (U @ (ba, za, f) # (bb, zb, f') # W) e" using mm_core_tiles [OF assms] by blast
  then have "bb = ba + za" using tiles_merge by blast
  then show ?thesis by auto
qed

text \<open>
  Merging the successor when its state is \<open>g\<close>, the state that the region is about to get: the
  free addresses are those of the list in which the region has this state.
\<close>

lemma absorb_next_wp:
  assumes core: "mm_core k s h (us @ a # ws) (U @ (ba, za, fa) # W)" and len: "length us = length U"
    and Q: "\<And>t ws' z' W'. mm_core k t h (us @ a # ws') (U @ (ba, z', fa) # W') \<Longrightarrow>
      free_set (U @ (ba, z', g) # W') = free_set (U @ (ba, za, g) # W) \<Longrightarrow> Q () t"
  shows "wp (case nxt ws None of None \<Rightarrow> ret ()
    | Some _ \<Rightarrow> bindc (rread (nxt ws None)) (\<lambda>n.
        whenc (if g then mfree n else \<not> mfree n) (bindc (merge_region h a) (\<lambda>m. assertc (m \<noteq> None))))) Q s"
proof (cases ws)
  case Nil
  then show ?thesis using Q [OF core refl] by (simp add: wp_simps)
next
  case (Cons b bs)
  then obtain bb zb fb W' where W: "W = (bb, zb, fb) # W'" "length bs = length W'"
    using mm_core_node [OF core len] by (cases W) (auto dest: rseg_length)
  then have b: "regions s b = Some (mkr (bb, zb, fb) (Some a) (nxt bs None))"
    using mm_core_node [OF core len] Cons by simp
  show ?thesis
  proof (cases "fb = g")
    case True
    have "wp (merge_region h a) (\<lambda>m t. m \<noteq> None \<and> Q () t) s"
    proof (rule merge_region_wp [OF core [unfolded Cons W(1)] len])
      fix t assume t: "mm_core k t h (us @ a # bs) (U @ (ba, za + zb, fa) # W')"
      have "free_set (U @ (ba, za + zb, g) # W') = free_set (U @ (ba, za, g) # W)"
        using free_set_merge [OF core [unfolded W(1)], of g] True unfolding W(1) by simp
      with Q [OF t] show "Some a \<noteq> None \<and> Q () t" by simp
    qed
    with True b Cons show ?thesis by (cases g) (simp_all add: wp_simps)
  next
    case False
    with b Cons Q [OF core refl] show ?thesis by (cases g) (simp_all add: wp_simps)
  qed
qed

lemma absorb_last_wp:
  assumes core: "mm_core k s h (us @ a # ws) (U @ (ba, za, g) # W)" and len: "length us = length U"
    and Q: "\<And>t xs' vs'. mm_core k t h xs' vs' \<Longrightarrow> free_set vs' = free_set (U @ (ba, za, g) # W) \<Longrightarrow> Q () t"
  shows "wp (case prv None us of None \<Rightarrow> ret ()
    | Some lr \<Rightarrow> bindc (rread (prv None us)) (\<lambda>l.
        whenc (if g then mfree l else \<not> mfree l) (bindc (merge_region h lr) (\<lambda>m. assertc (m \<noteq> None))))) Q s"
proof (cases us rule: rev_cases)
  case Nil
  then show ?thesis using Q [OF core refl] by (simp add: wp_simps)
next
  case (snoc us0 l)
  then obtain U0 bl zl fl where U: "U = U0 @ [(bl, zl, fl)]" "length us0 = length U0"
    using len by (cases U rule: rev_cases) auto
  have core': "mm_core k s h (us0 @ l # a # ws) (U0 @ (bl, zl, fl) # (ba, za, g) # W)"
    using core by (simp add: snoc U(1))
  have l: "regions s l = Some (mkr (bl, zl, fl) (prv None us0) (Some a))"
    using mm_core_node [OF core' U(2)] by simp
  show ?thesis
  proof (cases "fl = g")
    case True
    have "wp (merge_region h l) (\<lambda>m t. m \<noteq> None \<and> Q () t) s"
    proof (rule merge_region_wp [OF core' U(2)])
      fix t assume t: "mm_core k t h (us0 @ l # ws) (U0 @ (bl, zl + za, fl) # W)"
      have "free_set (U0 @ (bl, zl + za, fl) # W) = free_set (U @ (ba, za, g) # W)"
        using free_set_merge [OF core', of g] True by (simp add: U(1))
      with Q [OF t] show "Some l \<noteq> None \<and> Q () t" by simp
    qed
    with True l snoc show ?thesis by (cases g) (simp_all add: wp_simps)
  next
    case False
    with l snoc Q [OF core refl] show ?thesis by (cases g) (simp_all add: wp_simps)
  qed
qed

lemma settle_region_wp:
  assumes core: "mm_core k s h (us @ a # ws) (U @ (ba, za, fa) # W)" and len: "length us = length U"
    and Q: "\<And>t xs' vs'. mm_core k t h xs' vs' \<Longrightarrow> free_set vs' = free_set (U @ (ba, za, g) # W) \<Longrightarrow> Q () t"
  shows "wp (settle_region h a g) Q s"
proof -
  have a: "regions s a = Some (mkr (ba, za, fa) (prv None us) (nxt ws None))" using mm_core_node [OF core len] by simp
  show ?thesis
    unfolding settle_region_def wp_bindc wp_seqc wp_rread a option.case mkr.simps memory_region.select_convs
  proof (rule absorb_next_wp [OF core len, where g = g])
    fix t ws' z' W'
    assume t: "mm_core k t h (us @ a # ws') (U @ (ba, z', fa) # W')"
      and f: "free_set (U @ (ba, z', g) # W') = free_set (U @ (ba, za, g) # W)"
    show "wp (rwrite (Some a) (mfree_update (\<lambda>_. g)))
      (\<lambda>_ s. case regions s a of None \<Rightarrow> False | Some r \<Rightarrow> wp (case mlast r of None \<Rightarrow> ret ()
         | Some lr \<Rightarrow> bindc (rread (mlast r)) (\<lambda>l. whenc (if g then mfree l else \<not> mfree l)
             (bindc (merge_region h lr) (\<lambda>m. assertc (m \<noteq> None))))) Q s) t"
    proof (rule set_free_wp [OF t len])
      fix u assume u: "mm_core k u h (us @ a # ws') (U @ (ba, z', g) # W')"
      have a: "regions u a = Some (mkr (ba, z', g) (prv None us) (nxt ws' None))" using mm_core_node [OF u len] by simp
      show "case regions u a of None \<Rightarrow> False | Some r \<Rightarrow> wp (case mlast r of None \<Rightarrow> ret ()
         | Some lr \<Rightarrow> bindc (rread (mlast r)) (\<lambda>l. whenc (if g then mfree l else \<not> mfree l)
             (bindc (merge_region h lr) (\<lambda>m. assertc (m \<noteq> None))))) Q u"
        unfolding a option.case mkr.simps memory_region.select_convs
        by (rule absorb_last_wp [OF u len]) (use Q f in blast)
    qed
  qed
qed

subsection \<open>Searches\<close>

lemma find_free_region_wp:
  assumes "rseg (regions s) l xs vs None"
    and "\<forall>(b, z, f) \<in> set vs. \<not> (f \<and> sz \<le> z) \<Longrightarrow> Q None s"
    and "\<And>us a ws U b z W. xs = us @ a # ws \<Longrightarrow> vs = U @ (b, z, True) # W \<Longrightarrow> length us = length U \<Longrightarrow> sz \<le> z \<Longrightarrow> Q (Some a) s"
  shows "wp (find_free_region (length vs) (nxt xs None) sz) Q s"
  using assms
proof (induction vs arbitrary: xs l)
  case Nil
  then show ?case by (simp add: wp_simps)
next
  case (Cons v vs)
  then obtain a as where xs: "xs = a # as" by (cases xs) auto
  obtain b z f where v: "v = (b, z, f)" by (cases v)
  have a: "regions s a = Some (mkr (b, z, f) l (nxt as None))" and r: "rseg (regions s) (Some a) as vs None"
    using Cons.prems(1) xs v by simp_all
  show ?case
  proof (cases "f \<and> sz \<le> z")
    case True
    then have "Q (Some a) s" using Cons.prems(3) [of "[]" a as "[]" b z vs] xs v by simp
    with True a xs show ?thesis by (simp add: wp_simps)
  next
    case False
    have "wp (find_free_region (length vs) (nxt as None) sz) Q s"
    proof (rule Cons.IH [OF r])
      assume "\<forall>(b, z, f) \<in> set vs. \<not> (f \<and> sz \<le> z)"
      then show "Q None s" using Cons.prems(2) False v by simp
    next
      fix us a' ws U b z W
      assume "as = us @ a' # ws" "vs = U @ (b, z, True) # W" "length us = length U" "sz \<le> z"
      then show "Q (Some a') s" using Cons.prems(3) [of "a # us" a' ws "v # U" b z W] xs by simp
    qed
    with False a xs show ?thesis by (auto simp: wp_simps)
  qed
qed

lemma get_region_loop_wp:
  assumes "rseg (regions s) l xs vs None" "tiles b0 vs e" "b0 \<le> base" "base < e" "e < 2 ^ 64"
    and "\<And>us a ws U b z f W. xs = us @ a # ws \<Longrightarrow> vs = U @ (b, z, f) # W \<Longrightarrow> length us = length U \<Longrightarrow>
      b \<le> base \<Longrightarrow> base < b + z \<Longrightarrow> Q (Some a) s"
  shows "wp (get_region_loop (length vs) (nxt xs None) base) Q s"
  using assms
proof (induction vs arbitrary: xs l b0)
  case Nil
  then show ?case by simp
next
  case (Cons v vs)
  then obtain a as where xs: "xs = a # as" by (cases xs) auto
  obtain b z f where v: "v = (b, z, f)" by (cases v)
  have a: "regions s a = Some (mkr (b, z, f) l (nxt as None))" and r: "rseg (regions s) (Some a) as vs None"
    using Cons.prems(1) xs v by simp_all
  have t: "b = b0" "tiles (b0 + z) vs e" "b0 + z \<le> e" using Cons.prems(2) v tiles_le [of "b0 + z" vs e] by auto
  then have w: "u64_add b z = b + z" using Cons.prems(5) by (intro u64_add_small) simp
  show ?case
  proof (cases "base < b + z")
    case True
    then have "Q (Some a) s" using Cons.prems(6) [of "[]" a as "[]" b z f vs] Cons.prems(3) xs v t(1) by simp
    with True a xs w t Cons.prems(3) show ?thesis by (simp add: wp_simps)
  next
    case False
    have "wp (get_region_loop (length vs) (nxt as None) base) Q s"
    proof (rule Cons.IH [OF r t(2)])
      fix us a' ws U b z f W
      assume "as = us @ a' # ws" "vs = U @ (b, z, f) # W" "length us = length U" "b \<le> base" "base < b + z"
      then show "Q (Some a') s" using Cons.prems(6) [of "a # us" a' ws "v # U" b z f W] xs by simp
    qed (use False t Cons.prems in auto)
    with False a xs w show ?thesis by (simp add: wp_simps)
  qed
qed

lemma tiles_disjoint:
  "tiles b0 vs e \<Longrightarrow> (b, z, f) \<in> set vs \<Longrightarrow> (b', z', f') \<in> set vs \<Longrightarrow> b \<le> p \<Longrightarrow> p < b + z \<Longrightarrow> b' \<le> p \<Longrightarrow> p < b' + z' \<Longrightarrow>
   (b, z, f) = (b', z', f')"
proof (induction b0 vs e rule: tiles.induct)
  case (2 b0 c y g vs e)
  have "b0 + y \<le> d" if m: "(d, x, i) \<in> set vs" for d x i
  proof -
    obtain U W where "vs = U @ (d, x, i) # W" using split_list [OF m] by blast
    then show ?thesis using tiles_bounds [of "b0 + y" U d x i W e] 2 by simp
  qed
  with 2 show ?case by fastforce
qed simp

lemma tiles_apart:
  assumes "tiles b0 (U @ (b, z, f) # W) e"
  shows "free_set (U @ W) \<inter> {b..<b + z} = {}"
proof -
  have "tiles b0 U b" "tiles (b + z) W e" using assms by (auto simp: tiles_append)
  then show ?thesis using tiles_free_set [of b0 U b] tiles_free_set [of "b + z" W e] by auto
qed

subsection \<open>Allocation and release\<close>

lemma hd_nxt: "xs \<noteq> [] \<Longrightarrow> Some (hd xs) = nxt xs None"
  by (cases xs) auto

lemma mm_acquire_wp:
  assumes "mm_core False s h xs vs" and Q: "\<And>t. mm_core True t h xs vs \<Longrightarrow> Q () t"
  shows "wp (mm_acquire h) Q s"
  by (rule mm_coreE [OF assms(1)]) (simp add: mm_acquire_def wp_simps, rule Q, simp add: mm_core_def)

lemma mm_release_wp:
  assumes "mm_core k s h xs vs" and Q: "\<And>t. mm_core False t h xs vs \<Longrightarrow> Q () t"
  shows "wp (mm_release h) Q s"
  by (rule mm_coreE [OF assms(1)]) (simp add: mm_release_def wp_simps, rule Q, simp add: mm_core_def)

lemma settle_release_wp:
  assumes "mm_core k s h (us @ a # ws) (U @ (b, z, f) # W)" "length us = length U"
    and Q: "\<And>t xs' vs'. mm_core False t h xs' vs' \<Longrightarrow> free_set vs' = free_set (U @ (b, z, g) # W) \<Longrightarrow> Q x t"
  shows "wp (seqc (settle_region h a g) (seqc (mm_release h) (ret x))) Q s"
  unfolding wp_seqc wp_ret
  by (rule settle_region_wp [OF assms(1,2)], erule mm_release_wp, rule Q)

lemma mm_allocate_anywhere_wp:
  assumes core: "mm_core True s h xs vs" and sz: "0 < sz" "sz mod 4096 = 0"
    and none: "\<And>t. \<forall>(b, z, f) \<in> set vs. \<not> (f \<and> sz \<le> z) \<Longrightarrow> mm_core False t h xs vs \<Longrightarrow> Q (Inl ENOMEM) t"
    and some: "\<And>t b z xs' vs'. (b, z, True) \<in> set vs \<Longrightarrow> sz \<le> z \<Longrightarrow> mm_core False t h xs' vs' \<Longrightarrow>
      free_set vs' = free_set vs - {b..<b + sz} \<Longrightarrow> Q (Inr b) t"
  shows "wp (mm_allocate_anywhere h sz) Q s"
proof (rule mm_coreE [OF core])
  fix b0 z0 sp
  assume x: "handlers s h = Some \<lparr>hbase = b0, hsize = z0, region_count = length vs, first_region = Some (hd xs),
      last_free_region = Some (hd xs), vmm_space = sp, mm_lock = True\<rparr>"
    and t: "tiles b0 vs (b0 + z0)" and r: "rseg (regions s) None xs vs None" and ne: "xs \<noteq> []"
  have "wp (find_free_region (length vs) (nxt xs None) sz) (\<lambda>region_to_split.
      wp (case region_to_split of None \<Rightarrow> seqc (mm_release h) (ret (Inl ENOMEM))
        | Some region \<Rightarrow> bindc (split_region h region sz) (\<lambda>_. bindc (rread (Some region)) (\<lambda>r.
            seqc (settle_region h region False) (seqc (mm_release h) (ret (Inr (mbase r))))))) Q) s"
  proof (rule find_free_region_wp [OF r])
    assume "\<forall>(b, z, f) \<in> set vs. \<not> (f \<and> sz \<le> z)"
    with none show "wp (case None of None \<Rightarrow> seqc (mm_release h) (ret (Inl ENOMEM))
        | Some region \<Rightarrow> bindc (split_region h region sz) (\<lambda>_. bindc (rread (Some region)) (\<lambda>r.
            seqc (settle_region h region False) (seqc (mm_release h) (ret (Inr (mbase r))))))) Q s"
      by (simp add: wp_simps) (rule mm_release_wp [OF core])
  next
    fix us a ws U b z W
    assume sp: "xs = us @ a # ws" "vs = U @ (b, z, True) # W" "length us = length U" "sz \<le> z"
    have mem: "(b, z, True) \<in> set vs" using sp(2) by simp
    have rest: "wp (bindc (rread (Some a)) (\<lambda>r. seqc (settle_region h a False) (seqc (mm_release h) (ret (Inr (mbase r)))))) Q u"
      if u: "mm_core True u h (us @ a # ws') (U @ (b, z', f) # W')"
        and f: "free_set (U @ (b, z', False) # W') = free_set vs - {b..<b + sz}" for u ws' W' z' f
    proof -
      have "regions u a = Some (mkr (b, z', f) (prv None us) (nxt ws' None))" using mm_core_node [OF u sp(3)] by simp
      then show ?thesis
        unfolding wp_bindc wp_rread
        by simp (rule settle_release_wp [OF u sp(3)], rule some [OF mem sp(4)], use f in auto)
    qed
    have out: "free_set (U @ W) \<inter> {b..<b + z} = {}" by (rule tiles_apart [OF t [unfolded sp(2)]])
    have "wp (split_region h a sz) (\<lambda>_. wp (bindc (rread (Some a)) (\<lambda>r.
            seqc (settle_region h a False) (seqc (mm_release h) (ret (Inr (mbase r)))))) Q) s"
    proof (cases "sz < z")
      case True
      show ?thesis
        by (rule split_region_wp [OF core [unfolded sp(1,2)] sp(3) sz(1) True sz(2)], erule rest)
          (use True out in \<open>auto simp: sp(2)\<close>)
    next
      case False
      then show ?thesis
        by (intro split_region_same [OF core [unfolded sp(1,2)] sp(3)] rest [OF core [unfolded sp(1,2)]])
          (use sp(4) out in \<open>auto simp: sp(2)\<close>)
    qed
    then show "wp (case Some a of None \<Rightarrow> seqc (mm_release h) (ret (Inl ENOMEM))
        | Some region \<Rightarrow> bindc (split_region h region sz) (\<lambda>_. bindc (rread (Some region)) (\<lambda>r.
            seqc (settle_region h region False) (seqc (mm_release h) (ret (Inr (mbase r))))))) Q s"
      unfolding option.case wp_bindc [of "split_region h a sz"] .
  qed
  then show ?thesis unfolding mm_allocate_anywhere_def by (simp add: wp_simps x hd_nxt [OF ne])
qed

lemma tiles_aligned: "tiles b0 vs e \<Longrightarrow> b0 mod 4096 = 0 \<Longrightarrow> (b, z, f) \<in> set vs \<Longrightarrow> b mod 4096 = 0 \<and> z mod 4096 = 0"
proof (induction b0 vs e rule: tiles.induct)
  case (2 b0 c y g vs e)
  then have "(b0 + y) mod 4096 = 0" by (simp add: mod_eq_0_iff_dvd)
  with 2 show ?case by auto
qed simp

lemma free_setI: "(b, z, True) \<in> set vs \<Longrightarrow> {b..<b + z} \<subseteq> free_set vs"
  by (auto simp: free_set_def intro!: bexI [of _ "(b, z, True)"])

text \<open>An example for the witnesses: an allocated, a free and an allocated region of two pages each.\<close>

definition example_regions :: "rview list" where
  "example_regions = [(0, 8192, False), (8192, 8192, True), (16384, 8192, False)]"

definition mm_example :: "vmm_state \<Rightarrow> mm_state" where
  "mm_example v = \<lparr>mvmm = v, page_data = (\<lambda>_ _. 0),
     regions = [0 \<mapsto> mkr (0, 8192, False) None (Some 1), 1 \<mapsto> mkr (8192, 8192, True) (Some 0) (Some 2),
       2 \<mapsto> mkr (16384, 8192, False) (Some 1) None],
     handlers = [9 \<mapsto> \<lparr>hbase = 0, hsize = 24576, region_count = 3, first_region = Some 0, last_free_region = Some 0,
       vmm_space = 0, mm_lock = False\<rparr>], brk = 3\<rparr>"

lemma mm_example_core: "mm_core False (mm_example v) 9 [0, 1, 2] example_regions"
  by (simp add: mm_core_def mm_example_def example_regions_def)

lemma mm_example_inv: "mm_inv (mm_example v) 9 example_regions"
  using mm_example_core by (auto simp: mm_inv_def)

definition can_fit :: "nat \<Rightarrow> rview list \<Rightarrow> bool" where
  "can_fit sz vs \<longleftrightarrow> (\<exists>(b, z, f) \<in> set vs. f \<and> sz \<le> z)"

text \<open>
  C19: \<^verbatim>\<open>mm_allocate_region_vm\<close> without a fixed address returns with the handler well formed and its lock
  free. If some free region can hold the request, rounded up to pages, the result is a
  page-aligned range that was free, and exactly this range stops being free; otherwise the
  result is \<^verbatim>\<open>ENOMEM\<close> and no region changes.
\<close>

theorem mm_allocate_region_vm_correct:
  assumes "mm_inv s h vs" "base mod 4096 = 0" "0 < sz" "sz + 4096 \<le> 2 ^ 64" "R = round_up 4096 sz"
  shows "\<exists>r t vs'. mm_allocate_region_vm h base sz False s = Inr (r, t) \<and> mm_inv t h vs' \<and>
    (if can_fit R vs
     then \<exists>b. r = Inr b \<and> b mod 4096 = 0 \<and> {b..<b + R} \<subseteq> free_set vs \<and> free_set vs' = free_set vs - {b..<b + R}
     else r = Inl ENOMEM \<and> vs' = vs)"
proof -
  obtain xs where xs: "mm_core False s h xs vs" using assms(1) by (auto simp: mm_inv_def)
  have R: "sz \<le> R" "R mod 4096 = 0" using round_up_props [of 4096 sz] assms(4,5) by auto
  let ?P = "\<lambda>r t. \<exists>vs'. mm_inv t h vs' \<and> (if can_fit R vs
     then \<exists>b. r = Inr b \<and> b mod 4096 = 0 \<and> {b..<b + R} \<subseteq> free_set vs \<and> free_set vs' = free_set vs - {b..<b + R}
     else r = Inl ENOMEM \<and> vs' = vs)"
  have "wp (mm_acquire h) (\<lambda>_. wp (mm_allocate_anywhere h R) ?P) s"
  proof (rule mm_acquire_wp [OF xs])
    fix u assume u: "mm_core True u h xs vs"
    show "wp (mm_allocate_anywhere h R) ?P u"
    proof (rule mm_allocate_anywhere_wp [OF u])
      fix t assume "\<forall>(b, z, f) \<in> set vs. \<not> (f \<and> R \<le> z)" "mm_core False t h xs vs"
      then show "?P (Inl ENOMEM) t" by (intro exI [of _ vs]) (auto simp: mm_inv_def can_fit_def)
    next
      fix t b z xs' vs'
      assume m: "(b, z, True) \<in> set vs" "R \<le> z" and t: "mm_core False t h xs' vs'" and f: "free_set vs' = free_set vs - {b..<b + R}"
      obtain b0 e where "tiles b0 vs e" "b0 mod 4096 = 0" using xs by (auto simp: mm_core_def)
      from tiles_aligned [OF this m(1)] have "b mod 4096 = 0" by simp
      moreover have "{b..<b + R} \<subseteq> free_set vs" using free_setI [OF m(1)] m(2) by auto
      moreover have "can_fit R vs" using m by (auto simp: can_fit_def)
      moreover have "mm_inv t h vs'" using t by (auto simp: mm_inv_def)
      ultimately show "?P (Inr b) t" using f by (intro exI [of _ vs']) simp
    qed (use R assms(3) in auto)
  qed
  then have "wp (mm_allocate_region_vm h base sz False) ?P s"
    using assms(2,5) by (simp add: mm_allocate_region_vm_def wp_seqc PAGE_SIZE_def)
  from wp_exI [OF this] show ?thesis by blast
qed

theorem mm_allocate_region_vm_correct_witness:
  "\<exists>t vs'. mm_allocate_region_vm 9 0 5000 False (mm_example (vmm_zero (pmm_blank 64))) = Inr (Inr 8192, t) \<and> mm_inv t 9 vs' \<and> free_set vs' = {}"
proof -
  have R: "round_up 4096 5000 = 8192" by (simp add: round_up_def u64_add_def u64_sub_def u64_def)
  have f: "free_set example_regions = {8192..<16384}" "can_fit 8192 example_regions"
    by (simp_all add: example_regions_def can_fit_def)
  from mm_allocate_region_vm_correct [OF mm_example_inv [of "vmm_zero (pmm_blank 64)"], of 0 5000 8192]
  obtain b t vs' where t: "mm_allocate_region_vm 9 0 5000 False (mm_example (vmm_zero (pmm_blank 64))) = Inr (Inr b, t)"
    "mm_inv t 9 vs'" "{b..<b + 8192} \<subseteq> {8192..<16384}" "free_set vs' = {8192..<16384} - {b..<b + 8192}"
    using R f by auto
  then have "b = 8192" by simp
  with t show ?thesis by auto
qed

lemma merge_until_enough:
  assumes "mm_core k s h (us @ a # ws) (U @ (b, z, f) # W)" "length us = length U" "sz \<le> z" "Q True s"
  shows "wp (merge_until (Suc n) h a sz) Q s"
  using mm_core_node [OF assms(1,2)] assms(3,4) by (simp add: wp_simps)

text \<open>Release of a range at the end or inside of an allocated region, from the region that starts at the range.\<close>

lemma mm_free_tail_wp:
  assumes core: "mm_core True s h (us @ a # ws) (U @ (base, z, False) # W)" and len: "length us = length U"
    and sz: "0 < sz" "sz \<le> z" "sz mod 4096 = 0"
    and Q: "\<And>t xs' vs'. mm_core False t h xs' vs' \<Longrightarrow>
      free_set vs' = free_set (U @ W) \<union> (if sz = z then {base..<base + z} else {base + sz..<base + z}) \<Longrightarrow> Q EOK t"
  shows "wp (bindc (hget h) (\<lambda>x.
     bindc (merge_until (region_count x + 1) h a sz) (\<lambda>enough.
     if \<not> enough then ret EINVAL
     else
       bindc (rread (Some a)) (\<lambda>r.
       bindc (if msize r > sz then split_region h a sz else ret a) (\<lambda>region.
       seqc (settle_region h region True)
      (seqc (mm_release h)
      (ret EOK))))))) Q s"
proof -
  have a: "regions s a = Some (mkr (base, z, False) (prv None us) (nxt ws None))" using mm_core_node [OF core len] by simp
  have "wp (bindc (if z > sz then split_region h a sz else ret a) (\<lambda>region.
       seqc (settle_region h region True) (seqc (mm_release h) (ret EOK)))) Q s"
  proof (cases "sz < z")
    case True
    then show ?thesis unfolding wp_bindc if_P [OF True]
    proof (intro split_region_wp [OF core len sz(1) True sz(3)])
      fix t n
      assume "mm_core True t h (us @ a # n # ws) (U @ (base, sz, False) # (base + sz, z - sz, False) # W)"
      then have t: "mm_core True t h ((us @ [a]) @ n # ws) ((U @ [(base, sz, False)]) @ (base + sz, z - sz, False) # W)" by simp
      show "wp (seqc (settle_region h n True) (seqc (mm_release h) (ret EOK))) Q t"
        by (rule settle_release_wp [OF t], use len in simp, rule Q, assumption) (use True in auto)
    qed
  next
    case False
    then have "sz = z" using sz(2) by simp
    have "wp (seqc (settle_region h a True) (seqc (mm_release h) (ret EOK))) Q s"
      by (rule settle_release_wp [OF core len], rule Q, assumption) (use \<open>sz = z\<close> in auto)
    with False show ?thesis by (simp add: wp_bindc wp_ret)
  qed
  then have step: "wp (bindc (rread (Some a)) (\<lambda>r. bindc (if msize r > sz then split_region h a sz else ret a) (\<lambda>region.
       seqc (settle_region h region True) (seqc (mm_release h) (ret EOK))))) Q s"
    by (simp add: wp_bindc [of "rread (Some a)"] wp_rread a)
  obtain x where x: "handlers s h = Some x" using core by (auto simp: mm_core_def)
  show ?thesis
    unfolding wp_bindc [of "hget h"] wp_hget x option.case Suc_eq_plus1 [symmetric]
      wp_bindc [of "merge_until (Suc (region_count x)) h a sz"]
    by (rule merge_until_enough [OF core len sz(2)]) (use step in simp)
qed

lemma mm_get_region_wp:
  assumes core: "mm_core k s h xs vs" and v: "(b, z, f) \<in> set vs" and base: "b \<le> base" "base < b + z"
    and Q: "\<And>us a ws U W. xs = us @ a # ws \<Longrightarrow> vs = U @ (b, z, f) # W \<Longrightarrow> length us = length U \<Longrightarrow> Q (Some a) s"
  shows "wp (mm_get_region h base) Q s"
proof (rule mm_coreE [OF core])
  fix b0 z0 sp
  assume x: "handlers s h = Some \<lparr>hbase = b0, hsize = z0, region_count = length vs, first_region = Some (hd xs),
      last_free_region = Some (hd xs), vmm_space = sp, mm_lock = k\<rparr>"
    and t: "tiles b0 vs (b0 + z0)" "b0 + z0 < 2 ^ 64" and r: "rseg (regions s) None xs vs None" and ne: "xs \<noteq> []"
  obtain U W where "vs = U @ (b, z, f) # W" using split_list [OF v] by blast
  then have bd: "b0 \<le> base" "base < b0 + z0" using tiles_bounds t(1) base by fastforce+
  have "wp (get_region_loop (length vs) (nxt xs None) base) Q s"
  proof (rule get_region_loop_wp [OF r t(1) bd t(2)])
    fix us a ws U b' z' f' W
    assume s: "xs = us @ a # ws" "vs = U @ (b', z', f') # W" "length us = length U" "b' \<le> base" "base < b' + z'"
    then have "(b, z, f) = (b', z', f')" using tiles_disjoint [OF t(1) v _ base s(4,5), of f'] by simp
    with s Q show "Q (Some a) s" by simp
  qed
  with bd t(2) show ?thesis unfolding mm_get_region_def by (simp add: wp_simps x hd_nxt [OF ne] u64_add_small)
qed

lemma mm_free_region_wp:
  assumes core: "mm_core False s h xs vs" and v: "(b, z, False) \<in> set vs"
    and r: "b \<le> base" "base + sz \<le> b + z" "0 < sz" "base mod 4096 = 0" "sz mod 4096 = 0"
    and Q: "\<And>t xs' vs'. mm_core False t h xs' vs' \<Longrightarrow>
      free_set vs' = free_set vs \<union> (if base + sz = b + z then {base..<base + sz} else {base + sz..<b + z}) \<Longrightarrow> Q EOK t"
  shows "wp (mm_free_region h base sz) Q s"
proof -
  have m1: "base mod PAGE_SIZE = 0" "sz mod PAGE_SIZE = 0" using r by (simp_all add: PAGE_SIZE_def)
  let ?tail = "\<lambda>region. bindc (hget h) (\<lambda>x. bindc (merge_until (region_count x + 1) h region sz) (\<lambda>enough.
     if \<not> enough then ret EINVAL
     else bindc (rread (Some region)) (\<lambda>r. bindc (if msize r > sz then split_region h region sz else ret region) (\<lambda>region.
       seqc (settle_region h region True) (seqc (mm_release h) (ret EOK))))))"
  have "wp (mm_get_region h base) (\<lambda>region. wp (bindc (rread region) (\<lambda>r.
     bindc (if mbase r \<noteq> base then split_region h (the region) (u64_sub base (mbase r)) else ret (the region)) ?tail)) Q) u"
    if u: "mm_core True u h xs vs" for u
  proof (rule mm_get_region_wp [OF u v r(1)])
    show "base < b + z" using r by simp
    fix us a ws U W
    assume sp: "xs = us @ a # ws" "vs = U @ (b, z, False) # W" "length us = length U"
    note c = u [unfolded sp(1,2)]
    have a: "regions u a = Some (mkr (b, z, False) (prv None us) (nxt ws None))" using mm_core_node [OF c sp(3)] by simp
    obtain b0 e where t: "tiles b0 vs e" "b0 mod 4096 = 0" "e < 2 ^ 64" using core by (auto simp: mm_core_def)
    have al: "b mod 4096 = 0" "z mod 4096 = 0" using tiles_aligned [OF t(1,2) v] by simp_all
    have bd: "b + z \<le> e" using tiles_bounds [OF t(1) [unfolded sp(2)]] by simp
    have "wp (if b \<noteq> base then split_region h a (u64_sub base b) else ret a) (\<lambda>region. wp (?tail region) Q) u"
    proof (cases "b = base")
      case True
      have "wp (?tail a) Q u"
        by (rule mm_free_tail_wp [OF c [unfolded True] sp(3) r(3) _ r(5)], use r True in simp, rule Q, assumption)
          (use True in \<open>auto simp: sp(2)\<close>)
      with True show ?thesis by (simp add: wp_ret)
    next
      case False
      then have w: "u64_sub base b = base - b" "0 < base - b" "base - b < z" "b + (base - b) = base"
        using r(1-3) bd t(3) by (simp_all add: u64_sub_small)
      have "(base - b) mod 4096 = 0" using r(4) al(1) by (simp add: mod_eq_0_iff_dvd)
      then have "wp (split_region h a (base - b)) (\<lambda>region. wp (?tail region) Q) u"
      proof (rule split_region_wp [OF c sp(3) w(2,3)])
        fix t n
        assume "mm_core True t h (us @ a # n # ws) (U @ (b, base - b, False) # (b + (base - b), z - (base - b), False) # W)"
        then have t: "mm_core True t h ((us @ [a]) @ n # ws) ((U @ [(b, base - b, False)]) @ (base, z - (base - b), False) # W)"
          by (simp add: w(4))
        show "wp (?tail n) Q t"
          by (rule mm_free_tail_wp [OF t _ r(3) _ r(5)], use sp(3) in simp, use r w in simp, rule Q, assumption)
            (use r w in \<open>auto simp: sp(2)\<close>)
      qed
      with False w(1) show ?thesis by simp
    qed
    then show "wp (bindc (rread (Some a)) (\<lambda>r.
     bindc (if mbase r \<noteq> base then split_region h (the (Some a)) (u64_sub base (mbase r)) else ret (the (Some a))) ?tail)) Q u"
      unfolding wp_bindc [of "rread (Some a)"] wp_rread a option.case mkr.simps memory_region.select_convs option.sel
        wp_bindc [of "if b \<noteq> base then split_region h a (u64_sub base b) else ret a"] .
  qed
  then show ?thesis
    unfolding mm_free_region_def wp_seqc wp_assertc wp_bindc [of "mm_get_region h base"]
    by (intro conjI m1 mm_acquire_wp [OF core])
qed

text \<open>
  C20: \<^verbatim>\<open>mm_free_region\<close> of a page-aligned range that reaches to the end of the allocated region in which it lies
  makes exactly this range free and keeps the handler well formed.
\<close>

theorem mm_free_region_correct:
  assumes "mm_inv s h vs" "(b, z, False) \<in> set vs" "b \<le> base" "base + sz = b + z" "0 < sz"
    "base mod 4096 = 0" "sz mod 4096 = 0"
  shows "\<exists>t vs'. mm_free_region h base sz s = Inr (EOK, t) \<and> mm_inv t h vs' \<and>
    free_set vs' = free_set vs \<union> {base..<base + sz}"
proof -
  obtain xs where xs: "mm_core False s h xs vs" using assms(1) by (auto simp: mm_inv_def)
  have "wp (mm_free_region h base sz) (\<lambda>r t. r = EOK \<and> (\<exists>vs'. mm_inv t h vs' \<and> free_set vs' = free_set vs \<union> {base..<base + sz})) s"
    by (rule mm_free_region_wp [OF xs assms(2,3) _ assms(5-7)]) (use assms(4) in \<open>auto simp: mm_inv_def\<close>)
  from wp_exI [OF this] show ?thesis by simp
qed

theorem mm_free_region_correct_witness:
  "\<exists>t vs'. mm_free_region 9 4096 4096 (mm_example (vmm_zero (pmm_blank 64))) = Inr (EOK, t) \<and> mm_inv t 9 vs' \<and> free_set vs' = {4096..<16384}"
proof -
  have "free_set example_regions = {8192..<16384}" "(0, 8192, False) \<in> set example_regions"
    by (simp_all add: example_regions_def)
  with mm_free_region_correct [OF mm_example_inv [of "vmm_zero (pmm_blank 64)"], of 0 8192 4096 4096] show ?thesis by fastforce
qed

text \<open>
  C21: \<^verbatim>\<open>mm_free_region\<close> of a range that ends inside an allocated region frees the wrong addresses: after cutting the
  region behind the range it goes on with the part behind the cut, so the range itself stays
  allocated and the rest of the region, which is still in use, becomes free.
\<close>

theorem mm_free_region_frees_rest:
  assumes "mm_inv s h vs" "(b, z, False) \<in> set vs" "b \<le> base" "base + sz < b + z" "0 < sz"
    "base mod 4096 = 0" "sz mod 4096 = 0"
  shows "\<exists>t vs'. mm_free_region h base sz s = Inr (EOK, t) \<and> mm_inv t h vs' \<and>
    free_set vs' = free_set vs \<union> {base + sz..<b + z}"
proof -
  obtain xs where xs: "mm_core False s h xs vs" using assms(1) by (auto simp: mm_inv_def)
  have "wp (mm_free_region h base sz) (\<lambda>r t. r = EOK \<and> (\<exists>vs'. mm_inv t h vs' \<and> free_set vs' = free_set vs \<union> {base + sz..<b + z})) s"
    by (rule mm_free_region_wp [OF xs assms(2,3) _ assms(5-7)]) (use assms(4) in \<open>auto simp: mm_inv_def\<close>)
  from wp_exI [OF this] show ?thesis by simp
qed

theorem mm_free_region_frees_rest_witness:
  "\<exists>t vs'. mm_free_region 9 0 4096 (mm_example (vmm_zero (pmm_blank 64))) = Inr (EOK, t) \<and> mm_inv t 9 vs' \<and> 0 \<notin> free_set vs' \<and> 4096 \<in> free_set vs'"
proof -
  have "free_set example_regions = {8192..<16384}" "(0, 8192, False) \<in> set example_regions"
    by (simp_all add: example_regions_def)
  with mm_free_region_frees_rest [OF mm_example_inv [of "vmm_zero (pmm_blank 64)"], of 0 8192 0 4096] show ?thesis by fastforce
qed

lemma tiles_notin:
  assumes "tiles b0 (U @ (b, z, f) # W) e"
  shows "(b, z, f) \<notin> set U" "(b, z, f) \<notin> set W"
proof -
  have t: "tiles b0 U b" "tiles (b + z) W e" "0 < z" using assms by (auto simp: tiles_append)
  show "(b, z, f) \<notin> set U"
  proof
    assume "(b, z, f) \<in> set U"
    then obtain V X where "U = V @ (b, z, f) # X" using split_list by fast
    then show False using tiles_bounds [of b0 V b z f X b] t by simp
  qed
  show "(b, z, f) \<notin> set W"
  proof
    assume "(b, z, f) \<in> set W"
    then obtain V X where "W = V @ (b, z, f) # X" using split_list by fast
    then show False using tiles_bounds [of "b + z" V b z f X e] t by simp
  qed
qed

lemma mm_fixed_merged_wp:
  assumes core: "mm_core True s h (us @ a # ws) (U @ (b, z, True) # W)" and len: "length us = length U"
    and sz: "0 < sz" "sz < z" "sz mod 4096 = 0"
    and Q: "\<And>t xs' vs'. mm_core False t h xs' vs' \<Longrightarrow> free_set vs' = free_set (U @ W) \<union> {b + sz..<b + z} \<Longrightarrow> Q x t"
  shows "wp (bindc (bindc (split_region h a 0) (\<lambda>region. bindc (split_region h region sz) (\<lambda>_. ret region))) (\<lambda>region.
     seqc (settle_region h region False) (seqc (mm_release h) (ret x)))) Q s"
  unfolding wp_bindc wp_ret
proof (rule split_region_same [OF core len], simp, rule split_region_wp [OF core len sz])
  fix t n
  assume t: "mm_core True t h (us @ a # n # ws) (U @ (b, sz, True) # (b + sz, z - sz, True) # W)"
  show "wp (seqc (settle_region h a False) (seqc (mm_release h) (ret x))) Q t"
    by (rule settle_release_wp [OF t len], rule Q, assumption) (use sz in auto)
qed

lemma merge_until_once:
  assumes core: "mm_core k s h (us @ a # c # ws) (U @ (b, z, f) # (b', z', f') # W)" and len: "length us = length U"
    and sz: "z < sz" "sz \<le> z + z'"
    and Q: "\<And>t. mm_core k t h (us @ a # ws) (U @ (b, z + z', f) # W) \<Longrightarrow> Q True t"
  shows "wp (merge_until (Suc (Suc n)) h a sz) Q s"
proof -
  have a: "regions s a = Some (mkr (b, z, f) (prv None us) (Some c))" using mm_core_node [OF core len] by simp
  have "wp (merge_region h a) (\<lambda>m. wp (if m = None then ret False else merge_until (Suc n) h a sz) Q) s"
  proof (rule merge_region_wp [OF core len])
    fix t assume t: "mm_core k t h (us @ a # ws) (U @ (b, z + z', f) # W)"
    have "wp (merge_until (Suc n) h a sz) Q t" by (rule merge_until_enough [where Q = Q, OF t len sz(2) Q [OF t]])
    then show "wp (if Some a = None then ret False else merge_until (Suc n) h a sz) Q t" by simp
  qed
  then show ?thesis unfolding merge_until.simps(2) [of "Suc n"] wp_bindc wp_rread a
    using sz(1) by (simp del: merge_until.simps add: wp_bindc)
qed

lemma mm_allocate_fixed_wp:
  assumes core: "mm_core True s h xs (U @ (b, z, True) # (b', z', False) # W)"
    and sz: "z < sz" "sz < z + z'" "sz mod 4096 = 0"
    and Q: "\<And>t xs' vs'. mm_core False t h xs' vs' \<Longrightarrow> free_set vs' = free_set (U @ W) \<union> {b + sz..<b + z + z'} \<Longrightarrow> Q (Inr b) t"
  shows "wp (mm_allocate_fixed h b sz) Q s"
proof -
  let ?vs = "U @ (b, z, True) # (b', z', False) # W"
  obtain b0 z0 x where x: "handlers s h = Some x" "region_count x = length ?vs" and t: "tiles b0 ?vs (b0 + z0)" "b0 + z0 < 2 ^ 64"
    using core by (auto simp: mm_core_def)
  have zb: "0 < z" "b + z + z' \<le> b0 + z0" 
    using tiles_bounds [OF t(1)] tiles_bounds [OF conjunct1 [OF tiles_merge [OF t(1), of True]]] by simp_all
  have w: "u64_sub b b = 0" "u64_add 0 sz = sz" using zb sz t(2) by (simp_all add: u64_sub_small u64_add_small)
  show ?thesis
    unfolding mm_allocate_fixed_def wp_bindc [of "mm_get_region h b"]
  proof (rule mm_get_region_wp [OF core, of b z True])
    fix us a ws0 U' W'
    assume s': "xs = us @ a # ws0" "?vs = U' @ (b, z, True) # W'" "length us = length U'"
    then have U: "U' = U" "W' = (b', z', False) # W" using tiles_notin [OF t(1)] append_Cons_eq_iff by metis+
    note len = s'(3) [unfolded U]
    have a: "regions s a = Some (mkr (b, z, True) (prv None us) (nxt ws0 None))"
      using mm_core_node [OF core [unfolded s'(1)] len] by simp
    obtain c ws where ws: "ws0 = c # ws" using mm_core_node [OF core [unfolded s'(1)] len] by (cases ws0) auto
    obtain n where fuel: "region_count x + 1 = Suc (Suc n)" using x(2) by auto
    show "wp (bindc (hget h) (\<lambda>x. case Some a of None \<Rightarrow>
         seqc (mm_release h)
        (if u64_add b sz > u64_add (hbase x) (hsize x) then ret (Inl EINVAL) else ret (Inr b))
     | Some region \<Rightarrow>
         bindc (rread (Some region)) (\<lambda>r.
         let size_unusable = u64_sub b (mbase r) in
         bindc (merge_until (region_count x + 1) h region (u64_add size_unusable sz)) (\<lambda>enough.
         bindc (rread (Some region)) (\<lambda>r.
         if \<not> enough \<and> u64_add (mbase r) (msize r) > u64_add (hbase x) (hsize x) then ret (Inl EINVAL)
         else
           bindc (if mfree r then
                    bindc (split_region h region size_unusable) (\<lambda>region.
                    bindc (split_region h region sz) (\<lambda>_. ret region))
                  else ret region) (\<lambda>region.
           seqc (settle_region h region False)
          (seqc (mm_release h)
          (ret (Inr b)))))))) ) Q s"
      unfolding wp_bindc [of "hget h"] wp_hget x(1) option.case wp_bindc [of "rread (Some a)"] wp_rread a mkr.simps
        memory_region.select_convs Let_def w fuel wp_bindc [of "merge_until (Suc (Suc n)) h a sz"]
    proof (rule merge_until_once [OF core [unfolded s'(1) ws] len sz(1)])
      fix t assume t: "mm_core True t h (us @ a # ws) (U @ (b, z + z', True) # W)"
      have a: "regions t a = Some (mkr (b, z + z', True) (prv None us) (nxt ws None))" using mm_core_node [OF t len] by simp
      show "case regions t a of None \<Rightarrow> False | Some r \<Rightarrow> wp (
         if \<not> True \<and> u64_add (mbase r) (msize r) > u64_add (hbase x) (hsize x) then ret (Inl EINVAL)
         else bindc (if mfree r then bindc (split_region h a 0) (\<lambda>region. bindc (split_region h region sz) (\<lambda>_. ret region))
                  else ret a) (\<lambda>region. seqc (settle_region h region False) (seqc (mm_release h) (ret (Inr b))))) Q t"
        unfolding a option.case mkr.simps memory_region.select_convs
          not_True_eq_False simp_thms if_False if_True
        by (rule mm_fixed_merged_wp [OF t len _ _ sz(3)]) (use zb sz Q in \<open>auto simp: add.assoc\<close>)
    qed (use sz in simp)
  qed (use zb in auto)
qed



end
