(* ===== verification/Vector.thy ===== *)
theory Vector
  imports Kot_Prelude
begin

section \<open>Vectors\<close>

text \<open>
  Model of \<^verbatim>\<open>lib/vector.c\<close>. The block behind \<^verbatim>\<open>items\<close> is the list of its 8-byte cells, where \<open>None\<close> is
  a cell that nothing has been written to; a block that \<^verbatim>\<open>malloc\<close> returns starts with such
  cells. Reading or copying outside the block is a fault. Pushing, reading and clearing are
  shown to be the operations of a list; removal is shown to be wrong for every index but the
  last.
\<close>

subsection \<open>Model\<close>

record vector =
  items :: "nat option list option"
  vlength :: nat
  vlock :: bool

definition vector_create :: vector where
  "vector_create = \<lparr>items = None, vlength = 0, vlock = False\<rparr>"

abbreviation v_acquire :: "(unit, vector) cmd" where "v_acquire \<equiv> lock_acquire vlock vlock_update"
abbreviation v_release :: "(unit, vector) cmd" where "v_release \<equiv> lock_release vlock_update"

text \<open>\<open>copy_cells n from i to\<close>: \<open>memcpy(to, from + i, n * 8)\<close>, where \<open>from\<close> and \<open>to\<close> are blocks.\<close>

definition copy_cells :: "nat \<Rightarrow> nat option list option \<Rightarrow> nat \<Rightarrow> nat option list \<Rightarrow> (nat option list, vector) cmd" where
  "copy_cells n from i to s =
     (if n = 0 then Inr (to, s)
      else case from of None \<Rightarrow> Inl NullDeref
        | Some xs \<Rightarrow> if i + n \<le> length xs \<and> n \<le> length to then Inr (take n (drop i xs) @ drop n to, s)
                     else Inl OutOfBounds)"

definition new_cells :: "nat \<Rightarrow> nat option list" where
  "new_cells n = replicate n None"

definition vector_clone :: "(nat option list, vector) cmd" where
  "vector_clone =
     seqc v_acquire
    (bindc (getc vlength) (\<lambda>n.
     bindc (getc items) (\<lambda>xs.
     bindc (copy_cells n xs 0 (new_cells n)) (\<lambda>new_vector.
     seqc v_release
    (ret new_vector)))))"

definition vector_expand :: "nat \<Rightarrow> (unit, vector) cmd" where
  "vector_expand len =
     seqc v_acquire
    (bindc (getc vlength) (\<lambda>n.
     bindc (getc items) (\<lambda>xs.
     bindc (copy_cells n xs 0 (new_cells (u64_add n len))) (\<lambda>temp.
     seqc (modc (\<lambda>v. v\<lparr>items := Some temp, vlength := u64_add n len\<rparr>))
    v_release))))"

definition set_cell :: "nat \<Rightarrow> nat \<Rightarrow> (unit, vector) cmd" where
  "set_cell i item v = (case items v of None \<Rightarrow> Inl NullDeref
     | Some xs \<Rightarrow> if i < length xs then Inr ((), v\<lparr>items := Some (xs[i := Some item])\<rparr>) else Inl OutOfBounds)"

definition vector_push :: "nat \<Rightarrow> (nat, vector) cmd" where
  "vector_push item =
     bindc (getc items) (\<lambda>xs.
     if xs = None then
       seqc v_acquire
      (seqc (modc (\<lambda>v. v\<lparr>items := Some (new_cells 1), vlength := 1\<rparr>))
      (seqc (set_cell 0 item)
      (seqc v_release
      (ret 0))))
     else
       seqc (vector_expand 1)
      (seqc v_acquire
      (bindc (getc vlength) (\<lambda>n.
       seqc (set_cell (u64_sub n 1) item)
      (seqc v_release
      (ret (u64_sub n 1)))))))"

definition vector_get :: "nat \<Rightarrow> (nat option, vector) cmd" where
  "vector_get index v = (case items v of None \<Rightarrow> Inl NullDeref
     | Some xs \<Rightarrow> if index < length xs then Inr (xs ! index, v) else Inl OutOfBounds)"

definition vector_set :: "nat \<Rightarrow> nat \<Rightarrow> (unit, vector) cmd" where
  "vector_set index item =
     bindc (getc vlength) (\<lambda>n. whenc (index < n) (set_cell index item))"

definition vector_clear :: "(unit, vector) cmd" where
  "vector_clear =
     bindc (getc items) (\<lambda>xs.
     whenc (xs \<noteq> None)
       (seqc v_acquire
       (seqc (modc (\<lambda>v. v\<lparr>items := None, vlength := 0\<rparr>))
       v_release)))"

text \<open>
  In \<^verbatim>\<open>vector_remove\<close> the second copy starts at \<^verbatim>\<open>vector->items + index * 8\<close>: on a pointer to 8-byte
  cells this is the cell with number \<open>index * 8\<close>. Its target is the start of the new block.
\<close>

definition vector_remove :: "nat \<Rightarrow> (unit, vector) cmd" where
  "vector_remove index =
     bindc (getc items) (\<lambda>xs.
     bindc (getc vlength) (\<lambda>n.
     whenc (xs \<noteq> None \<and> index < n)
       (if n = 1 then vector_clear
        else whenc (n \<noteq> 0)
          (seqc v_acquire
          (bindc (if index \<noteq> 0 then copy_cells index xs 0 (new_cells (n - 1)) else ret (new_cells (n - 1))) (\<lambda>temp.
           bindc (copy_cells (n - 1 - index) xs (index * 8) temp) (\<lambda>temp.
           seqc (modc (\<lambda>v. v\<lparr>items := Some temp, vlength := n - 1\<rparr>))
          v_release)))))))"

subsection \<open>Vectors as lists\<close>

text \<open>\<open>vector_of v xs\<close>: the vector holds the list \<open>xs\<close> and its lock is free.\<close>

definition vector_of :: "vector \<Rightarrow> nat list \<Rightarrow> bool" where
  "vector_of v xs \<longleftrightarrow> v = \<lparr>items = (if xs = [] then None else Some (map Some xs)), vlength = length xs, vlock = False\<rparr>"

lemma vector_of_create: "vector_of vector_create []"
  by (simp add: vector_of_def vector_create_def)

lemma drop_new_cells: "drop n (None # replicate n None) = [None]"
proof -
  have "drop n (replicate (Suc n) None) = [None]" unfolding drop_replicate by simp
  then show ?thesis by simp
qed

lemmas vector_defs = vector_of_def vector_push_def vector_expand_def copy_cells_def set_cell_def new_cells_def
  vector_get_def vector_set_def vector_clear_def vector_remove_def cmd_defs lock_acquire_def lock_release_def

text \<open>
  C35: vectors refine lists: pushing appends and returns the index of the new element, \<^verbatim>\<open>vector_get\<close> returns the
  element at an index, \<^verbatim>\<open>vector_set\<close> replaces it and ignores indices behind the end, and clearing
  gives the empty list.
\<close>

theorem vector_refines_list:
  assumes "vector_of v xs" "length xs + 1 < 2 ^ 64"
  shows "(\<exists>t. vector_push item v = Inr (length xs, t) \<and> vector_of t (xs @ [item])) \<and>
    (if i < length xs then vector_get i v = Inr (Some (xs ! i), v) else \<exists>e. vector_get i v = Inl e) \<and>
    (\<exists>t. vector_set i item v = Inr ((), t) \<and> vector_of t (xs[i := item])) \<and>
    (\<exists>t. vector_clear v = Inr ((), t) \<and> vector_of t [])"
proof -
  have v: "v = \<lparr>items = (if xs = [] then None else Some (map Some xs)), vlength = length xs, vlock = False\<rparr>"
    using assms(1) by (simp add: vector_of_def)
  show ?thesis
    unfolding v using assms(2)
    by (cases "xs = []")
      (auto simp: vector_defs u64_add_small u64_sub_small list_update_append drop_new_cells map_update list_update_beyond)
qed

theorem vector_refines_list_witness:
  "\<exists>t. vector_push 5 vector_create = Inr (0, t) \<and> vector_get 0 t = Inr (Some 5, t)"
proof -
  obtain t where t: "vector_push 5 vector_create = Inr (0, t)" "vector_of t [5]"
    using vector_refines_list [OF vector_of_create, of 5 0] by auto
  then show ?thesis using vector_refines_list [OF t(2), of 0 0] by auto
qed

text \<open>
  C36: \<^verbatim>\<open>vector_remove\<close> drops the last element of the vector, whatever the index, when the index is 0 or the last one,
  and reads behind the end of the block for every index between them.
\<close>

theorem vector_remove_drops_last:
  assumes "vector_of v xs" "2 \<le> length xs" "i < length xs"
  shows "if i = 0 \<or> i = length xs - 1 then \<exists>t. vector_remove i v = Inr ((), t) \<and> vector_of t (butlast xs)
    else vector_remove i v = Inl OutOfBounds"
proof -
  have v: "v = \<lparr>items = Some (map Some xs), vlength = length xs, vlock = False\<rparr>"
    using assms(1,2) by (auto simp: vector_of_def)
  have "butlast xs \<noteq> []" using assms(2) by (cases xs rule: rev_cases) auto
  then show ?thesis
    unfolding v using assms(2,3)
    by (auto simp: vector_defs butlast_conv_take take_map)
qed

theorem vector_remove_drops_last_witness:
  "\<exists>t. vector_remove 0 \<lparr>items = Some [Some 1, Some 2, Some 3], vlength = 3, vlock = False\<rparr> = Inr ((), t) \<and> vector_of t [1, 2]"
  using vector_remove_drops_last [of "\<lparr>items = Some [Some 1, Some 2, Some 3], vlength = 3, vlock = False\<rparr>" "[1, 2, 3]" 0]
  by (simp add: vector_of_def)

end
