(* ===== verification/Crc32.thy ===== *)
theory Crc32
  imports Kot_Prelude
begin

unbundle bit_operations_syntax

section \<open>Checksums of partition tables\<close>

text \<open>
  Model of \<^verbatim>\<open>partition/crc32.c\<close> of the storage module: the checksum by table. It is shown equal
  to the division by the polynomial, bit by bit, that the comment in the file gives as the
  origin of the table.
\<close>

definition crc32_table :: "32 word list" where
  "crc32_table =
    [0x00000000, 0x77073096, 0xee0e612c, 0x990951ba, 0x76dc419, 0x706af48f, 0xe963a535, 0x9e6495a3,
     0xedb8832, 0x79dcb8a4, 0xe0d5e91e, 0x97d2d988, 0x9b64c2b, 0x7eb17cbd, 0xe7b82d07, 0x90bf1d91,
     0x1db71064, 0x6ab020f2, 0xf3b97148, 0x84be41de, 0x1adad47d, 0x6ddde4eb, 0xf4d4b551, 0x83d385c7,
     0x136c9856, 0x646ba8c0, 0xfd62f97a, 0x8a65c9ec, 0x14015c4f, 0x63066cd9, 0xfa0f3d63, 0x8d080df5,
     0x3b6e20c8, 0x4c69105e, 0xd56041e4, 0xa2677172, 0x3c03e4d1, 0x4b04d447, 0xd20d85fd, 0xa50ab56b,
     0x35b5a8fa, 0x42b2986c, 0xdbbbc9d6, 0xacbcf940, 0x32d86ce3, 0x45df5c75, 0xdcd60dcf, 0xabd13d59,
     0x26d930ac, 0x51de003a, 0xc8d75180, 0xbfd06116, 0x21b4f4b5, 0x56b3c423, 0xcfba9599, 0xb8bda50f,
     0x2802b89e, 0x5f058808, 0xc60cd9b2, 0xb10be924, 0x2f6f7c87, 0x58684c11, 0xc1611dab, 0xb6662d3d,
     0x76dc4190, 0x01db7106, 0x98d220bc, 0xefd5102a, 0x71b18589, 0x06b6b51f, 0x9fbfe4a5, 0xe8b8d433,
     0x7807c9a2, 0x0f00f934, 0x9609a88e, 0xe10e9818, 0x7f6a0dbb, 0x086d3d2d, 0x91646c97, 0xe6635c01,
     0x6b6b51f4, 0x1c6c6162, 0x856530d8, 0xf262004e, 0x6c0695ed, 0x1b01a57b, 0x8208f4c1, 0xf50fc457,
     0x65b0d9c6, 0x12b7e950, 0x8bbeb8ea, 0xfcb9887c, 0x62dd1ddf, 0x15da2d49, 0x8cd37cf3, 0xfbd44c65,
     0x4db26158, 0x3ab551ce, 0xa3bc0074, 0xd4bb30e2, 0x4adfa541, 0x3dd895d7, 0xa4d1c46d, 0xd3d6f4fb,
     0x4369e96a, 0x346ed9fc, 0xad678846, 0xda60b8d0, 0x44042d73, 0x33031de5, 0xaa0a4c5f, 0xdd0d7cc9,
     0x5005713c, 0x270241aa, 0xbe0b1010, 0xc90c2086, 0x5768b525, 0x206f85b3, 0xb966d409, 0xce61e49f,
     0x5edef90e, 0x29d9c998, 0xb0d09822, 0xc7d7a8b4, 0x59b33d17, 0x2eb40d81, 0xb7bd5c3b, 0xc0ba6cad,
     0xedb88320, 0x9abfb3b6, 0x03b6e20c, 0x74b1d29a, 0xead54739, 0x9dd277af, 0x04db2615, 0x73dc1683,
     0xe3630b12, 0x94643b84, 0x0d6d6a3e, 0x7a6a5aa8, 0xe40ecf0b, 0x9309ff9d, 0x0a00ae27, 0x7d079eb1,
     0xf00f9344, 0x8708a3d2, 0x1e01f268, 0x6906c2fe, 0xf762575d, 0x806567cb, 0x196c3671, 0x6e6b06e7,
     0xfed41b76, 0x89d32be0, 0x10da7a5a, 0x67dd4acc, 0xf9b9df6f, 0x8ebeeff9, 0x17b7be43, 0x60b08ed5,
     0xd6d6a3e8, 0xa1d1937e, 0x38d8c2c4, 0x4fdff252, 0xd1bb67f1, 0xa6bc5767, 0x3fb506dd, 0x48b2364b,
     0xd80d2bda, 0xaf0a1b4c, 0x36034af6, 0x41047a60, 0xdf60efc3, 0xa867df55, 0x316e8eef, 0x4669be79,
     0xcb61b38c, 0xbc66831a, 0x256fd2a0, 0x5268e236, 0xcc0c7795, 0xbb0b4703, 0x220216b9, 0x5505262f,
     0xc5ba3bbe, 0xb2bd0b28, 0x2bb45a92, 0x5cb36a04, 0xc2d7ffa7, 0xb5d0cf31, 0x2cd99e8b, 0x5bdeae1d,
     0x9b64c2b0, 0xec63f226, 0x756aa39c, 0x026d930a, 0x9c0906a9, 0xeb0e363f, 0x72076785, 0x05005713,
     0x95bf4a82, 0xe2b87a14, 0x7bb12bae, 0x0cb61b38, 0x92d28e9b, 0xe5d5be0d, 0x7cdcefb7, 0x0bdbdf21,
     0x86d3d2d4, 0xf1d4e242, 0x68ddb3f8, 0x1fda836e, 0x81be16cd, 0xf6b9265b, 0x6fb077e1, 0x18b74777,
     0x88085ae6, 0xff0f6a70, 0x66063bca, 0x11010b5c, 0x8f659eff, 0xf862ae69, 0x616bffd3, 0x166ccf45,
     0xa00ae278, 0xd70dd2ee, 0x4e048354, 0x3903b3c2, 0xa7672661, 0xd06016f7, 0x4969474d, 0x3e6e77db,
     0xaed16a4a, 0xd9d65adc, 0x40df0b66, 0x37d83bf0, 0xa9bcae53, 0xdebb9ec5, 0x47b2cf7f, 0x30b5ffe9,
     0xbdbdf21c, 0xcabac28a, 0x53b39330, 0x24b4a3a6, 0xbad03605, 0xcdd70693, 0x54de5729, 0x23d967bf,
     0xb3667a2e, 0xc4614ab8, 0x5d681b02, 0x2a6f2b94, 0xb40bbe37, 0xc30c8ea1, 0x5a05df1b, 0x2d02ef8d]"

fun crc32_loop :: "32 word \<Rightarrow> 8 word list \<Rightarrow> 32 word" where
  "crc32_loop crc [] = crc"
| "crc32_loop crc (byte # p) =
     crc32_loop (drop_bit 8 crc XOR crc32_table ! unat ((crc AND 0xff) XOR ucast byte)) p"

definition partition_crc32 :: "32 word \<Rightarrow> 8 word list \<Rightarrow> 32 word" where
  "partition_crc32 crc buf = NOT (crc32_loop (NOT crc) buf)"

subsection \<open>The reference\<close>

text \<open>One step of the division, and the table of all remainders of bytes.\<close>

definition crc_bit :: "32 word \<Rightarrow> 32 word" where
  "crc_bit r = (if bit r 0 then drop_bit 1 r XOR 0xedb88320 else drop_bit 1 r)"

definition crc_byte :: "32 word \<Rightarrow> 8 word \<Rightarrow> 32 word" where
  "crc_byte crc byte = (crc_bit ^^ 8) (crc XOR ucast byte)"

lemma crc_bit_xor: "crc_bit (a XOR b) = crc_bit a XOR crc_bit b"
  by (auto simp: crc_bit_def bit_xor_iff intro!: bit_word_eqI)

lemma crc_bits_xor: "(crc_bit ^^ n) (a XOR b) = (crc_bit ^^ n) a XOR (crc_bit ^^ n) b"
  by (induction n) (simp_all add: crc_bit_xor)

lemma crc_bits_high: "(\<forall>i<n. \<not> bit a i) \<Longrightarrow> (crc_bit ^^ n) a = drop_bit n a"
proof (induction n arbitrary: a)
  case (Suc n)
  then have "crc_bit a = drop_bit 1 a" by (simp add: crc_bit_def)
  moreover have "\<forall>i<n. \<not> bit (drop_bit 1 a) i" using Suc.prems by (simp add: bit_drop_bit_eq)
  ultimately show ?case using Suc.IH [of "drop_bit 1 a"] by (simp add: funpow_Suc_right del: funpow.simps)
qed simp

text \<open>
  The table of the first \<open>2 ^ (k + 1)\<close> bytes is the table of the first \<open>2 ^ k\<close> followed by the
  same with the remainder of the new bit added.
\<close>

lemma of_nat_add_xor:
  assumes "i < 2 ^ k"
  shows "(of_nat (2 ^ k + i) :: 'a::len word) = of_nat (2 ^ k) XOR of_nat i"
proof -
  have "2 ^ k AND i = 0"
    using assms by (auto intro!: bit_eqI simp: bit_and_iff bit_exp_iff)
      (metis bit_take_bit_iff less_irrefl take_bit_nat_eq_self)
  then have "2 ^ k + i = 2 ^ k XOR i"
    by (rule disjunctive_add_eq_xor)
  then show ?thesis by (simp only: of_nat_xor_eq)
qed

lemma remainders_double:
  "map (\<lambda>i. (crc_bit ^^ 8) (of_nat i)) [0..<2 ^ Suc k] =
   (let t = map (\<lambda>i. (crc_bit ^^ 8) (of_nat i)) [0..<2 ^ k] in t @ map (\<lambda>x. (crc_bit ^^ 8) (of_nat (2 ^ k)) XOR x) t)"
proof -
  have "[0..<2 ^ Suc k] = [0..<2 ^ k] @ map (\<lambda>i. 2 ^ k + i) [0..<2 ^ k]"
    using upt_add_eq_append [of 0 "2 ^ k" "2 ^ k"] map_add_upt [of "2 ^ k" "2 ^ k"] by (simp add: mult_2 add.commute)
  then show ?thesis by (simp add: Let_def of_nat_add_xor crc_bits_xor del: of_nat_add of_nat_power)
qed

lemma crc_bit_chain:
  "crc_bit 0 = 0" "crc_bit 128 = 64" "crc_bit 64 = 32"
  "crc_bit 32 = 16" "crc_bit 16 = 8"
  "crc_bit 8 = 4" "crc_bit 4 = 2"
  "crc_bit 2 = 1" "crc_bit 1 = 0xedb88320"
  "crc_bit 0xedb88320 = 0x76dc4190" "crc_bit 0x76dc4190 = 0x3b6e20c8"
  "crc_bit 0x3b6e20c8 = 0x1db71064" "crc_bit 0x1db71064 = 0x0edb8832"
  "crc_bit 0x0edb8832 = 0x076dc419" "crc_bit 0x076dc419 = 0xee0e612c"
  "crc_bit 0xee0e612c = 0x77073096"
  by (simp_all add: crc_bit_def)

lemma crc_bits_powers:
  "(crc_bit ^^ 8) 0 = 0"
  "(crc_bit ^^ 8) 1 = 0x77073096" "(crc_bit ^^ 8) 2 = 0xee0e612c"
  "(crc_bit ^^ 8) 4 = 0x076dc419" "(crc_bit ^^ 8) 8 = 0x0edb8832"
  "(crc_bit ^^ 8) 16 = 0x1db71064" "(crc_bit ^^ 8) 32 = 0x3b6e20c8"
  "(crc_bit ^^ 8) 64 = 0x76dc4190" "(crc_bit ^^ 8) 128 = 0xedb88320"
  by (simp_all add: crc_bit_chain numeral_eq_Suc)

lemma crc32_table_bits: "crc32_table = map (\<lambda>i. (crc_bit ^^ 8) (of_nat i)) [0..<256]"
proof -
  have "(256::nat) = 2 ^ Suc (Suc (Suc (Suc (Suc (Suc (Suc (Suc 0)))))))" by simp
  then show ?thesis
    by (simp only: remainders_double)
     (simp add: crc32_table_def crc_bits_powers)
qed

lemma crc32_table_nth:
  "crc32_table ! unat (a :: 8 word) = (crc_bit ^^ 8) (ucast a)"
proof -
  have "unat a < 2 ^ LENGTH(8)" by (rule unsigned_less)
  then have "unat a < 256" by simp
  then show ?thesis by (simp add: crc32_table_bits nth_append)
qed

text \<open>The update by table is the division of the eight bits.\<close>

lemma low_byte_index:
  "unat ((crc AND 0xff) XOR ucast byte :: 32 word) = unat (ucast crc XOR byte :: 8 word)"
proof -
  have low: "0xff = (mask 8 :: 32 word)" by (simp add: mask_eq_exp_minus_1)
  have "(crc AND 0xff) XOR ucast byte = (ucast (ucast crc XOR byte :: 8 word) :: 32 word)"
    unfolding low by (rule bit_word_eqI) (auto simp: bit_simps)
  moreover have "unat (ucast z :: 32 word) = unat z" for z :: "8 word"
    unfolding unsigned_ucast_eq
    by (rule take_bit_nat_eq_self, rule less_le_trans [OF unsigned_less]) simp
  ultimately show ?thesis by simp
qed

lemma crc_byte_table:
  "drop_bit 8 crc XOR crc32_table ! unat ((crc AND 0xff) XOR ucast byte :: 32 word) = crc_byte crc byte"
proof -
  have split: "crc XOR ucast byte = (push_bit 8 (drop_bit 8 crc)) XOR ucast (ucast crc XOR byte :: 8 word)"
    by (rule bit_word_eqI) (auto simp: bit_simps)
  have "bit crc n \<Longrightarrow> n < 32" for n using bit_imp_le_length [of crc n] by simp
  from this [of "8 + _"] have "(crc_bit ^^ 8) (push_bit 8 (drop_bit 8 crc)) = drop_bit 8 crc"
    by (subst crc_bits_high) (auto simp: bit_simps intro!: bit_word_eqI)
  then show ?thesis
    by (simp add: crc_byte_def split crc_bits_xor low_byte_index crc32_table_nth)
qed

lemma crc32_loop_fold: "crc32_loop crc p = fold (\<lambda>byte r. crc_byte r byte) p crc"
  by (induction crc p rule: crc32_loop.induct) (simp_all add: crc_byte_table)

text \<open>
  C18: the checksum by table is the remainder of the division by the polynomial \<open>0xedb88320\<close> bit by
  bit, with the register complemented before and after.
\<close>

theorem partition_crc32_correct:
  "partition_crc32 crc buf = NOT (fold (\<lambda>byte r. (crc_bit ^^ 8) (r XOR ucast byte)) buf (NOT crc))"
  by (simp add: partition_crc32_def crc32_loop_fold crc_byte_def)

text \<open>A checksum computed piecewise is the checksum of the whole.\<close>

lemma partition_crc32_append:
  "partition_crc32 crc (xs @ ys) = partition_crc32 (partition_crc32 crc xs) ys"
  by (simp add: partition_crc32_def crc32_loop_fold)

text \<open>The checksum tells apart any two buffers that differ in a single byte.\<close>

lemma xor_eq_0: "(a :: 'a::len word) XOR b = 0 \<longleftrightarrow> a = b"
  by (auto simp: bit_eq_iff bit_xor_iff)

lemma xor_inject: "(a :: 'a::len word) XOR c = b XOR c \<longleftrightarrow> a = b" "c XOR a = c XOR b \<longleftrightarrow> a = b"
  by (auto simp: bit_eq_iff bit_xor_iff)

lemma crc_bit_eq_0: "crc_bit a = 0 \<Longrightarrow> a = 0"
proof (cases "bit a 0")
  case True
  assume "crc_bit a = 0"
  then have "drop_bit 1 a = 0xedb88320" using True by (simp add: crc_bit_def xor_eq_0)
  moreover have "\<not> bit (drop_bit 1 a) 31" by (auto simp: bit_simps dest: bit_imp_le_length)
  moreover have "bit (0xedb88320 :: 32 word) 31" by simp
  ultimately show ?thesis by simp
next
  case False
  assume "crc_bit a = 0"
  then have d: "drop_bit 1 a = 0" using False by (simp add: crc_bit_def)
  have "bit a n = False" for n
  proof (cases n)
    case (Suc m)
    have "bit a n = bit (drop_bit 1 a) m" by (simp add: Suc bit_simps)
    then show ?thesis by (simp only: d bit_0_eq bot_fun_def bot_bool_def)
  qed (use False in simp)
  then show ?thesis by (auto intro: bit_word_eqI)
qed

lemma crc_bits_eq_0: "(crc_bit ^^ n) a = 0 \<Longrightarrow> a = 0"
  by (induction n) (auto dest: crc_bit_eq_0)

lemma crc_bits_inject: "(crc_bit ^^ n) a = (crc_bit ^^ n) b \<longleftrightarrow> a = b"
  using crc_bits_eq_0 [of n "a XOR b"] by (auto simp: crc_bits_xor xor_eq_0)

lemma crc32_loop_inject: "crc32_loop a p = crc32_loop b p \<longleftrightarrow> a = b"
proof (induction p arbitrary: a b)
  case (Cons x p)
  have "crc_byte a x = crc_byte b x \<longleftrightarrow> a = b"
    by (simp add: crc_byte_def crc_bits_inject xor_inject)
  then show ?case using Cons.IH [of "crc_byte a x" "crc_byte b x"] by (simp add: crc_byte_table)
qed simp

lemma partition_crc32_byte:
  "partition_crc32 crc (xs @ x # ys) = partition_crc32 crc (xs @ y # ys) \<longleftrightarrow> x = y"
proof -
  have "crc_byte r x = crc_byte r y \<longleftrightarrow> x = y" for r
    unfolding crc_byte_def crc_bits_inject xor_inject
    by (auto simp: bit_eq_iff [of "ucast x :: 32 word"] bit_simps intro!: bit_word_eqI)
  moreover have "NOT (a :: 32 word) = NOT b \<longleftrightarrow> a = b" for a b
    by (auto dest: arg_cong [of _ _ "NOT :: 32 word \<Rightarrow> 32 word"])
  moreover have "crc32_loop r (xs @ ys) = crc32_loop (crc32_loop r xs) ys" for r xs ys
    by (simp add: crc32_loop_fold)
  ultimately show ?thesis
    by (simp add: partition_crc32_def crc32_loop_inject crc_byte_table)
qed

end
