(* ===== verification/Bytes.thy ===== *)
theory Bytes
  imports Kot_Prelude
begin

section \<open>Packed structures as bytes\<close>

text \<open>
  The structures of disks and of network packets are packed, and the code casts between them.
  They are modelled as the lists of their bytes, with functions that read and write an
  unsigned number at an offset, least significant byte first. The lemmas say that a field
  reads back what was written to it and that fields which do not overlap are independent.
\<close>

type_synonym byte = "8 word"

fun le_val :: "byte list \<Rightarrow> nat" where
  "le_val [] = 0"
| "le_val (b # bs) = unat b + 256 * le_val bs"

fun le_bytes :: "nat \<Rightarrow> nat \<Rightarrow> byte list" where
  "le_bytes 0 v = []"
| "le_bytes (Suc n) v = of_nat v # le_bytes n (v div 256)"

definition field :: "nat \<Rightarrow> nat \<Rightarrow> byte list \<Rightarrow> byte list" where
  "field off n e = take n (drop off e)"

definition put_bytes :: "nat \<Rightarrow> byte list \<Rightarrow> byte list \<Rightarrow> byte list" where
  "put_bytes off bs e = take off e @ bs @ drop (off + length bs) e"

definition getf :: "nat \<Rightarrow> nat \<Rightarrow> byte list \<Rightarrow> nat" where
  "getf off n e = le_val (field off n e)"

definition putf :: "nat \<Rightarrow> nat \<Rightarrow> nat \<Rightarrow> byte list \<Rightarrow> byte list" where
  "putf off n v e = put_bytes off (le_bytes n v) e"

lemma length_le_bytes [simp]: "length (le_bytes n v) = n"
  by (induction n arbitrary: v) simp_all

lemma le_val_bytes: "le_val (le_bytes n v) = v mod 256 ^ n"
proof (induction n arbitrary: v)
  case (Suc n)
  have "unat (of_nat v :: 8 word) = v mod 256" by (simp add: unsigned_of_nat take_bit_eq_mod)
  then show ?case using Suc [of "v div 256"] by (simp add: mod_mult2_eq algebra_simps)
qed simp

lemma le_val_lt: "le_val bs < 256 ^ length bs"
proof (induction bs)
  case (Cons b bs)
  have "unat b < 2 ^ LENGTH(8)" by (rule unsigned_less)
  then have "unat b < 256" by simp
  with Cons show ?case by simp
qed simp

lemma le_bytes_val: "le_bytes (length bs) (le_val bs) = bs"
proof (induction bs)
  case (Cons b bs)
  have "unat b < 2 ^ LENGTH(8)" by (rule unsigned_less)
  then have "unat b < 256" by simp
  then have "(unat b + 256 * le_val bs) div 256 = le_val bs" by simp
  moreover have "(of_nat (256 * le_val bs) :: 8 word) = 0"
    by (subst word_of_nat_eq_0_iff) simp
  then have "of_nat (unat b + 256 * le_val bs) = b" by (simp del: of_nat_mult)
  ultimately show ?case using Cons by (simp del: of_nat_add of_nat_mult)
qed simp

lemma length_field [simp]: "off + n \<le> length e \<Longrightarrow> length (field off n e) = n"
  by (simp add: field_def)

lemma length_put_bytes [simp]: "off + length bs \<le> length e \<Longrightarrow> length (put_bytes off bs e) = length e"
  by (simp add: put_bytes_def)

lemma length_putf [simp]: "off + n \<le> length e \<Longrightarrow> length (putf off n v e) = length e"
  by (simp add: putf_def)

lemma field_put_same: "off + length bs \<le> length e \<Longrightarrow> n = length bs \<Longrightarrow> field off n (put_bytes off bs e) = bs"
  by (simp add: field_def put_bytes_def)

lemma nth_put_bytes:
  assumes "off + length bs \<le> length e" "i < length e"
  shows "put_bytes off bs e ! i = (if off \<le> i \<and> i < off + length bs then bs ! (i - off) else e ! i)"
  using assms by (auto simp: put_bytes_def nth_append)

lemma nth_field: "off + n \<le> length e \<Longrightarrow> i < n \<Longrightarrow> field off n e ! i = e ! (off + i)"
  by (simp add: field_def)

lemma field_put_other:
  assumes "off + length bs \<le> length e" "k + n \<le> off \<or> off + length bs \<le> k" "k + n \<le> length e"
  shows "field k n (put_bytes off bs e) = field k n e"
  using assms by (intro nth_equalityI) (auto simp: nth_field nth_put_bytes)

lemma getf_putf_same [simp]:
  "off + n \<le> length e \<Longrightarrow> getf off n (putf off n v e) = v mod 256 ^ n"
  by (simp add: getf_def putf_def field_put_same le_val_bytes)

lemma getf_putf_other [simp]:
  "off + n \<le> length e \<Longrightarrow> k + l \<le> off \<or> off + n \<le> k \<Longrightarrow> k + l \<le> length e \<Longrightarrow>
    getf k l (putf off n v e) = getf k l e"
  by (simp add: getf_def putf_def field_put_other)

lemma getf_lt: "off + n \<le> length e \<Longrightarrow> getf off n e < 256 ^ n"
  using le_val_lt [of "field off n e"] by (simp add: getf_def)

lemma field_putf_other:
  "off + n \<le> length e \<Longrightarrow> k + l \<le> off \<or> off + n \<le> k \<Longrightarrow> k + l \<le> length e \<Longrightarrow>
    field k l (putf off n v e) = field k l e"
  by (simp add: putf_def field_put_other)

subsection \<open>Unsigned 16- and 32-bit arithmetic\<close>

definition u16 :: "nat \<Rightarrow> nat" where "u16 n = n mod 2 ^ 16"

definition u32 :: "nat \<Rightarrow> nat" where "u32 n = n mod 2 ^ 32"

definition u32_sub :: "nat \<Rightarrow> nat \<Rightarrow> nat" where "u32_sub a b = u32 (a + (2 ^ 32 - u32 b))"

lemma u32_small [simp]: "n < 4294967296 \<Longrightarrow> u32 n = n"
  by (simp add: u32_def)

lemma u32_lt [simp]: "u32 n < 4294967296"
  by (simp add: u32_def)

lemma u32_sub_small: "b \<le> a \<Longrightarrow> a < 4294967296 \<Longrightarrow> u32_sub a b = a - b"
proof -
  assume *: "b \<le> a" "a < 4294967296"
  then have "a + (2 ^ 32 - u32 b) = (a - b) + 2 ^ 32" by simp
  then have "u32_sub a b = ((a - b) + 2 ^ 32) mod 2 ^ 32" by (simp only: u32_sub_def u32_def [of "a - b + 2 ^ 32"])
  also have "\<dots> = a - b" using * by (simp only: mod_add_self2) simp
  finally show ?thesis .
qed

end
