(* ===== verification/Ktime.thy ===== *)
theory Ktime
  imports Bytes
begin

section \<open>Calendar time\<close>

text \<open>
  Model of \<^verbatim>\<open>lib/time.c\<close> and of \<^verbatim>\<open>get_unix_time\<close> in \<^verbatim>\<open>global/time.c\<close>. The clock is the time handler
  that a driver registers, given here by the values it returns. Intermediate products are
  computed in 32-bit \<^verbatim>\<open>int\<close>; a sum that leaves the range is written with its wrap-around.
\<close>

definition SECS_PER_MIN :: int where "SECS_PER_MIN = 60"
definition SECS_PER_HOUR :: int where "SECS_PER_HOUR = 3600"
definition SECS_PER_DAY :: int where "SECS_PER_DAY = 86400"
definition TM_YEAR_BASE :: int where "TM_YEAR_BASE = 1900"

definition IS_LEAP_YEAR :: "int \<Rightarrow> bool" where
  "IS_LEAP_YEAR year \<longleftrightarrow> (year mod 4 = 0 \<and> year mod 100 \<noteq> 0) \<or> year mod 400 = 0"

definition days_per_month :: "int list list" where
  "days_per_month =
    [[31, 28, 31, 30, 31, 30, 31, 31, 30, 31, 30, 31],
     [31, 29, 31, 30, 31, 30, 31, 31, 30, 31, 30, 31]]"

definition days_per_year :: "int list" where "days_per_year = [365, 366]"

record tm =
  tm_sec :: int
  tm_min :: int
  tm_hour :: int
  tm_mday :: int
  tm_mon :: int
  tm_year :: int

definition s32 :: "int \<Rightarrow> int" where
  "s32 x = (x + 2 ^ 31) mod 2 ^ 32 - 2 ^ 31"

text \<open>The counters \<^verbatim>\<open>years\<close> and \<^verbatim>\<open>leap_years\<close> have 8 bits.\<close>

function count_years :: "int \<Rightarrow> int \<Rightarrow> int \<Rightarrow> int \<Rightarrow> int \<times> int" where
  "count_years limit y_k years leap_years =
     (if y_k < limit then
        if IS_LEAP_YEAR y_k then count_years limit (y_k + 1) years ((leap_years + 1) mod 256)
        else count_years limit (y_k + 1) ((years + 1) mod 256) leap_years
      else (years, leap_years))"
  by pat_completeness auto
termination
  by (relation "measure (\<lambda>(limit, y_k, _, _). nat (limit - y_k))") auto

function add_months :: "int \<Rightarrow> nat \<Rightarrow> nat \<Rightarrow> int \<Rightarrow> int option" where
  "add_months mon year_index mo_k ts =
     (if int mo_k < mon - 1 then
        if mo_k < 12 then add_months mon year_index (mo_k + 1) (ts + days_per_month ! year_index ! mo_k * SECS_PER_DAY)
        else None
      else Some ts)"
  by pat_completeness auto
termination
  by (relation "measure (\<lambda>(mon, _, mo_k, _). nat (mon - int mo_k))") auto

text \<open>\<open>None\<close>: the table of months is read behind its end.\<close>

definition mktime :: "tm \<Rightarrow> int option" where
  "mktime timeinfo =
     (let year = tm_year timeinfo + TM_YEAR_BASE;
          (years, leap_years) = count_years year 1970 0 0;
          ts = s32 ((years * days_per_year ! 0 + leap_years * days_per_year ! 1) * SECS_PER_DAY);
          year_index = (if IS_LEAP_YEAR year then 1 else 0)
      in map_option (\<lambda>ts.
           ts + s32 (tm_mday timeinfo * SECS_PER_DAY) + s32 (tm_hour timeinfo * SECS_PER_HOUR)
              + s32 (tm_min timeinfo * SECS_PER_MIN) + tm_sec timeinfo)
         (add_months (tm_mon timeinfo) year_index 0 ts))"

text \<open>The time handler: what \<^verbatim>\<open>get_current_second\<close> and its siblings return.\<close>

record clock =
  current_second :: nat
  current_minute :: nat
  current_hour :: nat
  current_month_day :: nat
  current_month :: nat
  current_year :: nat

text \<open>\<^verbatim>\<open>get_unix_time\<close> with its static variable \<^verbatim>\<open>time_at_start\<close>.\<close>

definition get_unix_time :: "clock \<Rightarrow> int \<Rightarrow> int \<Rightarrow> (int \<times> int) option" where
  "get_unix_time c time_at_start current_us =
     (if time_at_start = 0 then
        case mktime \<lparr>tm_sec = int (current_second c), tm_min = int (current_minute c), tm_hour = int (current_hour c),
            tm_mday = int (current_month_day c), tm_mon = int (current_month c),
            tm_year = int (current_year c) - TM_YEAR_BASE\<rparr> of
          None \<Rightarrow> None
        | Some t \<Rightarrow> let start = t - current_us div 1000000 in Some (start + current_us div 1000000, start)
      else Some (time_at_start + current_us div 1000000, time_at_start))"

subsection \<open>The calendar\<close>

text \<open>A date is a year, a month from 1 to 12 and a day from 1; \<open>next_day\<close> is the day that follows it.\<close>

definition month_days :: "int \<Rightarrow> int \<Rightarrow> int" where
  "month_days y m = days_per_month ! (if IS_LEAP_YEAR y then 1 else 0) ! nat (m - 1)"

definition valid_date :: "int \<times> int \<times> int \<Rightarrow> bool" where
  "valid_date d = (case d of (y, m, k) \<Rightarrow> 1970 \<le> y \<and> 1 \<le> m \<and> m \<le> 12 \<and> 1 \<le> k \<and> k \<le> month_days y m)"

definition next_day :: "int \<times> int \<times> int \<Rightarrow> int \<times> int \<times> int" where
  "next_day d = (case d of (y, m, k) \<Rightarrow>
     if k < month_days y m then (y, m, k + 1) else if m < 12 then (y, m + 1, 1) else (y + 1, 1, 1))"

definition tm_of :: "int \<times> int \<times> int \<Rightarrow> int \<Rightarrow> tm" where
  "tm_of d sec = (case d of (y, m, k) \<Rightarrow>
     \<lparr>tm_sec = sec mod 60, tm_min = sec div 60 mod 60, tm_hour = sec div 3600, tm_mday = k, tm_mon = m,
      tm_year = y - TM_YEAR_BASE\<rparr>)"

definition date_after :: "nat \<Rightarrow> int \<times> int \<times> int" where
  "date_after n = (next_day ^^ n) (1970, 1, 1)"

text \<open>The days before a year, and before a month of a year.\<close>

definition year_days :: "int \<Rightarrow> int" where
  "year_days y = (\<Sum>i\<leftarrow>[1970..y - 1]. if IS_LEAP_YEAR i then 366 else 365)"

definition days_before_month :: "int \<Rightarrow> int \<Rightarrow> int" where
  "days_before_month y m = (\<Sum>i\<leftarrow>[1..m - 1]. month_days y i)"

lemma upto_last: "a \<le> b \<Longrightarrow> [a..b] = [a..b - 1] @ [b]"
  by (rule upto_rec2)

lemma year_days_Suc: "1970 \<le> y \<Longrightarrow> year_days (y + 1) = year_days y + (if IS_LEAP_YEAR y then 366 else 365)"
  by (simp add: year_days_def upto_last [of 1970 y])

lemma days_before_month_Suc: "1 \<le> m \<Longrightarrow> days_before_month y (m + 1) = days_before_month y m + month_days y m"
  by (simp add: days_before_month_def upto_last [of 1 m])

lemma days_before_December: "days_before_month y 12 + month_days y 12 = (if IS_LEAP_YEAR y then 366 else 365)"
  by (simp add: days_before_month_def month_days_def days_per_month_def upto.simps)

lemma month_days_bounds:
  assumes "1 \<le> m" "m \<le> 12"
  shows "28 \<le> month_days y m" "month_days y m \<le> 31"
proof -
  let ?xs = "days_per_month ! (if IS_LEAP_YEAR y then 1 else 0)"
  have "nat (m - 1) < 12" using assms by simp
  then have "month_days y m \<in> set ?xs"
    unfolding month_days_def by (intro nth_mem) (simp add: days_per_month_def)
  moreover have "\<forall>x \<in> set ?xs. 28 \<le> x \<and> x \<le> 31" by (simp add: days_per_month_def)
  ultimately show "28 \<le> month_days y m" "month_days y m \<le> 31" by auto
qed

definition day_number :: "int \<times> int \<times> int \<Rightarrow> int" where
  "day_number d = (case d of (y, m, k) \<Rightarrow> year_days y + days_before_month y m + k)"

lemma next_day_number:
  assumes "valid_date d"
  shows "valid_date (next_day d) \<and> day_number (next_day d) = day_number d + 1"
proof -
  obtain y m k where d: "d = (y, m, k)" by (cases d)
  have v: "1970 \<le> y" "1 \<le> m" "m \<le> 12" "1 \<le> k" "k \<le> month_days y m" using assms by (auto simp: valid_date_def d)
  consider "k < month_days y m" | "k = month_days y m" "m < 12" | "k = month_days y m" "m = 12" using v by linarith
  then show ?thesis
  proof cases
    case 1
    then show ?thesis using v by (simp add: d next_day_def valid_date_def day_number_def)
  next
    case 2
    then show ?thesis using v month_days_bounds [of "m + 1" y]
      by (simp add: d next_day_def valid_date_def day_number_def days_before_month_Suc)
  next
    case 3
    then show ?thesis using v month_days_bounds [of 1 "y + 1"] days_before_December [of y]
      by (simp add: d next_day_def valid_date_def day_number_def year_days_Suc days_before_month_def)
  qed
qed

lemma date_after_number: "valid_date (date_after n) \<and> day_number (date_after n) = int n + 1"
proof (induction n)
  case 0
  show ?case
    by (simp add: date_after_def valid_date_def month_days_def days_per_month_def IS_LEAP_YEAR_def
        day_number_def year_days_def days_before_month_def)
next
  case (Suc n)
  then show ?case using next_day_number [of "date_after n"] by (simp add: date_after_def)
qed

subsection \<open>\<open>mktime\<close> counts days\<close>

lemma count_years_days:
  "0 \<le> a \<Longrightarrow> 0 \<le> b \<Longrightarrow> a + b + (limit - y) < 256 \<Longrightarrow> a + b < 256 \<Longrightarrow> count_years limit y a b = (p, q) \<Longrightarrow>
    p * 365 + q * 366 = a * 365 + b * 366 + (\<Sum>i\<leftarrow>[y..limit - 1]. if IS_LEAP_YEAR i then 366 else 365)"
proof (induction limit y a b arbitrary: p q rule: count_years.induct)
  case (1 limit y a b)
  show ?case
  proof (cases "y < limit")
    case True
    then have u: "[y..limit - 1] = y # [y + 1..limit - 1]" by (simp add: upto.simps)
    show ?thesis
    proof (cases "IS_LEAP_YEAR y")
      case l: True
      have e: "count_years limit (y + 1) a (b + 1) = (p, q)"
        using 1(3-7) True l by (subst (asm) count_years.simps) (simp add: mod_pos_pos_trivial)
      then show ?thesis using 1(1) [OF True l] 1(3-6) True by (simp add: u l mod_pos_pos_trivial del: count_years.simps)
    next
      case l: False
      have e: "count_years limit (y + 1) (a + 1) b = (p, q)"
        using 1(3-7) True l by (subst (asm) count_years.simps) (simp add: mod_pos_pos_trivial)
      then show ?thesis using 1(2) [OF True l] 1(3-6) True by (simp add: u l mod_pos_pos_trivial del: count_years.simps)
    qed
  qed (use 1(7) in simp)
qed

lemma add_months_days:
  "m \<le> 13 \<Longrightarrow> add_months m yi k ts =
    Some (ts + 86400 * (\<Sum>i\<leftarrow>[int k + 1..m - 1]. days_per_month ! yi ! nat (i - 1)))"
proof (induction m yi k ts rule: add_months.induct)
  case (1 m yi k ts)
  show ?case
  proof (cases "int k < m - 1")
    case True
    then have "[int k + 1..m - 1] = (int k + 1) # [int k + 1 + 1..m - 1]" by (simp add: upto.simps)
    then show ?thesis using 1 True
      by (subst add_months.simps) (simp add: SECS_PER_DAY_def algebra_simps del: add_months.simps)
  qed (simp add: add_months.simps)
qed

lemma s32_small: "- 2147483648 \<le> x \<Longrightarrow> x < 2147483648 \<Longrightarrow> s32 x = x"
  by (simp add: s32_def)

lemma sum_list_pos: "(\<And>i. 0 \<le> f i) \<Longrightarrow> 0 \<le> (\<Sum>i\<leftarrow>xs. f i :: int)"
  by (induction xs) (simp_all add: add_nonneg_nonneg)

lemma year_days_le:
  assumes "1970 \<le> y" "y \<le> 2038"
  shows "0 \<le> year_days y" "year_days y \<le> 24837"
proof -
  let ?f = "\<lambda>i. if IS_LEAP_YEAR i then 366 else 365 :: int"
  have pos: "0 \<le> (\<Sum>i\<leftarrow>[a..b]. ?f i)" for a b by (rule sum_list_pos) simp
  show "0 \<le> year_days y" unfolding year_days_def by (rule pos)
  have "[1970..2037] = [1970..y - 1] @ [y..2037]"
    using assms upto_split1 [of 1970 y 2037] by (cases "y = 2038") simp_all
  then have "(\<Sum>i\<leftarrow>[1970..2037]. ?f i) = year_days y + (\<Sum>i\<leftarrow>[y..2037]. ?f i)" by (simp add: year_days_def)
  moreover have "(\<Sum>i\<leftarrow>[1970..2037]. ?f i) = 24837" by (simp add: upto.simps IS_LEAP_YEAR_def)
  ultimately show "year_days y \<le> 24837" using pos [of y 2037] by linarith
qed

lemma mktime_date:
  assumes "valid_date (y, m, k)" "y \<le> 2038" "0 \<le> sec" "sec < 86400"
  shows "mktime (tm_of (y, m, k) sec) = Some (86400 * day_number (y, m, k) + sec)"
proof -
  have v: "1970 \<le> y" "1 \<le> m" "m \<le> 12" "1 \<le> k" "k \<le> month_days y m" using assms by (auto simp: valid_date_def)
  obtain p q where pq: "count_years y 1970 0 0 = (p, q)" by (cases "count_years y 1970 0 0")
  have yd: "p * 365 + q * 366 = year_days y"
    using count_years_days [OF _ _ _ _ pq] assms(2) v(1) by (simp add: year_days_def)
  have k: "k \<le> 31" using month_days_bounds(2) [OF v(2,3), of y] v(5) by simp
  have s: "s32 (year_days y * 86400) = year_days y * 86400" "s32 (k * 86400) = k * 86400"
      "s32 (sec div 3600 * 3600) = sec div 3600 * 3600" "s32 (sec div 60 mod 60 * 60) = sec div 60 mod 60 * 60"
    using year_days_le [OF v(1) assms(2)] k v(4) assms(3,4) by (auto intro!: s32_small)
  have t: "sec div 3600 * 3600 + sec div 60 mod 60 * 60 + sec mod 60 = sec"
  proof -
    have "sec div 3600 = sec div 60 div 60" by (simp add: zdiv_zmult2_eq [of 60 sec 60, simplified])
    then show ?thesis using div_mult_mod_eq [of "sec div 60" 60] div_mult_mod_eq [of sec 60] by linarith
  qed
  let ?yi = "if IS_LEAP_YEAR y then 1 else 0 :: nat"
  have a: "add_months m ?yi 0 (year_days y * 86400) = Some (year_days y * 86400 + 86400 * days_before_month y m)"
    using v(3) add_months_days [of m ?yi 0 "year_days y * 86400"]
    by (simp add: days_before_month_def month_days_def)
  have "mktime (tm_of (y, m, k) sec) = map_option (\<lambda>ts. ts + s32 (k * 86400) + s32 (sec div 3600 * 3600)
      + s32 (sec div 60 mod 60 * 60) + sec mod 60) (add_months m ?yi 0 (s32 ((p * 365 + q * 366) * 86400)))"
    by (simp add: mktime_def tm_of_def TM_YEAR_BASE_def pq days_per_year_def SECS_PER_DAY_def SECS_PER_HOUR_def
        SECS_PER_MIN_def del: add_months.simps count_years.simps)
  also have "\<dots> = Some (year_days y * 86400 + 86400 * days_before_month y m + k * 86400 +
      (sec div 3600 * 3600 + sec div 60 mod 60 * 60 + sec mod 60))"
    unfolding yd s a by simp
  also have "\<dots> = Some (86400 * day_number (y, m, k) + sec)" unfolding t by (simp add: day_number_def)
  finally show ?thesis .
qed



text \<open>
  The year after, the product of days and seconds leaves the range of a 32-bit \<^verbatim>\<open>int\<close>.
\<close>

lemma mktime_2039: "mktime (tm_of (2039, 1, 1) 0) = Some (- 2117428096)"
proof -
  obtain p q where pq: "count_years 2039 1970 0 0 = (p, q)" by (cases "count_years 2039 1970 0 0")
  have "p * 365 + q * 366 = (\<Sum>i\<leftarrow>[1970..2038]. if IS_LEAP_YEAR i then 366 else 365)"
    using count_years_days [OF _ _ _ _ pq] by simp
  also have "\<dots> = 25202" by (simp add: upto.simps IS_LEAP_YEAR_def)
  finally have "(p * 365 + q * 366) * 86400 = 2177452800" by simp
  then show ?thesis
    by (simp add: mktime_def tm_of_def TM_YEAR_BASE_def pq days_per_year_def SECS_PER_DAY_def SECS_PER_HOUR_def
        SECS_PER_MIN_def s32_def del: count_years.simps)
qed

end
