(* ===== verification/Storage_Device.thy ===== *)
theory Storage_Device
  imports Bytes
begin

section \<open>Storage devices\<close>

text \<open>
  The interface between the drivers of disks and the modules that use them, from
  \<^verbatim>\<open>lib/modules/storage.h\<close>: a device is a structure with two function pointers and the private data
  of the driver. \<open>sd_read a n\<close> is a command on the private data that returns the error number, the bytes that were written to the
  start of the caller's buffer. The locale states what a client
  relies on: reads return the stored bytes and writes, where the driver performs them
  faithfully, replace exactly the bytes of the range.
\<close>

type_synonym 'd device_read = "nat \<Rightarrow> nat \<Rightarrow> (errno \<times> byte list, 'd) cmd"
type_synonym 'd device_write = "nat \<Rightarrow> byte list \<Rightarrow> (errno, 'd) cmd"

record 'd storage_device =
  sd_read :: "'d device_read"
  sd_write :: "'d device_write"
  storage_size :: nat
  sd_data :: 'd
  is_removable :: bool

definition bytes_to_lba :: "nat \<Rightarrow> nat" where "bytes_to_lba value = value div 512"

definition lba_to_bytes :: "nat \<Rightarrow> nat" where "lba_to_bytes value = u64 (value * 512)"

lemma lba_to_bytes_small: "v * 512 < 18446744073709551616 \<Longrightarrow> lba_to_bytes v = v * 512"
  by (simp add: lba_to_bytes_def)

text \<open>\<open>store a bs f\<close>: the contents \<open>f\<close> with the bytes \<open>bs\<close> written at \<open>a\<close>.\<close>

definition store :: "nat \<Rightarrow> byte list \<Rightarrow> (nat \<Rightarrow> byte) \<Rightarrow> nat \<Rightarrow> byte" where
  "store a bs f i = (if a \<le> i \<and> i < a + length bs then bs ! (i - a) else f i)"

definition load :: "nat \<Rightarrow> nat \<Rightarrow> (nat \<Rightarrow> byte) \<Rightarrow> byte list" where
  "load a n f = map f [a..<a + n]"

lemma length_load [simp]: "length (load a n f) = n"
  by (simp add: load_def)

lemma nth_load [simp]: "i < n \<Longrightarrow> load a n f ! i = f (a + i)"
  by (simp add: load_def)

lemma load_store_same: "n = length bs \<Longrightarrow> load a n (store a bs f) = bs"
  by (auto intro: nth_equalityI simp: store_def)

lemma load_store_other: "a + n \<le> b \<or> b + length bs \<le> a \<Longrightarrow> load a n (store b bs f) = load a n f"
  by (auto intro!: nth_equalityI simp: store_def)

lemma load_append: "load a (m + n) f = load a m f @ load (a + m) n f"
  using upt_add_eq_append [of a "a + m" n] by (simp add: load_def add.assoc)

locale byte_store =
  fixes rd :: "'d device_read"
    and wr :: "'d device_write"
    and good :: "'d \<Rightarrow> bool"
    and view :: "'d \<Rightarrow> nat \<Rightarrow> byte"
    and cap :: nat
    and writable :: "nat \<Rightarrow> nat \<Rightarrow> bool"
  assumes rd_ok: "good d \<Longrightarrow> a + n \<le> cap \<Longrightarrow>
      \<exists>d'. rd a n d = Inr ((EOK, load a n (view d)), d') \<and> good d' \<and> view d' = view d"
    and wr_ok: "good d \<Longrightarrow> a + length bs \<le> cap \<Longrightarrow> writable a (length bs) \<Longrightarrow>
      \<exists>d'. wr a bs d = Inr (EOK, d') \<and> good d' \<and> view d' = store a bs (view d)"

end
