(* ===== verification/Fat32.thy ===== *)
theory Fat32
  imports Storage_Device Kstring Ktime
begin

section \<open>The FAT32 file system\<close>

text \<open>
  Model of \<^verbatim>\<open>fat32/source/core.c\<close>: one mounted file system on one device. Boot sector, information
  sector and directory entries are the bytes of the packed structures of \<^verbatim>\<open>core.h\<close>, read and
  written at the offsets of their fields, since the code casts between short and long
  entries; the allocation table is a list of numbers. A pointer to a directory entry inside the cluster
  buffer is the value of the entry, which the code reads before the buffer changes.
  Strings are lists of bytes without the terminator. Blocks from \<^verbatim>\<open>malloc\<close> and arrays on the stack start
  with unknown bytes, and releasing memory is not recorded.
\<close>

subsection \<open>State\<close>

definition ENTRY_SIZE :: nat where "ENTRY_SIZE = 32"
definition END_OF_CLUSTERCHAIN :: nat where "END_OF_CLUSTERCHAIN = 0x0FFFFFFF"
definition FSI_LEAD_SIGNATURE :: nat where "FSI_LEAD_SIGNATURE = 0x41615252"
definition FSI_STRUCT_SIGNATURE :: nat where "FSI_STRUCT_SIGNATURE = 0x61417272"
definition FSI_TRAIL_SIGNATURE :: nat where "FSI_TRAIL_SIGNATURE = 0xAA550000"
definition LFN_NAME_SIZE :: nat where "LFN_NAME_SIZE = 13"
definition LAST_LONG_ENTRY :: nat where "LAST_LONG_ENTRY = 0x40"
definition DIR_MINIMUM_ENTRIES :: nat where "DIR_MINIMUM_ENTRIES = 2"
definition FAT32_YEAR_BASE :: nat where "FAT32_YEAR_BASE = 1980"
definition FAT32_SIGNATURE :: nat where
  "FAT32_SIGNATURE = le_val [0x46, 0x41, 0x54, 0x33, 0x32, 0x20, 0x20, 0x20]"

text \<open>The flags of \<^verbatim>\<open>fat_write_cluster_chain\<close>: end of chain, fill with zero.\<close>

record chain_flags =
  flag_eoc :: bool
  flag_fwz :: bool

text \<open>Fields of \<^verbatim>\<open>bpb_t\<close>.\<close>

definition sectors_per_cluster :: "byte list \<Rightarrow> nat" where "sectors_per_cluster b = getf 13 1 b"
definition reserved_sectors :: "byte list \<Rightarrow> nat" where "reserved_sectors b = getf 14 2 b"
definition fats :: "byte list \<Rightarrow> nat" where "fats b = getf 16 1 b"
definition total_sectors16 :: "byte list \<Rightarrow> nat" where "total_sectors16 b = getf 19 2 b"
definition total_sectors32 :: "byte list \<Rightarrow> nat" where "total_sectors32 b = getf 32 4 b"
definition sectors_per_fat :: "byte list \<Rightarrow> nat" where "sectors_per_fat b = getf 36 4 b"
definition root_cluster_number :: "byte list \<Rightarrow> nat" where "root_cluster_number b = getf 44 4 b"
definition sector_number_fs_info :: "byte list \<Rightarrow> nat" where "sector_number_fs_info b = getf 48 2 b"
definition bpb_identifier :: "byte list \<Rightarrow> nat" where "bpb_identifier b = getf 82 8 b"

text \<open>Fields of \<^verbatim>\<open>fs_info_t\<close>.\<close>

definition lead_signature :: "byte list \<Rightarrow> nat" where "lead_signature f = getf 0 4 f"
definition struct_signature :: "byte list \<Rightarrow> nat" where "struct_signature f = getf 484 4 f"
definition free_cluster_count :: "byte list \<Rightarrow> nat" where "free_cluster_count f = getf 488 4 f"
definition fsi_next_free_cluster :: "byte list \<Rightarrow> nat" where "fsi_next_free_cluster f = getf 492 4 f"
definition trail_signature :: "byte list \<Rightarrow> nat" where "trail_signature f = getf 508 4 f"

text \<open>
  Fields of \<^verbatim>\<open>fat_short_entry_t\<close>: the name in the bytes 0 to 10, the attributes in byte 11.
\<close>

definition entry_attributes :: "byte list \<Rightarrow> nat" where "entry_attributes e = getf 11 1 e"
definition is_directory :: "byte list \<Rightarrow> bool" where "is_directory e \<longleftrightarrow> odd (entry_attributes e div 16)"
definition creation_time :: "byte list \<Rightarrow> nat" where "creation_time e = getf 14 2 e"
definition creation_date :: "byte list \<Rightarrow> nat" where "creation_date e = getf 16 2 e"
definition last_access_date :: "byte list \<Rightarrow> nat" where "last_access_date e = getf 18 2 e"
definition cluster_high :: "byte list \<Rightarrow> nat" where "cluster_high e = getf 20 2 e"
definition last_write_time :: "byte list \<Rightarrow> nat" where "last_write_time e = getf 22 2 e"
definition last_write_date :: "byte list \<Rightarrow> nat" where "last_write_date e = getf 24 2 e"
definition cluster_low :: "byte list \<Rightarrow> nat" where "cluster_low e = getf 26 2 e"
definition entry_size :: "byte list \<Rightarrow> nat" where "entry_size e = getf 28 4 e"

record fat_context =
  bpb :: "byte list"
  fsi :: "byte list"
  fat :: "nat list"
  fat_size :: nat
  fat1_position :: nat
  fat2_position :: nat
  first_usable_lba :: nat
  cluster_size :: nat
  entries_per_cluster :: nat
  cluster_count :: nat
  data_cluster_count :: nat
  fat_entry_count :: nat
  next_free_cluster :: nat
  root_dir :: "byte list"
  cluster_zero_buffer :: "byte list"
  part_start :: nat
  part_size :: nat

text \<open>
  The rest of the state: the device, the lock of the allocator, the buffer that the current
  operation reads directories into, the clock, the bytes of fresh memory, and the bytes
  that follow the terminator of a string in memory.
\<close>

record 'd fat_state =
  fctx :: fat_context
  fdev :: "'d storage_device"
  fat_allocate_cluster_lock :: bool
  cluster_buffer :: "byte list"
  now :: clock
  junk :: "nat \<Rightarrow> byte"
  after_nul :: "byte list \<Rightarrow> nat \<Rightarrow> byte"

type_synonym ('a, 'd) fat_cmd = "('a, 'd fat_state) cmd"

definition ctxc :: "(fat_context \<Rightarrow> 'a) \<Rightarrow> ('a, 'd) fat_cmd" where
  "ctxc f = getc (\<lambda>s. f (fctx s))"

definition upd_fctx :: "(fat_context \<Rightarrow> fat_context) \<Rightarrow> (unit, 'd) fat_cmd" where
  "upd_fctx f = modc (\<lambda>s. s\<lparr>fctx := f (fctx s)\<rparr>)"

definition bpbc :: "(byte list \<Rightarrow> 'a) \<Rightarrow> ('a, 'd) fat_cmd" where
  "bpbc f = ctxc (\<lambda>c. f (bpb c))"

text \<open>Calls through the function pointers of the device.\<close>

definition device_read :: "nat \<Rightarrow> nat \<Rightarrow> byte list \<Rightarrow> (errno \<times> byte list, 'd) fat_cmd" where
  "device_read pos n buffer s =
     (case sd_read (fdev s) pos n (sd_data (fdev s)) of
       Inl f \<Rightarrow> Inl f
     | Inr ((e, bs), d) \<Rightarrow>
        if length bs \<le> length buffer
        then Inr ((e, bs @ drop (length bs) buffer), s\<lparr>fdev := (fdev s)\<lparr>sd_data := d\<rparr>\<rparr>)
        else Inl OutOfBounds)"

definition device_write :: "nat \<Rightarrow> byte list \<Rightarrow> (errno, 'd) fat_cmd" where
  "device_write pos bs s =
     (case sd_write (fdev s) pos bs (sd_data (fdev s)) of
       Inl f \<Rightarrow> Inl f
     | Inr (e, d) \<Rightarrow> Inr (e, s\<lparr>fdev := (fdev s)\<lparr>sd_data := d\<rparr>\<rparr>))"

definition fresh_bytes :: "nat \<Rightarrow> (byte list, 'd) fat_cmd" where
  "fresh_bytes n = getc (\<lambda>s. map (junk s) [0..<n])"

subsection \<open>Addresses, times and partition access\<close>

definition cluster_to_lba :: "fat_context \<Rightarrow> nat \<Rightarrow> nat" where
  "cluster_to_lba ctx cluster =
     u64_add (first_usable_lba ctx) (u32 (sectors_per_cluster (bpb ctx) * u32_sub cluster 2))"

definition lba_to_cluster :: "fat_context \<Rightarrow> nat \<Rightarrow> nat" where
  "lba_to_cluster ctx lba =
     u32 (u64_sub lba (first_usable_lba ctx) div sectors_per_cluster (bpb ctx) + 2)"

definition read_partition :: "nat \<Rightarrow> nat \<Rightarrow> byte list \<Rightarrow> (errno \<times> byte list, 'd) fat_cmd" where
  "read_partition start sz buffer =
     bindc (ctxc part_start) (\<lambda>ps.
     bindc (ctxc part_size) (\<lambda>pz.
     if u64_add start sz > u64_add ps pz then ret (EINVAL, buffer)
     else device_read (u64_add start ps) sz buffer))"

definition write_partition :: "nat \<Rightarrow> byte list \<Rightarrow> (errno, 'd) fat_cmd" where
  "write_partition start buffer =
     bindc (ctxc part_start) (\<lambda>ps.
     bindc (ctxc part_size) (\<lambda>pz.
     if u64_add start (length buffer) > u64_add ps pz then ret EINVAL
     else device_write (u64_add start ps) buffer))"

definition fat_get_cluster_entry_without_root_check :: "byte list \<Rightarrow> nat" where
  "fat_get_cluster_entry_without_root_check dir = cluster_low dir + cluster_high dir * 65536"

definition fat_get_cluster_file :: "byte list \<Rightarrow> nat" where
  "fat_get_cluster_file dir = fat_get_cluster_entry_without_root_check dir"

definition fat_get_cluster_entry :: "fat_context \<Rightarrow> byte list \<Rightarrow> nat" where
  "fat_get_cluster_entry ctx dir =
     (let cluster = fat_get_cluster_entry_without_root_check dir
      in if cluster = 0 then root_cluster_number (bpb ctx) else cluster)"

definition fat_set_cluster_entry :: "nat \<Rightarrow> byte list \<Rightarrow> byte list" where
  "fat_set_cluster_entry cluster dir =
     putf 20 2 (cluster div 65536 mod 65536) (putf 26 2 (cluster mod 65536) dir)"

definition fat_get_current_time :: "clock \<Rightarrow> nat" where
  "fat_get_current_time c =
     current_second c mod 32 + current_minute c mod 64 * 32 + current_hour c mod 32 * 2048"

definition fat_get_current_date :: "clock \<Rightarrow> nat" where
  "fat_get_current_date c =
     current_month_day c mod 32 + current_month c mod 16 * 32 +
     nat ((int (current_year c) - int FAT32_YEAR_BASE) mod 128) * 512"

definition fat_get_entry_date :: "nat \<Rightarrow> tm \<Rightarrow> tm" where
  "fat_get_entry_date date timeinfo =
     timeinfo\<lparr>tm_mday := int (date mod 32), tm_mon := int (date div 32 mod 16),
       tm_year := int (date div 512 mod 128) + int FAT32_YEAR_BASE - TM_YEAR_BASE\<rparr>"

definition fat_get_entry_time :: "nat \<Rightarrow> tm \<Rightarrow> tm" where
  "fat_get_entry_time time timeinfo =
     timeinfo\<lparr>tm_sec := int (time mod 32), tm_min := int (time div 32 mod 64), tm_hour := int (time div 2048 mod 32)\<rparr>"

definition fat_read_boot_sector :: "(errno, 'd) fat_cmd" where
  "fat_read_boot_sector =
     bindc (ctxc bpb) (\<lambda>b.
     bindc (read_partition 0 512 b) (\<lambda>(e, b).
     seqc (upd_fctx (bpb_update (\<lambda>_. b)))
    (ret e)))"

definition fat_read_fs_info_sector :: "(errno, 'd) fat_cmd" where
  "fat_read_fs_info_sector =
     bindc (bpbc sector_number_fs_info) (\<lambda>n.
     bindc (ctxc fsi) (\<lambda>f.
     bindc (read_partition (lba_to_bytes n) 512 f) (\<lambda>(e, f).
     seqc (upd_fctx (fsi_update (\<lambda>_. f)))
    (if e \<noteq> EOK then ret e
     else if lead_signature f \<noteq> FSI_LEAD_SIGNATURE then ret EINVAL
     else if struct_signature f \<noteq> FSI_STRUCT_SIGNATURE then ret EINVAL
     else if trail_signature f \<noteq> FSI_TRAIL_SIGNATURE then ret EINVAL
     else ret EOK))))"

definition fat_write_fs_info_sector :: "(errno, 'd) fat_cmd" where
  "fat_write_fs_info_sector =
     bindc (bpbc sector_number_fs_info) (\<lambda>n.
     bindc (ctxc fsi) (\<lambda>f.
     write_partition (lba_to_bytes n) f))"

text \<open>The table as an array of 32-bit numbers.\<close>

definition words_of :: "byte list \<Rightarrow> nat list" where
  "words_of bs = map (\<lambda>i. getf (4 * i) 4 bs) [0..<length bs div 4]"

definition fat_read_fat :: "(errno, 'd) fat_cmd" where
  "fat_read_fat =
     bindc (ctxc fat1_position) (\<lambda>p.
     bindc (ctxc fat_size) (\<lambda>n.
     bindc (fresh_bytes n) (\<lambda>b.
     bindc (read_partition p n b) (\<lambda>(e, b).
     seqc (upd_fctx (fat_update (\<lambda>_. words_of b)))
    (ret e)))))"

subsection \<open>Cluster chains\<close>

definition fat_get_next_cluster :: "nat \<Rightarrow> (nat, 'd) fat_cmd" where
  "fat_get_next_cluster current =
     bindc (ctxc fat) (\<lambda>f.
     if current < length f then ret (f ! current mod 0x10000000) else stop OutOfBounds)"

definition fat_set_next_cluster :: "nat \<Rightarrow> nat \<Rightarrow> (errno, 'd) fat_cmd" where
  "fat_set_next_cluster current next_cluster =
     bindc (ctxc fat) (\<lambda>f.
     if current < length f then
       let v = next_cluster mod 0x10000000 + f ! current div 0x10000000 * 0x10000000 in
       seqc (upd_fctx (fat_update (\<lambda>_. f[current := v])))
      (bindc (ctxc fat1_position) (\<lambda>p.
       bindc (write_partition (u64_add p (u64_mul current 4)) (le_bytes 4 v)) (\<lambda>_.
       bindc (ctxc fat2_position) (\<lambda>p.
       bindc (write_partition (u64_add p (u64_mul current 4)) (le_bytes 4 v)) (\<lambda>_.
       ret EOK)))))
     else stop OutOfBounds)"

abbreviation alloc_acquire :: "(unit, 'd) fat_cmd" where
  "alloc_acquire \<equiv> lock_acquire fat_allocate_cluster_lock fat_allocate_cluster_lock_update"

abbreviation alloc_release :: "(unit, 'd) fat_cmd" where
  "alloc_release \<equiv> lock_release fat_allocate_cluster_lock_update"

function fat_find_free :: "nat \<Rightarrow> nat \<Rightarrow> (nat option, 'd) fat_cmd" where
  "fat_find_free n i =
     (if i < n then
        bindc (fat_get_next_cluster (u32 i)) (\<lambda>c. if c = 0 then ret (Some i) else fat_find_free n (i + 1))
      else ret None)"
  by pat_completeness auto
termination
  by (relation "measure (\<lambda>(n, i). n - i)") auto

declare fat_find_free.simps [simp del]

text \<open>The counter has 32 bits, so that adding \<open>2 ^ 32 - 1\<close> subtracts one.\<close>

definition add_free_count :: "nat \<Rightarrow> (errno, 'd) fat_cmd" where
  "add_free_count d =
     seqc (upd_fctx (\<lambda>c. c\<lparr>fsi := putf 488 4 (free_cluster_count (fsi c) + d) (fsi c)\<rparr>))
     fat_write_fs_info_sector"

definition fat_allocate_cluster :: "(errno + nat, 'd) fat_cmd" where
  "fat_allocate_cluster =
     seqc alloc_acquire
    (bindc (ctxc next_free_cluster) (\<lambda>i.
     bindc (ctxc fat_entry_count) (\<lambda>n.
     bindc (fat_find_free n i) (\<lambda>r.
     case r of
       Some i \<Rightarrow>
         bindc (fat_set_next_cluster (u32 i) END_OF_CLUSTERCHAIN) (\<lambda>_.
         seqc (upd_fctx (next_free_cluster_update (\<lambda>_. i)))
        (bindc (add_free_count (2 ^ 32 - 1)) (\<lambda>_.
         seqc alloc_release
        (ret (Inr (u32 i))))))
     | None \<Rightarrow>
         seqc alloc_release
        (ret (Inl EINVAL))))))"

definition fat_free_cluster :: "nat \<Rightarrow> (errno, 'd) fat_cmd" where
  "fat_free_cluster cluster =
     seqc alloc_acquire
    (bindc (fat_set_next_cluster cluster 0) (\<lambda>_.
     bindc (add_free_count 1) (\<lambda>_.
     seqc alloc_release
    (ret EOK))))"

text \<open>
  The loops over chains carry a bound on their steps. Each step of the following loop sets a
  non-zero entry of the table to zero or is the last but one, so the bound is never reached.
\<close>

fun fat_free_loop :: "nat \<Rightarrow> nat \<Rightarrow> (unit, 'd) fat_cmd" where
  "fat_free_loop 0 current_cluster = stop NoReturn"
| "fat_free_loop (Suc n) current_cluster =
     (if current_cluster < 0x0FFFFFF8 \<and> current_cluster \<noteq> 0 then
        bindc (fat_get_next_cluster current_cluster) (\<lambda>next_cluster.
        bindc (fat_free_cluster current_cluster) (\<lambda>_.
        fat_free_loop n next_cluster))
      else ret ())"

definition fat_free_all_following_clusters :: "nat \<Rightarrow> (errno, 'd) fat_cmd" where
  "fat_free_all_following_clusters cluster =
     bindc (ctxc fat) (\<lambda>f.
     seqc (fat_free_loop (length f + 2) cluster)
    (ret EOK))"

definition fat_read_cluster :: "nat \<Rightarrow> nat \<Rightarrow> nat \<Rightarrow> byte list \<Rightarrow> (errno \<times> byte list, 'd) fat_cmd" where
  "fat_read_cluster cluster alignement sz buffer =
     bindc (ctxc (\<lambda>c. c)) (\<lambda>c.
     let start = u64_add (u64_add (part_start c) (lba_to_bytes (cluster_to_lba c cluster))) alignement in
     if u64_add start sz > u64_add (part_start c) (part_size c) then ret (EINVAL, buffer)
     else device_read start sz buffer)"

definition fat_write_cluster :: "nat \<Rightarrow> nat \<Rightarrow> byte list \<Rightarrow> (errno, 'd) fat_cmd" where
  "fat_write_cluster cluster alignement buffer =
     bindc (ctxc (\<lambda>c. c)) (\<lambda>c.
     let start = u64_add (u64_add (part_start c) (lba_to_bytes (cluster_to_lba c cluster))) alignement in
     if u64_add start (length buffer) > u64_add (part_start c) (part_size c) then ret EINVAL
     else device_write start buffer)"

definition end_of_chain :: "nat \<Rightarrow> bool" where
  "end_of_chain cluster \<longleftrightarrow> cluster \<ge> 0xFFFFFF8 \<or> cluster = 0"

text \<open>
  The loop of \<^verbatim>\<open>fat_read_cluster_chain\<close>: \<open>pos\<close> is the position in the buffer, \<open>acc\<close> what is added to
  \<^verbatim>\<open>*size_read\<close>. Each step reads at least one byte or passes at least one byte of the alignment
  when clusters are not empty, which bounds the steps.
\<close>

fun read_chain_loop :: "nat \<Rightarrow> nat \<Rightarrow> nat \<Rightarrow> nat \<Rightarrow> nat \<Rightarrow> nat \<Rightarrow> nat \<Rightarrow> byte list \<Rightarrow>
    (errno \<times> nat \<times> byte list, 'd) fat_cmd" where
  "read_chain_loop 0 current_cluster alignement sz size_to_read pos acc buffer = stop NoReturn"
| "read_chain_loop (Suc n) current_cluster alignement sz size_to_read pos acc buffer =
     (if sz > 0 then
        if end_of_chain current_cluster then ret (EOK, acc, buffer)
        else
          bindc (ctxc cluster_size) (\<lambda>cs.
          bindc
            (if alignement < cs then
               let size_to_read = (if u64_add alignement sz > cs then u64_sub cs alignement else sz) in
               bindc (fat_read_cluster current_cluster alignement size_to_read (drop pos buffer)) (\<lambda>(e, b).
               seqc (assertc (e = EOK))
              (ret (size_to_read, 0, take pos buffer @ b)))
             else ret (size_to_read, u32 (u64_sub alignement cs), buffer))
            (\<lambda>(size_to_read, alignement, buffer).
          bindc (fat_get_next_cluster current_cluster) (\<lambda>next_cluster.
          read_chain_loop n next_cluster alignement (u64_sub sz size_to_read) size_to_read
            (pos + size_to_read) (u64_add acc size_to_read) buffer)))
      else ret (EOK, acc, buffer))"

definition fat_read_cluster_chain :: "nat \<Rightarrow> nat \<Rightarrow> nat \<Rightarrow> byte list \<Rightarrow> (errno \<times> nat \<times> byte list, 'd) fat_cmd" where
  "fat_read_cluster_chain current_cluster alignement sz buffer =
     read_chain_loop (Suc (u32 alignement + sz)) current_cluster (u32 alignement) sz 0 0 0 buffer"

text \<open>
  The loop of \<^verbatim>\<open>fat_write_cluster_chain\<close> ends with \<open>Inl\<close> on the return with \<^verbatim>\<open>EIO\<close>, and otherwise with
  the last cluster, its successor, the last \<^verbatim>\<open>size_to_write\<close> and the number of bytes written.
\<close>

fun write_chain_loop :: "nat \<Rightarrow> nat \<Rightarrow> nat \<Rightarrow> nat \<Rightarrow> nat \<Rightarrow> byte list \<Rightarrow> nat \<Rightarrow>
    (nat + nat \<times> nat \<times> nat \<times> nat, 'd) fat_cmd" where
  "write_chain_loop 0 current_cluster next_cluster next_alignement size_to_write buffer acc = stop NoReturn"
| "write_chain_loop (Suc n) current_cluster next_cluster next_alignement size_to_write buffer acc =
     (if length buffer > 0 \<or> next_alignement > 0 then
        bindc
          (if end_of_chain next_cluster then
             bindc fat_allocate_cluster (\<lambda>r. case r of
               Inl _ \<Rightarrow> ret None
             | Inr c \<Rightarrow> bindc (fat_set_next_cluster current_cluster c) (\<lambda>_. ret (Some c)))
           else ret (Some next_cluster))
          (\<lambda>r. case r of None \<Rightarrow> ret (Inl acc) | Some current_cluster \<Rightarrow>
        bindc (ctxc cluster_size) (\<lambda>cs.
        bindc
          (if next_alignement < cs then
             let size_to_write = (if u64_add next_alignement (length buffer) > cs
                                  then u64_sub cs next_alignement else length buffer) in
             bindc (if size_to_write \<noteq> 0
                    then fat_write_cluster current_cluster (u32 next_alignement) (take size_to_write buffer)
                    else ret EOK) (\<lambda>e.
             seqc (assertc (e = EOK))
            (ret (size_to_write, 0)))
           else ret (size_to_write, u64_sub next_alignement cs))
          (\<lambda>(size_to_write, next_alignement).
        bindc (fat_get_next_cluster current_cluster) (\<lambda>next_cluster.
        write_chain_loop n current_cluster next_cluster next_alignement size_to_write
          (drop size_to_write buffer) (u64_add acc size_to_write)))))
      else ret (Inr (current_cluster, next_cluster, size_to_write, acc)))"

definition fat_write_cluster_chain :: "nat \<Rightarrow> nat \<Rightarrow> byte list \<Rightarrow> chain_flags \<Rightarrow> (errno \<times> nat, 'd) fat_cmd" where
  "fat_write_cluster_chain current_cluster alignement buffer flags =
     bindc (write_chain_loop (Suc (u32 alignement + length buffer)) current_cluster current_cluster
              (u32 alignement) 0 buffer 0) (\<lambda>r. case r of
       Inl acc \<Rightarrow> ret (EIO, acc)
     | Inr (current_cluster, next_cluster, size_to_write, acc) \<Rightarrow>
         bindc (ctxc cluster_size) (\<lambda>cs.
         bindc (ctxc cluster_zero_buffer) (\<lambda>zeros.
         bindc
           (if flag_fwz flags then
              let fill_start = u32 size_to_write; fill_size_to_write = u64_sub cs fill_start in
              if fill_size_to_write \<le> length zeros
              then fat_write_cluster current_cluster fill_start (take fill_size_to_write zeros)
              else stop OutOfBounds
            else ret EOK) (\<lambda>e.
         seqc (assertc (e = EOK))
        (if \<not> flag_eoc flags \<or> end_of_chain next_cluster then ret (EOK, acc)
         else
           bindc (fat_free_all_following_clusters next_cluster) (\<lambda>_.
           bindc (fat_set_next_cluster current_cluster END_OF_CLUSTERCHAIN) (\<lambda>_.
           ret (EOK, acc))))))))"

subsection \<open>Names in directory entries\<close>

definition fat_entry_valid :: "byte list \<Rightarrow> bool" where
  "fat_entry_valid dir \<longleftrightarrow> dir ! 0 \<noteq> 0 \<and> dir ! 0 \<noteq> 0x05 \<and> dir ! 0 \<noteq> 0xE5"

definition fat_is_lfn :: "byte list \<Rightarrow> bool" where
  "fat_is_lfn dir \<longleftrightarrow> dir ! 11 = 0xF"

definition fat_set_entry_as_lfn :: "byte list \<Rightarrow> byte list" where
  "fat_set_entry_as_lfn dir = dir[11 := 0xF]"

definition fat_link_entry_to_lfn :: "byte list \<Rightarrow> byte list" where
  "fat_link_entry_to_lfn dir = dir[11 := or (dir ! 11) 0x20]"

text \<open>The offsets of the 13 characters of a long entry: \<^verbatim>\<open>name1\<close>, \<^verbatim>\<open>name2\<close>, \<^verbatim>\<open>name3\<close>.\<close>

definition lfn_offsets :: "nat list" where
  "lfn_offsets = [1, 3, 5, 7, 9, 14, 16, 18, 20, 22, 24, 28, 30]"

text \<open>\<open>poke off bs buffer\<close>: bytes written into an array, which must hold them.\<close>

definition poke :: "nat \<Rightarrow> byte list \<Rightarrow> byte list \<Rightarrow> (byte list, 'd) fat_cmd" where
  "poke off bs buffer = (if off + length bs \<le> length buffer then ret (put_bytes off bs buffer) else stop OutOfBounds)"

definition fat_parse_lfn :: "byte list \<Rightarrow> byte list" where
  "fat_parse_lfn lfn = map (\<lambda>o1. lfn ! o1) lfn_offsets"

text \<open>
  The unit that is stored for character \<open>i\<close>: a \<^verbatim>\<open>char\<close> extended to 16 bits, then the terminator, then
  \<^verbatim>\<open>0xffff\<close>.
\<close>

definition lfn_unit :: "byte list \<Rightarrow> nat \<Rightarrow> nat" where
  "lfn_unit name i =
     (if i < length name then (if unat (name ! i) \<ge> 128 then 0xff00 + unat (name ! i) else unat (name ! i))
      else if i = length name then 0 else 0xffff)"

definition fat_set_name_to_lfn :: "byte list \<Rightarrow> byte list \<Rightarrow> byte list" where
  "fat_set_name_to_lfn name lfn =
     fold (\<lambda>i e. putf (lfn_offsets ! i) 2 (lfn_unit name i) e) [0..<LFN_NAME_SIZE] lfn"

definition fat_get_lfn_check_sum :: "byte list \<Rightarrow> byte" where
  "fat_get_lfn_check_sum name =
     fold (\<lambda>c check_sum. (if odd (unat check_sum) then 0x80 else 0) + drop_bit 1 check_sum + c) name 0"

definition fat_is_need_lfn :: "byte list \<Rightarrow> bool \<Rightarrow> bool" where
  "fat_is_need_lfn name is_file \<longleftrightarrow>
     (if is_file then length name > 9 else length name > 11) \<or> (\<exists>c \<in> set name. c \<noteq> to_upper c)"

text \<open>The bytes that \<^verbatim>\<open>fat_parse_sfn\<close> writes, with the terminator.\<close>

definition fat_parse_sfn :: "byte list \<Rightarrow> byte list" where
  "fat_parse_sfn dir =
     takeWhile (\<lambda>c. c \<noteq> 0x20) (take 8 dir) @ (if \<not> is_directory dir then 0x2e # field 8 3 dir else []) @ [0]"

text \<open>
  Three bytes from a position of a string on: characters, the terminator, and what follows it
  in memory.
\<close>

definition string_bytes :: "(byte list \<Rightarrow> nat \<Rightarrow> byte) \<Rightarrow> byte list \<Rightarrow> nat \<Rightarrow> nat \<Rightarrow> byte list" where
  "string_bytes rest name i n =
     map (\<lambda>k. if k < length name then name ! k else if k = length name then 0 else rest name (k - length name - 1))
       [i..<i + n]"

definition sfn_bytes :: "(byte list \<Rightarrow> nat \<Rightarrow> byte) \<Rightarrow> byte list \<Rightarrow> bool \<Rightarrow> byte list" where
  "sfn_bytes rest name is_dir =
     (if is_dir then
        if length name > 11 then take 9 name @ [0x7e, 0x31]
        else name @ replicate (11 - length name) 0x20
      else
        let stem = takeWhile (\<lambda>c. c \<noteq> 0x2e) name;
            ext = string_bytes rest name (length stem + 1) 3
        in (if length stem > 8 then take 6 stem @ [0x7e, 0x31] else stem @ replicate (8 - length stem) 0x20) @ ext)"

definition fat_set_name_to_sfn :: "(byte list \<Rightarrow> nat \<Rightarrow> byte) \<Rightarrow> byte list \<Rightarrow> byte list \<Rightarrow> byte list" where
  "fat_set_name_to_sfn rest name dir = put_bytes 0 (map to_upper (sfn_bytes rest name (is_directory dir))) dir"

end
