(* ===== verification/Fat32_Dir.thy ===== *)
theory Fat32_Dir
  imports Fat32
begin

section \<open>Directories and files of the FAT32 file system\<close>

text \<open>
  The second half of \<^verbatim>\<open>fat32/source/core.c\<close>: reading directories through a cache of one cluster,
  lookup by name and by path, adding, removing and renaming entries, files, directories, the
  functions behind the interface of the virtual file system, and mounting.
\<close>

subsection \<open>Reading directories\<close>

definition fat_read_one_entry :: "nat \<Rightarrow> nat \<Rightarrow> byte list \<Rightarrow> (errno \<times> byte list, 'd) fat_cmd" where
  "fat_read_one_entry cluster entry_number dir =
     fat_read_cluster cluster (u32 (entry_number * ENTRY_SIZE)) ENTRY_SIZE dir"

text \<open>
  The variables of the caching system: the number of the cached cluster in its chain, plus one,
  and the cluster. Dividing by a number of entries per cluster of 0 is an exception of the
  processor, on which the kernel panics.
\<close>

record dir_cache =
  cache_id :: nat
  last_cluster_read :: nat

definition cache_empty :: dir_cache where
  "cache_empty = \<lparr>cache_id = 0, last_cluster_read = 0\<rparr>"

fun follow_chain :: "nat \<Rightarrow> nat \<Rightarrow> (nat option, 'd) fat_cmd" where
  "follow_chain 0 cluster = ret (Some cluster)"
| "follow_chain (Suc n) cluster =
     bindc (fat_get_next_cluster cluster) (\<lambda>cluster.
     if end_of_chain cluster then ret None else follow_chain n cluster)"

definition fat_read_entry_with_cache :: "nat \<Rightarrow> nat \<Rightarrow> dir_cache \<Rightarrow> (byte list option \<times> dir_cache, 'd) fat_cmd" where
  "fat_read_entry_with_cache cluster_base entry_number cache =
     bindc (ctxc entries_per_cluster) (\<lambda>epc.
     bindc (ctxc cluster_size) (\<lambda>cs.
     if epc = 0 then stop Panic
     else
       let cluster_count_from_base = u32 (entry_number div epc) in
       bindc
         (if cluster_count_from_base \<noteq> u32_sub (cache_id cache) 1 then
            let id = u32_sub (cache_id cache) 1;
                (cluster, cluster_index) =
                  (if id \<noteq> 0 \<and> cluster_count_from_base > id then (last_cluster_read cache, id) else (cluster_base, 0))
            in
            bindc (follow_chain (cluster_count_from_base - cluster_index) cluster) (\<lambda>r. case r of
              None \<Rightarrow> ret (False, cache\<lparr>cache_id := id\<rparr>)
            | Some cluster \<Rightarrow>
                bindc (getc cluster_buffer) (\<lambda>b.
                bindc (fat_read_cluster cluster 0 cs b) (\<lambda>(e, b).
                seqc (modc (cluster_buffer_update (\<lambda>_. b)))
               (ret (True, \<lparr>cache_id = cluster_count_from_base + 1, last_cluster_read = cluster\<rparr>)))))
          else ret (True, cache))
         (\<lambda>(found, cache).
       if \<not> found then ret (None, cache)
       else
         bindc (getc cluster_buffer) (\<lambda>b.
         let off = entry_number mod epc * ENTRY_SIZE in
         if off + ENTRY_SIZE \<le> length b then ret (Some (field off ENTRY_SIZE b), cache) else stop OutOfBounds))))"

text \<open>
  The loops over the entries of a directory carry a bound: more entries than the table could
  chain together can only be seen in a chain with a cycle, on which the code does not return.
\<close>

definition dir_fuel :: "fat_context \<Rightarrow> nat" where
  "dir_fuel c = Suc (entries_per_cluster c * Suc (length (fat c)))"

fun dir_size_loop :: "nat \<Rightarrow> nat \<Rightarrow> nat \<Rightarrow> nat \<Rightarrow> dir_cache \<Rightarrow> (nat, 'd) fat_cmd" where
  "dir_size_loop 0 cluster_base entry_index last_valid_index cache = stop NoReturn"
| "dir_size_loop (Suc n) cluster_base entry_index last_valid_index cache =
     bindc (fat_read_entry_with_cache cluster_base entry_index cache) (\<lambda>(dir, cache). case dir of
       None \<Rightarrow> ret last_valid_index
     | Some dir \<Rightarrow>
         let entry_index = u32 (entry_index + 1) in
         dir_size_loop n cluster_base entry_index
           (if fat_entry_valid dir then entry_index else last_valid_index) cache)"

definition fat_get_dir_size :: "byte list \<Rightarrow> (nat, 'd) fat_cmd" where
  "fat_get_dir_size dir =
     bindc (ctxc (\<lambda>c. c)) (\<lambda>c.
     bindc (dir_size_loop (dir_fuel c) (fat_get_cluster_entry c dir) 0 0 cache_empty) (\<lambda>last_valid_index.
     ret (last_valid_index * ENTRY_SIZE)))"

text \<open>The loop that assembles a long name from the entries at \<open>entry_index\<close> on.\<close>

fun read_lfn_parts :: "nat list \<Rightarrow> nat \<Rightarrow> nat \<Rightarrow> nat \<Rightarrow> byte list \<Rightarrow> dir_cache \<Rightarrow> (byte list \<times> dir_cache, 'd) fat_cmd" where
  "read_lfn_parts [] cluster entry_index order entry_name cache = ret (entry_name, cache)"
| "read_lfn_parts (y # ys) cluster entry_index order entry_name cache =
     bindc (fat_read_entry_with_cache cluster (u32 (entry_index + y)) cache) (\<lambda>(lfn, cache). case lfn of
       None \<Rightarrow> stop NullDeref
     | Some lfn \<Rightarrow>
         bindc (poke (LFN_NAME_SIZE * (order - 1 - y)) (fat_parse_lfn lfn) entry_name) (\<lambda>entry_name.
         read_lfn_parts ys cluster entry_index order entry_name cache))"

definition lfn_order :: "byte list \<Rightarrow> nat" where
  "lfn_order lfn = unat (and (lfn ! 0) (not 0x40))"

definition read_lfn :: "nat \<Rightarrow> nat \<Rightarrow> byte list \<Rightarrow> byte list \<Rightarrow> dir_cache \<Rightarrow> (byte list \<times> dir_cache, 'd) fat_cmd" where
  "read_lfn cluster entry_index lfn entry_name cache =
     (let order = lfn_order lfn in
      bindc (poke (LFN_NAME_SIZE * order) [0] entry_name) (\<lambda>entry_name.
      read_lfn_parts [0..<order] cluster entry_index order entry_name cache))"

text \<open>
  \<open>name_matches name buffer\<close> is \<^verbatim>\<open>!strcmp(name, buffer)\<close>, or \<open>None\<close> when the comparison runs over the
  end of the array.
\<close>

fun name_matches :: "byte list \<Rightarrow> byte list \<Rightarrow> bool option" where
  "name_matches name [] = None"
| "name_matches [] (b # buffer) = Some (b = 0)"
| "name_matches (c # name) (b # buffer) = (if b = c then name_matches name buffer else Some False)"

definition matchesc :: "byte list \<Rightarrow> byte list \<Rightarrow> (bool, 'd) fat_cmd" where
  "matchesc name buffer = (case name_matches name buffer of None \<Rightarrow> stop OutOfBounds | Some b \<Rightarrow> ret b)"

text \<open>
  The loop of \<^verbatim>\<open>fat_find_entry_info\<close> and \<^verbatim>\<open>fat_find_entry\<close>, which differ in the size of the array
  for the name and in what they return: here the entry, its position on the disk, its
  index, and the index of its first long entry or \<open>2 ^ 32 - 1\<close>.
\<close>

record found_entry =
  fe_entry :: "byte list"
  sfn_position :: nat
  sfn_entry_index :: nat
  lfn_first_entry_index :: nat

fun find_entry_loop :: "nat \<Rightarrow> nat \<Rightarrow> byte list \<Rightarrow> nat \<Rightarrow> nat \<Rightarrow> bool \<Rightarrow> byte list \<Rightarrow> dir_cache \<Rightarrow>
    (found_entry option, 'd) fat_cmd" where
  "find_entry_loop 0 cluster name entry_index last_entry_index_lfn is_last_entry_lfn entry_name cache = stop NoReturn"
| "find_entry_loop (Suc n) cluster name entry_index last_entry_index_lfn is_last_entry_lfn entry_name cache =
     bindc (fat_read_entry_with_cache cluster entry_index cache) (\<lambda>(dir, cache). case dir of
       None \<Rightarrow> ret None
     | Some dir \<Rightarrow>
         if \<not> fat_entry_valid dir then
           find_entry_loop n cluster name (u32 (entry_index + 1)) last_entry_index_lfn is_last_entry_lfn entry_name cache
         else if fat_is_lfn dir then
           bindc (read_lfn cluster entry_index dir entry_name cache) (\<lambda>(entry_name, cache).
           find_entry_loop n cluster name (u32 (entry_index + lfn_order dir)) entry_index True entry_name cache)
         else
           bindc (if \<not> is_last_entry_lfn then poke 0 (fat_parse_sfn dir) entry_name else ret entry_name) (\<lambda>entry_name.
           let last_lfn = (if \<not> is_last_entry_lfn then 2 ^ 32 - 1 else last_entry_index_lfn) in
           bindc (matchesc name entry_name) (\<lambda>eq.
           if eq then
             bindc (ctxc (\<lambda>c. c)) (\<lambda>c.
             ret (Some \<lparr>fe_entry = dir,
               sfn_position = u64_add (lba_to_bytes (cluster_to_lba c (last_cluster_read cache)))
                 (entry_index mod entries_per_cluster c * ENTRY_SIZE),
               sfn_entry_index = entry_index, lfn_first_entry_index = last_lfn\<rparr>))
           else find_entry_loop n cluster name (u32 (entry_index + 1)) last_lfn False entry_name cache)))"

definition find_entry :: "nat \<Rightarrow> nat \<Rightarrow> byte list \<Rightarrow> (found_entry option, 'd) fat_cmd" where
  "find_entry array_size current_cluster name =
     bindc (ctxc dir_fuel) (\<lambda>fuel.
     bindc (fresh_bytes array_size) (\<lambda>entry_name.
     find_entry_loop fuel current_cluster name 0 0 False entry_name cache_empty))"

definition fat_find_entry_info :: "nat \<Rightarrow> byte list \<Rightarrow> (errno + found_entry, 'd) fat_cmd" where
  "fat_find_entry_info current_cluster name =
     bindc (find_entry 256 current_cluster name) (\<lambda>r. case r of
       None \<Rightarrow> ret (Inl ENOENT)
     | Some f \<Rightarrow> ret (Inr f))"

definition fat_find_entry :: "nat \<Rightarrow> byte list \<Rightarrow> (byte list option, 'd) fat_cmd" where
  "fat_find_entry current_cluster name =
     bindc (find_entry 257 current_cluster name) (\<lambda>r. ret (map_option fe_entry r))"

subsection \<open>Paths\<close>

text \<open>
  The common loop over the components of a path: the entry of the last directory and the last
  component. The slash that the code replaces by a terminator is put back before the loop
  goes on or returns.
\<close>

function fat_find_last_directory :: "byte list \<Rightarrow> byte list \<Rightarrow> ((byte list \<times> byte list) option, 'd) fat_cmd" where
  "fat_find_last_directory dir path =
     (if 0x2f \<in> set path then
        bindc (ctxc (\<lambda>c. fat_get_cluster_entry c dir)) (\<lambda>current_cluster.
        bindc (fat_find_entry current_cluster (takeWhile (\<lambda>c. c \<noteq> 0x2f) path)) (\<lambda>r. case r of
          None \<Rightarrow> ret None
        | Some dir \<Rightarrow>
            if \<not> is_directory dir then ret None
            else fat_find_last_directory dir (tl (dropWhile (\<lambda>c. c \<noteq> 0x2f) path))))
      else ret (Some (dir, path)))"
  by pat_completeness auto
termination
proof (relation "measure (\<lambda>(dir, path). length path)")
  fix path :: "byte list" assume "0x2f \<in> set path"
  then have "dropWhile (\<lambda>c. c \<noteq> 0x2f) path \<noteq> []" by (auto simp: dropWhile_eq_Nil_conv)
  then have "length (tl (dropWhile (\<lambda>c. c \<noteq> 0x2f) path)) < length (dropWhile (\<lambda>c. c \<noteq> 0x2f) path)" by simp
  also have "\<dots> \<le> length path" by (rule length_dropWhile_le)
  finally show "((x, tl (dropWhile (\<lambda>c. c \<noteq> 0x2f) path)), (dir, path)) \<in> measure (\<lambda>(dir, path). length path)"
    for x dir :: "byte list" by simp
qed simp

declare fat_find_last_directory.simps [simp del]

definition fat_find_entry_info_with_path :: "byte list \<Rightarrow> byte list \<Rightarrow> (errno + found_entry, 'd) fat_cmd" where
  "fat_find_entry_info_with_path dir path =
     bindc (fat_find_last_directory dir path) (\<lambda>r. case r of
       None \<Rightarrow> ret (Inl ENOENT)
     | Some (dir, entry_name) \<Rightarrow>
         bindc (ctxc (\<lambda>c. fat_get_cluster_entry c dir)) (\<lambda>current_cluster.
         fat_find_entry_info current_cluster entry_name))"

definition fat_find_entry_with_path :: "byte list \<Rightarrow> byte list \<Rightarrow> (byte list option, 'd) fat_cmd" where
  "fat_find_entry_with_path dir path =
     bindc (fat_find_last_directory dir path) (\<lambda>r. case r of
       None \<Rightarrow> ret None
     | Some (dir, entry_name) \<Rightarrow>
         bindc (ctxc (\<lambda>c. fat_get_cluster_entry c dir)) (\<lambda>current_cluster.
         fat_find_entry current_cluster entry_name))"

definition from_root :: "(byte list \<Rightarrow> ('a, 'd) fat_cmd) \<Rightarrow> ('a, 'd) fat_cmd" where
  "from_root m = bindc (ctxc root_dir) m"

definition fat_find_entry_with_path_from_root :: "byte list \<Rightarrow> (byte list option, 'd) fat_cmd" where
  "fat_find_entry_with_path_from_root path = from_root (\<lambda>dir. fat_find_entry_with_path dir path)"

definition fat_find_entry_info_with_path_from_root :: "byte list \<Rightarrow> (errno + found_entry, 'd) fat_cmd" where
  "fat_find_entry_info_with_path_from_root path = from_root (\<lambda>dir. fat_find_entry_info_with_path dir path)"

text \<open>A cluster buffer of its own for the time of a command.\<close>

definition malloc_cluster_buffer :: "(unit, 'd) fat_cmd" where
  "malloc_cluster_buffer =
     bindc (ctxc cluster_size) (\<lambda>cs.
     bindc (fresh_bytes cs) (\<lambda>b.
     modc (cluster_buffer_update (\<lambda>_. b))))"

definition with_cluster_buffer :: "('a, 'd) fat_cmd \<Rightarrow> ('a, 'd) fat_cmd" where
  "with_cluster_buffer m =
     bindc (getc cluster_buffer) (\<lambda>outer.
     seqc malloc_cluster_buffer
    (bindc m (\<lambda>r.
     seqc (modc (cluster_buffer_update (\<lambda>_. outer)))
    (ret r))))"

definition fat_update_entry_with_path :: "byte list \<Rightarrow> byte list \<Rightarrow> byte list \<Rightarrow> (errno, 'd) fat_cmd" where
  "fat_update_entry_with_path dir path entry =
     bindc (with_cluster_buffer (fat_find_entry_info_with_path dir path)) (\<lambda>r. case r of
       Inl e \<Rightarrow> ret e
     | Inr f \<Rightarrow> write_partition (sfn_position f) entry)"

definition fat_update_entry_with_path_from_root :: "byte list \<Rightarrow> byte list \<Rightarrow> (errno, 'd) fat_cmd" where
  "fat_update_entry_with_path_from_root path entry = from_root (\<lambda>dir. fat_update_entry_with_path dir path entry)"

end
