(* ===== verification/Fat32_File.thy ===== *)
theory Fat32_File
  imports Fat32_Dir
begin

section \<open>Changing a FAT32 file system\<close>

text \<open>
  The operations of \<^verbatim>\<open>fat32/source/core.c\<close> that change directories and files, the functions that
  the module registers with the virtual file system, and \<^verbatim>\<open>fat_mount\<close>. The call of the virtual file
  system at the end of a mount is a parameter.
\<close>

subsection \<open>Entries\<close>

definition lfn_count :: "byte list \<Rightarrow> bool \<Rightarrow> nat" where
  "lfn_count entry_name use_lfn =
     (if use_lfn then (length entry_name + (LFN_NAME_SIZE - 1)) div LFN_NAME_SIZE mod 256 else 0)"

text \<open>The long entry with index \<open>i\<close> of \<open>n\<close>, written over the bytes \<open>e\<close>.\<close>

definition make_lfn :: "byte list \<Rightarrow> nat \<Rightarrow> byte \<Rightarrow> nat \<Rightarrow> byte list \<Rightarrow> byte list" where
  "make_lfn entry_name n checksum i e =
     (let e = fat_set_entry_as_lfn e;
          e = fat_set_name_to_lfn (drop (LFN_NAME_SIZE * (n - 1 - i)) entry_name) e;
          e = e[0 := of_nat (or (n - i) (if i = 0 then LAST_LONG_ENTRY else 0))];
          e = e[12 := 0];
          e = putf 26 2 0 e
      in e[13 := checksum])"

definition fat_add_entry_with_path :: "byte list \<Rightarrow> byte list \<Rightarrow> byte list \<Rightarrow> bool \<Rightarrow> (errno, 'd) fat_cmd" where
  "fat_add_entry_with_path dir path entry use_lfn =
     bindc (fat_find_last_directory dir path) (\<lambda>r. case r of
       None \<Rightarrow> ret ENOENT
     | Some (dir, entry_name) \<Rightarrow>
         bindc (ctxc (\<lambda>c. fat_get_cluster_entry c dir)) (\<lambda>base_cluster.
         bindc (fat_find_entry base_cluster entry_name) (\<lambda>r.
         if r \<noteq> None then ret EEXIST
         else
           bindc (fat_get_dir_size dir) (\<lambda>dir_size.
           bindc (getc after_nul) (\<lambda>rest.
           bindc (fresh_bytes ENTRY_SIZE) (\<lambda>blank.
           let n = lfn_count entry_name use_lfn;
               sfn = fat_set_name_to_sfn rest entry_name (fat_link_entry_to_lfn entry);
               checksum = fat_get_lfn_check_sum (take 11 sfn);
               entry_buffer = concat (map (\<lambda>i. make_lfn entry_name n checksum i blank) [0..<n]) @ sfn
           in
           bindc (fat_write_cluster_chain base_cluster dir_size entry_buffer \<lparr>flag_eoc = True, flag_fwz = False\<rparr>) (\<lambda>_.
           ret EOK)))))))"

definition fat_add_entry_with_path_from_root :: "byte list \<Rightarrow> byte list \<Rightarrow> bool \<Rightarrow> (errno, 'd) fat_cmd" where
  "fat_add_entry_with_path_from_root path entry use_lfn =
     from_root (\<lambda>dir. fat_add_entry_with_path dir path entry use_lfn)"

definition fat_remove_entry_with_path :: "byte list \<Rightarrow> byte list \<Rightarrow> (errno, 'd) fat_cmd" where
  "fat_remove_entry_with_path dir path =
     bindc (fat_find_last_directory dir path) (\<lambda>r. case r of
       None \<Rightarrow> ret ENOENT
     | Some (dir, _) \<Rightarrow>
         bindc (ctxc (\<lambda>c. fat_get_cluster_entry c dir)) (\<lambda>base_cluster.
         bindc (fat_find_entry_info_with_path dir path) (\<lambda>r. case r of
           Inl err \<Rightarrow> ret err
         | Inr f \<Rightarrow>
             let first_index_to_remove =
                   (if lfn_first_entry_index f \<noteq> 2 ^ 32 - 1 then lfn_first_entry_index f else sfn_entry_index f);
                 first_index_to_move = u32 (sfn_entry_index f + 1);
                 alignement_source = u32 (first_index_to_move * ENTRY_SIZE);
                 alignement_destination = u32 (first_index_to_remove * ENTRY_SIZE)
             in
             bindc (fat_get_dir_size dir) (\<lambda>dir_size.
             let size_to_copy = u64_sub dir_size (u64_sub alignement_source alignement_destination) in
             bindc (fresh_bytes size_to_copy) (\<lambda>buffer_to_copy.
             bindc (fat_read_cluster_chain base_cluster alignement_source size_to_copy buffer_to_copy)
               (\<lambda>(e, _, buffer_to_copy).
             seqc (assertc (e = EOK))
            (bindc (fat_write_cluster_chain base_cluster alignement_destination buffer_to_copy
                      \<lparr>flag_eoc = True, flag_fwz = True\<rparr>) (\<lambda>(e, _).
             seqc (assertc (e = EOK))
            (ret EOK)))))))))"

definition fat_remove_entry_with_path_from_root :: "byte list \<Rightarrow> (errno, 'd) fat_cmd" where
  "fat_remove_entry_with_path_from_root path = from_root (\<lambda>dir. fat_remove_entry_with_path dir path)"

definition fat_clear_entry_data :: "byte list \<Rightarrow> (errno, 'd) fat_cmd" where
  "fat_clear_entry_data dir =
     bindc (fat_free_all_following_clusters (fat_get_cluster_entry_without_root_check dir)) (\<lambda>_. ret EOK)"

definition fat_clear_entry_data_with_path :: "byte list \<Rightarrow> byte list \<Rightarrow> (errno, 'd) fat_cmd" where
  "fat_clear_entry_data_with_path dir path =
     bindc (fat_find_entry_with_path dir path) (\<lambda>r. case r of
       None \<Rightarrow> ret ENOENT
     | Some dir \<Rightarrow> fat_clear_entry_data dir)"

definition fat_clear_entry_data_with_path_from_root :: "byte list \<Rightarrow> (errno, 'd) fat_cmd" where
  "fat_clear_entry_data_with_path_from_root path = from_root (\<lambda>dir. fat_clear_entry_data_with_path dir path)"

text \<open>
  The name is copied before the directory is compared with \<^verbatim>\<open>NULL\<close>, through a pointer that is not set
  in that case.
\<close>

definition fat_remove_and_clear_entry_with_path :: "byte list \<Rightarrow> byte list \<Rightarrow> (errno, 'd) fat_cmd" where
  "fat_remove_and_clear_entry_with_path dir path =
     bindc (fat_find_last_directory dir path) (\<lambda>r. case r of
       None \<Rightarrow> stop OutOfBounds
     | Some (dir_parent, entry_name) \<Rightarrow>
         bindc (fat_find_entry_with_path dir_parent entry_name) (\<lambda>r. case r of
           None \<Rightarrow> ret ENOENT
         | Some entry \<Rightarrow>
             bindc (fat_remove_entry_with_path dir_parent entry_name) (\<lambda>e.
             seqc (assertc (e = EOK))
            (bindc (fat_clear_entry_data entry) (\<lambda>_.
             ret EOK)))))"

definition fat_remove_and_clear_entry_with_path_from_root :: "byte list \<Rightarrow> (errno, 'd) fat_cmd" where
  "fat_remove_and_clear_entry_with_path_from_root path =
     from_root (\<lambda>dir. fat_remove_and_clear_entry_with_path dir path)"

text \<open>\<^verbatim>\<open>strrchr(path, '/')\<close>: the last slash and what follows it.\<close>

fun last_slash :: "byte list \<Rightarrow> byte list option" where
  "last_slash [] = None"
| "last_slash (c # p) = (case last_slash p of Some q \<Rightarrow> Some q | None \<Rightarrow> if c = 0x2f then Some (c # p) else None)"

definition fat_rename_entry_with_path :: "byte list \<Rightarrow> byte list \<Rightarrow> byte list \<Rightarrow> byte list \<Rightarrow> (errno, 'd) fat_cmd" where
  "fat_rename_entry_with_path old_dir new_dir old_path new_path =
     (if new_path = [] \<or> old_path = [] then ret ENOENT
      else
        bindc (fat_find_entry_with_path old_dir old_path) (\<lambda>r. case r of
          None \<Rightarrow> stop NullDeref
        | Some entry \<Rightarrow>
            bindc (ctxc (\<lambda>c. c)) (\<lambda>c.
            if fat_get_cluster_entry c entry = root_cluster_number (bpb c) then ret EACCES
            else case last_slash new_path of
              None \<Rightarrow> stop NullDeref
            | Some new_entry_name \<Rightarrow>
                bindc (fat_add_entry_with_path new_dir new_path entry
                        (fat_is_need_lfn new_entry_name (\<not> is_directory entry))) (\<lambda>err.
                if err \<noteq> EOK then ret err
                else
                  bindc (fat_remove_entry_with_path old_dir old_path) (\<lambda>err.
                  if err \<noteq> EOK then ret err
                  else if is_directory entry then
                    bindc (fat_find_last_directory new_dir new_path) (\<lambda>r. case r of
                      None \<Rightarrow> stop NullDeref
                    | Some (parent_dir, _) \<Rightarrow>
                        bindc (ctxc (\<lambda>c. fat_get_cluster_entry c parent_dir)) (\<lambda>cluster_parent.
                        bindc (getc after_nul) (\<lambda>rest.
                        bindc (fat_update_entry_with_path entry [0x2e, 0x2e]
                                (fat_set_cluster_entry cluster_parent (fat_set_name_to_sfn rest [0x2e, 0x2e] entry))) (\<lambda>e.
                        ret (if e \<noteq> EOK then EIO else EOK)))))
                  else ret EOK)))))"

definition fat_rename_entry_with_path_from_root :: "byte list \<Rightarrow> byte list \<Rightarrow> (errno, 'd) fat_cmd" where
  "fat_rename_entry_with_path_from_root old_path new_path =
     from_root (\<lambda>dir. fat_rename_entry_with_path dir dir old_path new_path)"

subsection \<open>Files\<close>

record fat_file =
  ff_entry :: "byte list"
  ff_path :: "byte list"

definition fat_update_file_entry :: "fat_file \<Rightarrow> (errno, 'd) fat_cmd" where
  "fat_update_file_entry file = fat_update_entry_with_path_from_root (ff_path file) (ff_entry file)"

definition stamped_entry :: "clock \<Rightarrow> byte list" where
  "stamped_entry t =
     putf 24 2 (fat_get_current_date t) (putf 22 2 (fat_get_current_time t)
    (putf 18 2 (fat_get_current_date t) (putf 16 2 (fat_get_current_date t)
    (putf 14 2 (fat_get_current_time t) (replicate 32 0)))))"

definition fat_create_file :: "byte list \<Rightarrow> (errno, 'd) fat_cmd" where
  "fat_create_file path =
     (if path = [] then ret ENOENT
      else
        bindc (getc now) (\<lambda>t.
        let file_name = (case last_slash path of None \<Rightarrow> path | Some p \<Rightarrow> p) in
        fat_add_entry_with_path_from_root path (stamped_entry t) (fat_is_need_lfn file_name True)))"

definition fat_remove_file :: "byte list \<Rightarrow> (errno, 'd) fat_cmd" where
  "fat_remove_file path =
     seqc malloc_cluster_buffer
    (bindc (fat_find_entry_with_path_from_root path) (\<lambda>r. case r of
       None \<Rightarrow> ret ENOENT
     | Some dir \<Rightarrow>
         if \<not> is_directory dir then fat_remove_and_clear_entry_with_path_from_root path
         else ret EISDIR))"

definition fat_open_file :: "byte list \<Rightarrow> bool \<Rightarrow> (errno + fat_file, 'd) fat_cmd" where
  "fat_open_file path o_creat =
     seqc malloc_cluster_buffer
    (bindc (fat_find_entry_with_path_from_root path) (\<lambda>r.
     bindc
       (case r of
          Some e \<Rightarrow> ret (Inr e)
        | None \<Rightarrow>
            if o_creat then
              bindc (fat_create_file path) (\<lambda>err.
              if err \<noteq> EOK then ret (Inl err)
              else
                bindc (fat_find_entry_with_path_from_root path) (\<lambda>r. case r of
                  None \<Rightarrow> stop AssertFail
                | Some e \<Rightarrow> ret (Inr e)))
            else ret (Inl ENOENT))
       (\<lambda>r. case r of
          Inl err \<Rightarrow> ret (Inl err)
        | Inr file_entry \<Rightarrow>
            if is_directory file_entry then ret (Inl ENOENT)
            else
              bindc (getc now) (\<lambda>t.
              let current_date = fat_get_current_date t;
                  file = \<lparr>ff_entry = file_entry, ff_path = path\<rparr> in
              if last_access_date file_entry \<noteq> current_date then
                let file = file\<lparr>ff_entry := putf 18 2 current_date file_entry\<rparr> in
                bindc (fat_update_file_entry file) (\<lambda>_. ret (Inr file))
              else ret (Inr file)))))"

definition fat_file_read :: "fat_file \<Rightarrow> nat \<Rightarrow> nat \<Rightarrow> byte list \<Rightarrow> (errno \<times> nat \<times> byte list, 'd) fat_cmd" where
  "fat_file_read file start sz buffer =
     (let base_cluster = fat_get_cluster_file (ff_entry file) in
      bindc (if base_cluster \<noteq> 0 then fat_read_cluster_chain base_cluster start sz buffer
             else ret (EOK, 0, buffer)) (\<lambda>(err, size_read_tmp, buffer).
      ret (err,
        if u64_add size_read_tmp start > entry_size (ff_entry file)
        then u64_sub (entry_size (ff_entry file)) start else size_read_tmp,
        buffer)))"

text \<open>
  \<^verbatim>\<open>fat_file_write\<close> returns the error, what it stores in \<^verbatim>\<open>*size_write\<close> (nothing when it returns early) and the
  file with its changed entry.
\<close>

definition fat_file_write :: "fat_file \<Rightarrow> nat \<Rightarrow> byte list \<Rightarrow> bool \<Rightarrow> (errno \<times> nat option \<times> fat_file, 'd) fat_cmd" where
  "fat_file_write file start buffer is_end_of_file =
     (if length buffer = 0 then ret (EOK, None, file)
      else
        let base_cluster = fat_get_cluster_file (ff_entry file) in
        bindc (if base_cluster = 0 then fat_allocate_cluster else ret (Inr base_cluster)) (\<lambda>r. case r of
          Inl _ \<Rightarrow> ret (EIO, None, file)
        | Inr c \<Rightarrow>
            let file = (if base_cluster = 0 then file\<lparr>ff_entry := fat_set_cluster_entry c (ff_entry file)\<rparr> else file) in
            bindc (fat_write_cluster_chain c start buffer \<lparr>flag_eoc = is_end_of_file, flag_fwz = False\<rparr>)
              (\<lambda>(err, size_write).
            bindc (getc now) (\<lambda>t.
            let e = ff_entry file;
                e = (if is_end_of_file \<or> u64_add start size_write > entry_size e
                     then putf 28 4 (u64_add start size_write) e else e);
                e = putf 24 2 (fat_get_current_date t) (putf 22 2 (fat_get_current_time t) e);
                file = file\<lparr>ff_entry := e\<rparr> in
            bindc (fat_update_file_entry file) (\<lambda>_.
            ret (err, Some size_write, file))))))"

subsection \<open>Directories\<close>

definition fat_create_dir :: "byte list \<Rightarrow> (errno, 'd) fat_cmd" where
  "fat_create_dir path =
     (if path = [] then ret ENOENT
      else
        bindc (getc now) (\<lambda>t.
        let dir_name = (case last_slash path of None \<Rightarrow> path | Some p \<Rightarrow> p);
            dir_entry = putf 11 1 16 (stamped_entry t) in
        bindc fat_allocate_cluster (\<lambda>r. case r of
          Inl _ \<Rightarrow> ret ENOMEM
        | Inr base_cluster \<Rightarrow>
            bindc (ctxc cluster_size) (\<lambda>cs.
            bindc (ctxc cluster_zero_buffer) (\<lambda>zeros.
            bindc (fat_write_cluster base_cluster 0 (take cs zeros)) (\<lambda>e.
            seqc (assertc (e = EOK))
           (let dir_entry = fat_set_cluster_entry base_cluster dir_entry in
            seqc malloc_cluster_buffer
           (bindc (fat_add_entry_with_path_from_root path dir_entry (fat_is_need_lfn dir_name True)) (\<lambda>err.
            if err \<noteq> EOK then
              bindc (fat_free_cluster base_cluster) (\<lambda>_. ret err)
            else
              let special_entry = fat_set_cluster_entry base_cluster dir_entry in
              bindc (fat_add_entry_with_path dir_entry [0x2e] special_entry False) (\<lambda>e.
              seqc (assertc (e = EOK))
             (bindc (from_root (\<lambda>root. fat_find_last_directory root path)) (\<lambda>r. case r of
                None \<Rightarrow> stop NullDeref
              | Some (parent_dir, _) \<Rightarrow>
                  bindc (ctxc (\<lambda>c. c)) (\<lambda>c.
                  let cluster_parent = fat_get_cluster_entry c parent_dir;
                      cluster_parent = (if cluster_parent = root_cluster_number (bpb c) then 0 else cluster_parent);
                      special_entry = fat_set_cluster_entry cluster_parent special_entry in
                  bindc (fat_add_entry_with_path dir_entry [0x2e, 0x2e] special_entry False) (\<lambda>e.
                  seqc (assertc (e = EOK))
                 (ret EOK)))))))))))))))"

definition fat_remove_dir :: "byte list \<Rightarrow> (errno, 'd) fat_cmd" where
  "fat_remove_dir path =
     seqc malloc_cluster_buffer
    (bindc (fat_find_entry_with_path_from_root path) (\<lambda>r. case r of
       None \<Rightarrow> stop NullDeref
     | Some dir \<Rightarrow>
         if is_directory dir then
           bindc (ctxc (\<lambda>c. c)) (\<lambda>c.
           if fat_get_cluster_entry c dir = root_cluster_number (bpb c) then ret EACCES
           else
             bindc (fat_get_dir_size dir) (\<lambda>dir_size.
             if dir_size > ENTRY_SIZE * DIR_MINIMUM_ENTRIES * ENTRY_SIZE then ret ENOTEMPTY
             else fat_remove_and_clear_entry_with_path_from_root path))
         else ret ENOTDIR))"

definition fat_open_dir :: "byte list \<Rightarrow> (errno + fat_file, 'd) fat_cmd" where
  "fat_open_dir path =
     seqc malloc_cluster_buffer
    (bindc (if path = [] then bindc (ctxc root_dir) (\<lambda>r. ret (Some r))
            else fat_find_entry_with_path_from_root path) (\<lambda>r. case r of
       None \<Rightarrow> ret (Inl ENOENT)
     | Some dir_entry \<Rightarrow>
         if \<not> is_directory dir_entry then ret (Inl ENOENT)
         else ret (Inr \<lparr>ff_entry = dir_entry, ff_path = path\<rparr>)))"

text \<open>Directory entries as user programs see them.\<close>

record dirent =
  d_ino :: nat
  d_off :: nat
  d_type :: nat
  d_name :: "byte list"

definition DT_DIR :: nat where "DT_DIR = 4"
definition DT_REG :: nat where "DT_REG = 8"
definition SIZEOF_DIRENT :: nat where "SIZEOF_DIRENT = 1048"

fun dirents_loop :: "nat \<Rightarrow> nat \<Rightarrow> nat \<Rightarrow> nat \<Rightarrow> bool \<Rightarrow> byte list \<Rightarrow> dirent list \<Rightarrow> dir_cache \<Rightarrow>
    (dirent list \<times> nat, 'd) fat_cmd" where
  "dirents_loop 0 cluster_base max_entry_count entry_index is_last_entry_lfn name ds cache = stop NoReturn"
| "dirents_loop (Suc n) cluster_base max_entry_count entry_index is_last_entry_lfn name ds cache =
     bindc (fat_read_entry_with_cache cluster_base entry_index cache) (\<lambda>(dir, cache). case dir of
       None \<Rightarrow> ret (ds, entry_index)
     | Some dir \<Rightarrow>
         if \<not> length ds < max_entry_count then ret (ds, entry_index)
         else if \<not> fat_entry_valid dir then
           dirents_loop n cluster_base max_entry_count (u32 (entry_index + 1)) is_last_entry_lfn name ds cache
         else if fat_is_lfn dir then
           bindc (read_lfn cluster_base entry_index dir name cache) (\<lambda>(name, cache).
           dirents_loop n cluster_base max_entry_count (u32 (entry_index + lfn_order dir)) True name ds cache)
         else
           bindc (if \<not> is_last_entry_lfn then poke 0 (fat_parse_sfn dir) name else ret name) (\<lambda>name.
           bindc (ctxc (\<lambda>c. fat_get_cluster_entry c dir)) (\<lambda>cluster.
           bindc (fresh_bytes 1024) (\<lambda>next_name.
           dirents_loop n cluster_base max_entry_count (u32 (entry_index + 1)) False next_name
             (ds @ [\<lparr>d_ino = cluster, d_off = entry_index,
                     d_type = (if is_directory dir then DT_DIR else DT_REG), d_name = name\<rparr>]) cache))))"

record kernel_dir =
  kd_seek_position :: nat
  kd_internal :: fat_file

definition fat_interface_dir_get_directory_entries :: "nat \<Rightarrow> kernel_dir \<Rightarrow> (dirent list \<times> nat \<times> kernel_dir, 'd) fat_cmd" where
  "fat_interface_dir_get_directory_entries max_size dir =
     bindc (ctxc (\<lambda>c. c)) (\<lambda>c.
     bindc (fresh_bytes 1024) (\<lambda>name.
     bindc (with_cluster_buffer
       (dirents_loop (dir_fuel c) (fat_get_cluster_entry c (ff_entry (kd_internal dir))) (u32 (max_size div SIZEOF_DIRENT))
         (u32 (kd_seek_position dir)) False name [] cache_empty)) (\<lambda>(ds, entry_index).
     ret (ds, length ds * SIZEOF_DIRENT, dir\<lparr>kd_seek_position := entry_index\<rparr>))))"

definition fat_interface_dir_create_at :: "kernel_dir \<Rightarrow> byte list \<Rightarrow> errno" where
  "fat_interface_dir_create_at dir path = ENOSYS"

definition fat_interface_dir_unlink_at :: "kernel_dir \<Rightarrow> byte list \<Rightarrow> errno" where
  "fat_interface_dir_unlink_at dir path = ENOSYS"

definition fat_rename :: "byte list \<Rightarrow> byte list \<Rightarrow> (errno, 'd) fat_cmd" where
  "fat_rename old_path new_path =
     seqc malloc_cluster_buffer
    (fat_rename_entry_with_path_from_root old_path new_path)"

subsection \<open>The interface of the virtual file system\<close>

text \<open>The last character of an empty path is read in front of the string.\<close>

definition fat_interface_convert_path :: "byte list \<Rightarrow> (byte list, 'd) fat_cmd" where
  "fat_interface_convert_path str =
     (if str = [] then stop OutOfBounds
      else
        let str = (if last str = 0x2f then butlast str else str)
        in ret (if str \<noteq> [] \<and> hd str = 0x2f then tl str else str))"

record kernel_file =
  kf_seek_position :: nat
  file_size_initial :: nat
  kf_internal :: fat_file

record file_stat =
  st_mode :: nat
  st_size :: nat
  st_blocks :: nat
  st_blksize :: nat
  st_atime :: int
  st_mtime :: int
  st_ctime :: int

definition S_IFDIR :: nat where "S_IFDIR = 0x04000"
definition S_IFREG :: nat where "S_IFREG = 0x08000"

definition zero_stat :: file_stat where
  "zero_stat = \<lparr>st_mode = 0, st_size = 0, st_blocks = 0, st_blksize = 0, st_atime = 0, st_mtime = 0, st_ctime = 0\<rparr>"

definition fat_interface_dir_stat :: "kernel_dir \<Rightarrow> file_stat" where
  "fat_interface_dir_stat dir = zero_stat\<lparr>st_mode := S_IFDIR\<rparr>"

definition fat_interface_file_remove :: "byte list \<Rightarrow> (errno, 'd) fat_cmd" where
  "fat_interface_file_remove path = bindc (fat_interface_convert_path path) fat_remove_file"

definition fat_interface_file_read :: "byte list \<Rightarrow> kernel_file \<Rightarrow> (errno \<times> nat \<times> byte list \<times> kernel_file, 'd) fat_cmd" where
  "fat_interface_file_read buffer file =
     bindc (fat_file_read (kf_internal file) (kf_seek_position file) (length buffer) buffer) (\<lambda>(err, size_read, buffer).
     ret (err, size_read, buffer, file\<lparr>kf_seek_position := u64_add (kf_seek_position file) size_read\<rparr>))"

text \<open>\<open>size_write\<close>: what \<^verbatim>\<open>*size_write\<close> holds before the call.\<close>

definition fat_interface_file_write :: "byte list \<Rightarrow> nat \<Rightarrow> kernel_file \<Rightarrow> (errno \<times> nat \<times> kernel_file, 'd) fat_cmd" where
  "fat_interface_file_write buffer size_write file =
     bindc (fat_file_write (kf_internal file) (kf_seek_position file) buffer True) (\<lambda>(err, w, ff).
     let size_write = (case w of None \<Rightarrow> size_write | Some w \<Rightarrow> w) in
     ret (err, size_write, file\<lparr>kf_internal := ff, kf_seek_position := u64_add (kf_seek_position file) size_write\<rparr>))"

datatype whence = SEEK_CUR | SEEK_END | SEEK_SET | SEEK_OTHER

definition fat_interface_file_seek :: "int \<Rightarrow> whence \<Rightarrow> kernel_file \<Rightarrow> errno \<times> nat \<times> kernel_file" where
  "fat_interface_file_seek offset w file =
     (let seek = (\<lambda>p. (EOK, p, file\<lparr>kf_seek_position := p\<rparr>)) in
      case w of
        SEEK_SET \<Rightarrow> seek (nat (offset mod 2 ^ 64))
      | SEEK_CUR \<Rightarrow> seek (nat ((int (kf_seek_position file) + offset) mod 2 ^ 64))
      | SEEK_END \<Rightarrow> seek (entry_size (ff_entry (kf_internal file)))
      | SEEK_OTHER \<Rightarrow> (EINVAL, 0, file))"

definition fat_interface_file_ioctl :: "nat \<Rightarrow> kernel_file \<Rightarrow> errno" where
  "fat_interface_file_ioctl request file = ENOTTY"

definition entry_mktime :: "nat \<Rightarrow> nat \<Rightarrow> int option" where
  "entry_mktime time date =
     mktime (fat_get_entry_date date (fat_get_entry_time time
       \<lparr>tm_sec = 0, tm_min = 0, tm_hour = 0, tm_mday = 0, tm_mon = 0, tm_year = 0\<rparr>))"

definition entry_stat :: "nat \<Rightarrow> byte list \<Rightarrow> (file_stat, 'd) fat_cmd" where
  "entry_stat mode e =
     (case (entry_mktime 0 (last_access_date e), entry_mktime (last_write_time e) (last_write_date e),
            entry_mktime (creation_time e) (creation_date e)) of
        (Some a, Some m, Some c) \<Rightarrow>
          ret \<lparr>st_mode = mode, st_size = entry_size e, st_blocks = (entry_size e + 511) div 512, st_blksize = 512,
            st_atime = a, st_mtime = m, st_ctime = c\<rparr>
      | _ \<Rightarrow> stop OutOfBounds)"

definition fat_interface_file_stat :: "kernel_file \<Rightarrow> (file_stat, 'd) fat_cmd" where
  "fat_interface_file_stat file = entry_stat S_IFREG (ff_entry (kf_internal file))"

definition fat_interface_file_close :: "kernel_file \<Rightarrow> errno" where
  "fat_interface_file_close file = EOK"

definition POLLIN :: nat where "POLLIN = 0x01"
definition POLLOUT :: nat where "POLLOUT = 0x02"

definition fat_interface_file_get_event :: "nat \<Rightarrow> nat \<times> nat" where
  "fat_interface_file_get_event event =
     ((if and event POLLIN \<noteq> 0 then 1 else 0) + (if and event POLLOUT \<noteq> 0 then 1 else 0),
      and event (or POLLIN POLLOUT))"

definition fat_interface_file_open :: "byte list \<Rightarrow> bool \<Rightarrow> (errno + kernel_file, 'd) fat_cmd" where
  "fat_interface_file_open path o_creat =
     bindc (fat_interface_convert_path path) (\<lambda>path.
     bindc (fat_open_file path o_creat) (\<lambda>r. case r of
       Inl err \<Rightarrow> ret (Inl err)
     | Inr f \<Rightarrow> ret (Inr \<lparr>kf_seek_position = 0, file_size_initial = entry_size (ff_entry f), kf_internal = f\<rparr>)))"

definition fat_interface_dir_create :: "byte list \<Rightarrow> (errno, 'd) fat_cmd" where
  "fat_interface_dir_create path = bindc (fat_interface_convert_path path) fat_create_dir"

definition fat_interface_dir_remove :: "byte list \<Rightarrow> (errno, 'd) fat_cmd" where
  "fat_interface_dir_remove path = bindc (fat_interface_convert_path path) fat_remove_dir"

definition fat_interface_dir_close :: "kernel_dir \<Rightarrow> errno" where
  "fat_interface_dir_close dir = EOK"

definition fat_interface_dir_open :: "byte list \<Rightarrow> (errno + kernel_dir, 'd) fat_cmd" where
  "fat_interface_dir_open path =
     bindc (fat_interface_convert_path path) (\<lambda>path.
     bindc (fat_open_dir path) (\<lambda>r. case r of
       Inl err \<Rightarrow> ret (Inl err)
     | Inr f \<Rightarrow>
         bindc (ctxc (\<lambda>c. c)) (\<lambda>c.
         ret (Inr \<lparr>kd_seek_position = (if fat_get_cluster_entry c (ff_entry f) = root_cluster_number (bpb c)
                                       then 0 else DIR_MINIMUM_ENTRIES),
                   kd_internal = f\<rparr>))))"

definition fat_interface_rename :: "byte list \<Rightarrow> byte list \<Rightarrow> (errno, 'd) fat_cmd" where
  "fat_interface_rename old_path new_path =
     bindc (fat_interface_convert_path old_path) (\<lambda>old_path.
     bindc (fat_interface_convert_path new_path) (\<lambda>new_path.
     fat_rename old_path new_path))"

definition fat_interface_link :: "byte list \<Rightarrow> byte list \<Rightarrow> errno" where
  "fat_interface_link src_path dst_path = ENOSYS"

definition fat_interface_stat :: "byte list \<Rightarrow> (errno + file_stat, 'd) fat_cmd" where
  "fat_interface_stat path =
     bindc (fat_interface_convert_path path) (\<lambda>path.
     seqc malloc_cluster_buffer
    (bindc (fat_find_entry_with_path_from_root path) (\<lambda>r. case r of
       None \<Rightarrow> ret (Inl ENOENT)
     | Some e \<Rightarrow> bindc (entry_stat (if is_directory e then S_IFDIR else S_IFREG) e) (\<lambda>st. ret (Inr st)))))"

subsection \<open>Mounting\<close>

text \<open>
  The context that \<^verbatim>\<open>fat_mount\<close> fills in after the boot sector, the information sector and their
  signatures have been read.
\<close>

definition fat_geometry :: "fat_context \<Rightarrow> fat_context" where
  "fat_geometry c =
     (let b = bpb c;
          total_sector = (if total_sectors16 b \<noteq> 0 then total_sectors16 b else total_sectors32 b);
          count = (if sectors_per_cluster b \<noteq> 0 then total_sector div sectors_per_cluster b else total_sector)
      in c\<lparr>cluster_count := count,
           data_cluster_count := u64_sub total_sector (u32 (root_cluster_number b + u32 (fats b * sectors_per_fat b))),
           next_free_cluster := (if fsi_next_free_cluster (fsi c) \<le> count then fsi_next_free_cluster (fsi c) else 0),
           fat_size := lba_to_bytes (sectors_per_fat b),
           fat1_position := lba_to_bytes (reserved_sectors b),
           fat2_position := u64_add (lba_to_bytes (reserved_sectors b)) (lba_to_bytes (sectors_per_fat b))\<rparr>)"

definition fat_layout :: "fat_context \<Rightarrow> fat_context" where
  "fat_layout c =
     (let b = bpb c
      in c\<lparr>first_usable_lba := u32 (reserved_sectors b + u32 (fats b * sectors_per_fat b)),
           cluster_size := lba_to_bytes (sectors_per_cluster b),
           entries_per_cluster := lba_to_bytes (sectors_per_cluster b) div ENTRY_SIZE,
           fat_entry_count := lba_to_bytes (sectors_per_fat b) div 4,
           cluster_zero_buffer := replicate (lba_to_bytes (sectors_per_cluster b)) 0,
           root_dir := fat_set_cluster_entry (root_cluster_number b) (putf 11 1 16 (replicate 32 0))\<rparr>)"

definition fat_mount :: "(bool \<Rightarrow> (errno, 'd) fat_cmd) \<Rightarrow> nat \<Rightarrow> nat \<Rightarrow> (errno, 'd) fat_cmd" where
  "fat_mount vfs_mount start sz =
     bindc (fresh_bytes 512) (\<lambda>blank.
     seqc (upd_fctx (\<lambda>c. c\<lparr>part_start := start, part_size := sz, bpb := blank\<rparr>))
    (bindc fat_read_boot_sector (\<lambda>e.
     seqc (assertc (e = EOK))
    (bindc (bpbc bpb_identifier) (\<lambda>ident.
     if ident \<noteq> FAT32_SIGNATURE then ret EINVAL
     else
       seqc (upd_fctx (\<lambda>c. c\<lparr>fsi := blank\<rparr>))
      (bindc fat_read_fs_info_sector (\<lambda>e.
       seqc (assertc (e = EOK))
      (seqc (upd_fctx fat_geometry)
      (bindc fat_read_fat (\<lambda>e.
       seqc (assertc (e = EOK))
      (seqc (upd_fctx fat_layout)
      (bindc (getc (\<lambda>s. is_removable (fdev s))) (\<lambda>removable.
       bindc (vfs_mount removable) (\<lambda>e.
       seqc (assertc (e = EOK))
      (ret EOK)))))))))))))))"

definition get_ownership :: "(bool \<Rightarrow> (errno, 'd) fat_cmd) \<Rightarrow> nat \<Rightarrow> nat \<Rightarrow> (errno, 'd) fat_cmd" where
  "get_ownership vfs_mount start sz =
     bindc (fat_mount vfs_mount start sz) (\<lambda>e. ret (if e = EOK then EOK else EINVAL))"

end
