(* ===== verification/Fat32_Correct.thy ===== *)
theory Fat32_Correct
  imports Fat32_File
begin

section \<open>Correctness of cluster chains\<close>

text \<open>
  What the allocation table and cluster chains of \<^verbatim>\<open>fat32/source/core.c\<close> guarantee on a device that
  stores bytes: the table in memory and both tables on the disk stay equal, allocation and
  release change exactly the entries they should, and reading a chain after writing it returns
  the bytes that were written.
\<close>

subsection \<open>Well-formed volumes\<close>

definition disk :: "('d \<Rightarrow> nat \<Rightarrow> byte) \<Rightarrow> 'd fat_state \<Rightarrow> nat \<Rightarrow> byte" where
  "disk view s = view (sd_data (fdev s))"

text \<open>
  The geometry of a volume whose table describes only clusters inside the partition: the
  information sector, two copies of the table and the clusters follow each other.
\<close>

definition fat_wf :: "fat_context \<Rightarrow> bool" where
  "fat_wf c \<longleftrightarrow> length (fsi c) = 512 \<and> fat_entry_count c = length (fat c) \<and> (\<forall>v \<in> set (fat c). v < 2 ^ 32) \<and>
     2 \<le> length (fat c) \<and> length (fat c) \<le> 0xFFFFFF8 \<and>
     cluster_size c = sectors_per_cluster (bpb c) * 512 \<and> 0 < cluster_size c \<and>
     sectors_per_cluster (bpb c) * length (fat c) < 2 ^ 32 \<and>
     length (cluster_zero_buffer c) = cluster_size c \<and>
     512 dvd part_start c \<and> 4 dvd fat1_position c \<and> 4 dvd fat2_position c \<and>
     (sector_number_fs_info (bpb c) + 1) * 512 \<le> fat1_position c \<and>
     fat1_position c + 4 * length (fat c) \<le> fat2_position c \<and>
     fat2_position c + 4 * length (fat c) \<le> first_usable_lba c * 512 \<and>
     (first_usable_lba c + sectors_per_cluster (bpb c) * (length (fat c) - 2)) * 512 \<le> part_size c \<and>
     part_start c + part_size c < 2 ^ 63"

text \<open>\<open>table p f D\<close>: the numbers \<open>f\<close> are stored at \<open>p\<close>, four bytes each.\<close>

definition table :: "nat \<Rightarrow> nat list \<Rightarrow> (nat \<Rightarrow> byte) \<Rightarrow> bool" where
  "table p f D \<longleftrightarrow> (\<forall>i < length f. load (p + 4 * i) 4 D = le_bytes 4 (f ! i))"

lemma table_store:
  assumes "table p f D" "cur < length f"
  shows "table p (f[cur := v]) (store (p + 4 * cur) (le_bytes 4 v) D)"
  unfolding table_def
proof (intro allI impI)
  fix i assume "i < length (f[cur := v])"
  then have i: "i < length f" by simp
  show "load (p + 4 * i) 4 (store (p + 4 * cur) (le_bytes 4 v) D) = le_bytes 4 (f[cur := v] ! i)"
  proof (cases "i = cur")
    case True
    then show ?thesis using i by (simp add: load_store_same)
  next
    case False
    then have "load (p + 4 * i) 4 (store (p + 4 * cur) (le_bytes 4 v) D) = load (p + 4 * i) 4 D"
      by (intro load_store_other) (simp, linarith)
    then show ?thesis using assms i False by (simp add: table_def)
  qed
qed

lemma table_other:
  assumes "table p f D" "b + length bs \<le> p \<or> p + 4 * length f \<le> b"
  shows "table p f (store b bs D)"
  unfolding table_def
proof (intro allI impI)
  fix i assume "i < length f"
  then have "load (p + 4 * i) 4 (store b bs D) = load (p + 4 * i) 4 D"
    using assms(2) by (intro load_store_other) linarith
  then show "load (p + 4 * i) 4 (store b bs D) = le_bytes 4 (f ! i)"
    using assms(1) \<open>i < length f\<close> by (simp add: table_def)
qed

definition mirrored :: "('d \<Rightarrow> nat \<Rightarrow> byte) \<Rightarrow> 'd fat_state \<Rightarrow> bool" where
  "mirrored view s \<longleftrightarrow>
     table (part_start (fctx s) + fat1_position (fctx s)) (fat (fctx s)) (disk view s) \<and>
     table (part_start (fctx s) + fat2_position (fctx s)) (fat (fctx s)) (disk view s)"

definition fat_dev :: "'d device_read \<Rightarrow> 'd device_write \<Rightarrow>
    ('d \<Rightarrow> bool) \<Rightarrow> nat \<Rightarrow> 'd fat_state \<Rightarrow> bool" where
  "fat_dev rd wr good cap s \<longleftrightarrow> fat_wf (fctx s) \<and> sd_read (fdev s) = rd \<and> sd_write (fdev s) = wr \<and>
     good (sd_data (fdev s)) \<and> part_start (fctx s) + part_size (fctx s) \<le> cap"

definition fat_core :: "'d device_read \<Rightarrow> 'd device_write \<Rightarrow>
    ('d \<Rightarrow> bool) \<Rightarrow> ('d \<Rightarrow> nat \<Rightarrow> byte) \<Rightarrow> nat \<Rightarrow> 'd fat_state \<Rightarrow> bool" where
  "fat_core rd wr good view cap s \<longleftrightarrow> fat_dev rd wr good cap s \<and> mirrored view s"

definition fat_inv :: "'d device_read \<Rightarrow> 'd device_write \<Rightarrow>
    ('d \<Rightarrow> bool) \<Rightarrow> ('d \<Rightarrow> nat \<Rightarrow> byte) \<Rightarrow> nat \<Rightarrow> 'd fat_state \<Rightarrow> bool" where
  "fat_inv rd wr good view cap s \<longleftrightarrow> fat_core rd wr good view cap s \<and> \<not> fat_allocate_cluster_lock s"

text \<open>Where a cluster lies on the disk, and what it holds.\<close>

definition caddr :: "fat_context \<Rightarrow> nat \<Rightarrow> nat" where
  "caddr c cl = part_start c + (first_usable_lba c + sectors_per_cluster (bpb c) * (cl - 2)) * 512"

definition cdata :: "('d \<Rightarrow> nat \<Rightarrow> byte) \<Rightarrow> 'd fat_state \<Rightarrow> nat \<Rightarrow> byte list" where
  "cdata view s cl = load (caddr (fctx s) cl) (cluster_size (fctx s)) (disk view s)"

text \<open>The first byte of the clusters.\<close>

definition data_start :: "fat_context \<Rightarrow> nat" where
  "data_start c = part_start c + first_usable_lba c * 512"

text \<open>
  \<open>meta_step view s t\<close>: only the table, the information sector, the hint and the lock have
  changed, and on the disk only bytes in front of the clusters.
\<close>

definition meta_step :: "('d \<Rightarrow> nat \<Rightarrow> byte) \<Rightarrow> 'd fat_state \<Rightarrow> 'd fat_state \<Rightarrow> bool" where
  "meta_step view s t \<longleftrightarrow>
     (\<exists>f i h l d. t = s\<lparr>fctx := (fctx s)\<lparr>fat := f, fsi := i, next_free_cluster := h\<rparr>,
        fdev := (fdev s)\<lparr>sd_data := d\<rparr>, fat_allocate_cluster_lock := l\<rparr>) \<and>
     (\<forall>i. data_start (fctx s) \<le> i \<longrightarrow> disk view t i = disk view s i)"

lemma meta_step_refl: "meta_step view s s"
  unfolding meta_step_def
  by (intro conjI exI [of _ "fat (fctx s)"] exI [of _ "fsi (fctx s)"] exI [of _ "next_free_cluster (fctx s)"]
      exI [of _ "fat_allocate_cluster_lock s"] exI [of _ "sd_data (fdev s)"]) simp_all

lemma meta_stepD:
  assumes "meta_step view s t"
  shows "bpb (fctx t) = bpb (fctx s)" "cluster_size (fctx t) = cluster_size (fctx s)"
    "part_start (fctx t) = part_start (fctx s)" "part_size (fctx t) = part_size (fctx s)"
    "first_usable_lba (fctx t) = first_usable_lba (fctx s)" "fat1_position (fctx t) = fat1_position (fctx s)"
    "fat2_position (fctx t) = fat2_position (fctx s)" "fat_entry_count (fctx t) = fat_entry_count (fctx s)"
    "cluster_zero_buffer (fctx t) = cluster_zero_buffer (fctx s)" "root_dir (fctx t) = root_dir (fctx s)"
    "entries_per_cluster (fctx t) = entries_per_cluster (fctx s)"
    "cluster_buffer t = cluster_buffer s" "now t = now s" "junk t = junk s" "after_nul t = after_nul s"
    "sd_read (fdev t) = sd_read (fdev s)" "sd_write (fdev t) = sd_write (fdev s)"
    "data_start (fctx s) \<le> i \<Longrightarrow> disk view t i = disk view s i"
  using assms by (auto simp: meta_step_def)

lemma meta_stepI:
  assumes "fctx t = (fctx s)\<lparr>fat := f, fsi := i, next_free_cluster := h\<rparr>" "fdev t = (fdev s)\<lparr>sd_data := d\<rparr>"
    "cluster_buffer t = cluster_buffer s" "now t = now s" "junk t = junk s" "after_nul t = after_nul s"
    "\<And>i. data_start (fctx s) \<le> i \<Longrightarrow> disk view t i = disk view s i"
  shows "meta_step view s t"
  unfolding meta_step_def
proof (intro conjI exI)
  show "t = s\<lparr>fctx := (fctx s)\<lparr>fat := f, fsi := i, next_free_cluster := h\<rparr>,
      fdev := (fdev s)\<lparr>sd_data := d\<rparr>, fat_allocate_cluster_lock := fat_allocate_cluster_lock t\<rparr>"
    using assms by (intro fat_state.equality) simp_all
qed (use assms(7) in simp)

lemma meta_step_trans: "meta_step view s t \<Longrightarrow> meta_step view t u \<Longrightarrow> meta_step view s u"
  unfolding meta_step_def by (auto simp: data_start_def) blast

lemma caddr_meta: "meta_step view s t \<Longrightarrow> caddr (fctx t) cl = caddr (fctx s) cl"
  by (simp add: caddr_def meta_stepD)

lemma cdata_meta: "meta_step view s t \<Longrightarrow> cdata view t cl = cdata view s cl"
proof -
  assume m: "meta_step view s t"
  have "data_start (fctx s) \<le> caddr (fctx s) cl + i" for i by (simp add: data_start_def caddr_def)
  then show ?thesis
    by (intro nth_equalityI) (simp_all add: cdata_def caddr_meta [OF m] meta_stepD [OF m])
qed

subsection \<open>Entries of the table\<close>

lemma fat_wfD:
  assumes "fat_wf c"
  shows "fat_entry_count c = length (fat c)" "length (fat c) \<le> 0xFFFFFF8" "2 \<le> length (fat c)"
    "cluster_size c = sectors_per_cluster (bpb c) * 512" "0 < cluster_size c" "length (fsi c) = 512"
    "part_start c + part_size c < 2 ^ 63" "i < length (fat c) \<Longrightarrow> fat c ! i < 2 ^ 32"
  using assms by (simp_all add: fat_wf_def)

context byte_store
begin

abbreviation core :: "'d fat_state \<Rightarrow> bool" where
  "core \<equiv> fat_core rd wr good view cap"

lemma device_read_wp:
  assumes "sd_read (fdev s) = rd" "good (sd_data (fdev s))" "a + n \<le> cap" "n \<le> length b"
    "\<And>d. good d \<Longrightarrow> view d = view (sd_data (fdev s)) \<Longrightarrow>
      Q (EOK, load a n (disk view s) @ drop n b) (s\<lparr>fdev := (fdev s)\<lparr>sd_data := d\<rparr>\<rparr>)"
  shows "wp (device_read a n b) Q s"
proof -
  obtain d where "rd a n (sd_data (fdev s)) = Inr ((EOK, load a n (disk view s)), d)" "good d" "view d = view (sd_data (fdev s))"
    using rd_ok [OF assms(2,3)] by (auto simp: disk_def)
  then show ?thesis using assms(1,4,5) by (simp add: wp_def device_read_def)
qed

lemma device_write_wp:
  assumes "sd_write (fdev s) = wr" "good (sd_data (fdev s))" "a + length bs \<le> cap" "writable a (length bs)"
    "\<And>d. good d \<Longrightarrow> view d = store a bs (disk view s) \<Longrightarrow> Q EOK (s\<lparr>fdev := (fdev s)\<lparr>sd_data := d\<rparr>\<rparr>)"
  shows "wp (device_write a bs) Q s"
proof -
  obtain d where "wr a bs (sd_data (fdev s)) = Inr (EOK, d)" "good d" "view d = store a bs (disk view s)"
    using wr_ok [OF assms(2-4)] by (auto simp: disk_def)
  then show ?thesis using assms(1,5) by (simp add: wp_def device_write_def)
qed

end

text \<open>The value of a table entry after \<^verbatim>\<open>fat_set_next_cluster\<close>: the upper four bits are kept.\<close>

definition next_entry :: "nat \<Rightarrow> nat \<Rightarrow> nat" where
  "next_entry old nx = nx mod 0x10000000 + old div 0x10000000 * 0x10000000"

lemma next_entry_lt: "old < 2 ^ 32 \<Longrightarrow> next_entry old nx < 2 ^ 32"
proof -
  assume "old < 2 ^ 32"
  then have "old div 0x10000000 < 16" by (simp add: less_mult_imp_div_less)
  moreover have "nx mod 0x10000000 < 0x10000000" by simp
  ultimately have "nx mod 0x10000000 + old div 0x10000000 * 0x10000000 < 4294967296" by linarith
  then show ?thesis by (simp add: next_entry_def)
qed

lemma next_entry_low [simp]: "next_entry old nx mod 0x10000000 = nx mod 0x10000000"
  by (simp add: next_entry_def)

text \<open>The first free cluster from a given one on.\<close>

definition first_free :: "nat list \<Rightarrow> nat \<Rightarrow> nat option" where
  "first_free f i = find (\<lambda>j. f ! j mod 0x10000000 = 0) [i..<length f]"

lemma first_free_Some: "first_free f i = Some j \<Longrightarrow> i \<le> j \<and> j < length f \<and> f ! j mod 0x10000000 = 0"
  by (auto simp: first_free_def find_Some_iff)

text \<open>
  \<open>chain f c cs\<close>: the chain that starts at \<open>c\<close> in the table \<open>f\<close> consists of the clusters \<open>cs\<close>.
\<close>

fun chain :: "nat list \<Rightarrow> nat \<Rightarrow> nat list \<Rightarrow> bool" where
  "chain f c [] \<longleftrightarrow> 0xFFFFFF8 \<le> c"
| "chain f c (x # xs) \<longleftrightarrow> c = x \<and> \<not> end_of_chain c \<and> 2 \<le> c \<and> c < length f \<and> chain f (f ! c mod 0x10000000) xs"

lemma chain_fun: "chain f c xs \<Longrightarrow> chain f c ys \<Longrightarrow> xs = ys"
proof (induction xs arbitrary: c ys)
  case Nil
  then show ?case by (cases ys) (auto simp: end_of_chain_def)
next
  case (Cons x xs)
  then show ?case by (cases ys) (auto simp: end_of_chain_def)
qed

lemma chain_tail: "chain f c (xs @ y # ys) \<Longrightarrow> chain f y (y # ys)"
  by (induction xs arbitrary: c) auto

lemma chain_distinct: "chain f c xs \<Longrightarrow> distinct xs"
proof (induction xs arbitrary: c)
  case (Cons x xs)
  have "x \<notin> set xs"
  proof
    assume "x \<in> set xs"
    then obtain us vs where xs: "xs = us @ x # vs" by (meson split_list)
    then have "chain f c ((x # us) @ x # vs)" using Cons.prems by auto
    then have "chain f x (x # vs)" by (rule chain_tail)
    moreover have "chain f x (x # xs)" using Cons.prems by auto
    ultimately have "vs = xs" using chain_fun by blast
    then show False using xs by (simp add: arg_cong [of _ _ length])
  qed
  then show ?case using Cons by auto
qed simp

lemma chain_update: "chain f c xs \<Longrightarrow> i \<notin> set xs \<Longrightarrow> chain (f[i := v]) c xs"
  by (induction xs arbitrary: c) auto

lemma chain_set: "chain f c xs \<Longrightarrow> x \<in> set xs \<Longrightarrow> 2 \<le> x \<and> x < length f"
  by (induction xs arbitrary: c) auto

definition freed :: "nat list \<Rightarrow> nat list \<Rightarrow> nat list" where
  "freed f cs = map (\<lambda>i. if i \<in> set cs then next_entry (f ! i) 0 else f ! i) [0..<length f]"

lemma freed_Nil: "freed f [] = f"
  by (simp add: freed_def map_nth)

lemma freed_Cons: "c \<notin> set cs \<Longrightarrow> c < length f \<Longrightarrow> freed (f[c := next_entry (f ! c) 0]) cs = freed f (c # cs)"
  by (auto simp: freed_def nth_list_update intro: nth_equalityI)

locale fat_store = byte_store +
  assumes writable_entry: "4 dvd a \<Longrightarrow> writable a 4"
    and writable_sector: "512 dvd a \<Longrightarrow> writable a 512"

context fat_store
begin

lemma core_update:
  assumes "core s" "good d" "fctx t = (fctx s)\<lparr>fat := f, fsi := i, next_free_cluster := h\<rparr>"
    "fdev t = (fdev s)\<lparr>sd_data := d\<rparr>" "length f = length (fat (fctx s))" "\<forall>v \<in> set f. v < 2 ^ 32" "length i = 512" "mirrored view t"
  shows "core t"
  using assms by (simp add: fat_core_def fat_dev_def fat_wf_def)

lemma write_partition_wp:
  assumes "fat_dev rd wr good cap s" "start + length bs \<le> first_usable_lba (fctx s) * 512"
    "writable (part_start (fctx s) + start) (length bs)"
    "\<And>d. good d \<Longrightarrow> view d = store (part_start (fctx s) + start) bs (disk view s) \<Longrightarrow>
      Q EOK (s\<lparr>fdev := (fdev s)\<lparr>sd_data := d\<rparr>\<rparr>)"
  shows "wp (write_partition start bs) Q s"
proof -
  let ?c = "fctx s"
  have c: "fat_wf ?c" "sd_write (fdev s) = wr" "good (sd_data (fdev s))" "part_start ?c + part_size ?c \<le> cap"
    using assms(1) by (auto simp: fat_dev_def)
  have b: "start + length bs \<le> part_size ?c" "part_start ?c + part_size ?c < 2 ^ 63"
    using c(1) assms(2) by (auto simp: fat_wf_def)
  have a: "u64_add start (length bs) = start + length bs" "u64_add (part_start ?c) (part_size ?c) = part_start ?c + part_size ?c"
    "u64_add start (part_start ?c) = part_start ?c + start"
    using b by (auto intro!: u64_add_small simp: u64_add_small add.commute)
  have "wp (device_write (part_start ?c + start) bs) Q s"
    using c(2,3) b(1) c(4) assms(3,4) by (intro device_write_wp) simp_all
  then show ?thesis using b by (simp add: write_partition_def wp_simps ctxc_def a)
qed

lemma fat_set_next_cluster_wp:
  assumes "core s" "cur < length (fat (fctx s))"
  shows "wp (fat_set_next_cluster cur nx) (\<lambda>r t. r = EOK \<and> core t \<and> meta_step view s t \<and>
      fctx t = (fctx s)\<lparr>fat := (fat (fctx s))[cur := next_entry (fat (fctx s) ! cur) nx]\<rparr> \<and>
      fat_allocate_cluster_lock t = fat_allocate_cluster_lock s) s"
proof -
  let ?c = "fctx s"
  let ?v = "next_entry (fat ?c ! cur) nx"
  let ?f = "(fat ?c)[cur := ?v]"
  have wf: "fat_wf ?c" using assms(1) by (simp add: fat_core_def fat_dev_def)
  let ?a1 = "part_start ?c + fat1_position ?c + 4 * cur"
  let ?a2 = "part_start ?c + fat2_position ?c + 4 * cur"
  have g: "fat1_position ?c + 4 * length (fat ?c) \<le> fat2_position ?c"
      "fat2_position ?c + 4 * length (fat ?c) \<le> first_usable_lba ?c * 512"
      "4 dvd ?a1" "4 dvd ?a2" "part_start ?c + part_size ?c < 2 ^ 63" "first_usable_lba ?c * 512 \<le> part_size ?c"
    using wf by (auto simp: fat_wf_def intro: dvd_trans [of 4 512])
  have u: "u64_add (fat1_position ?c) (u64_mul cur 4) = fat1_position ?c + 4 * cur"
      "u64_add (fat2_position ?c) (u64_mul cur 4) = fat2_position ?c + 4 * cur"
    using g assms(2) by (simp_all add: u64_add_def u64_mul_def)
  have vlt: "\<forall>v \<in> set ?f. v < 2 ^ 32"
    using wf assms(2) set_update_subset_insert [of "fat ?c" cur ?v] next_entry_lt [of "fat ?c ! cur" nx]
    by (auto simp: fat_wf_def)
  have final: "core t \<and> meta_step view s t"
    if t: "t = s\<lparr>fctx := ?c\<lparr>fat := ?f\<rparr>, fdev := (fdev s)\<lparr>sd_data := d\<rparr>\<rparr>" "good d"
      "view d = store ?a2 (le_bytes 4 ?v) (store ?a1 (le_bytes 4 ?v) (disk view s))" for t d
  proof
    have dt: "disk view t = store ?a2 (le_bytes 4 ?v) (store ?a1 (le_bytes 4 ?v) (disk view s))" by (simp add: t(1,3) disk_def)
    have m: "table (part_start ?c + fat1_position ?c) (fat ?c) (disk view s)"
        "table (part_start ?c + fat2_position ?c) (fat ?c) (disk view s)"
      using assms(1) by (auto simp: fat_core_def mirrored_def)
    have "table (part_start ?c + fat1_position ?c) ?f (disk view t)"
      unfolding dt by (rule table_other, rule table_store [OF m(1) assms(2)]) (use g(1) in simp)
    moreover have "table (part_start ?c + fat2_position ?c) ?f (disk view t)"
    proof -
      have "table (part_start ?c + fat2_position ?c) (fat ?c) (store ?a1 (le_bytes 4 ?v) (disk view s))"
        using g(1) assms(2) by (intro table_other m(2)) simp
      from table_store [OF this assms(2), of ?v] show ?thesis unfolding dt .
    qed
    ultimately have "mirrored view t" by (simp add: mirrored_def t(1))
    then show "core t" using vlt wf
      by (intro core_update [OF assms(1) t(2), where f = ?f and i = "fsi ?c" and h = "next_free_cluster ?c"]) (simp_all add: t(1) fat_wf_def)
    have "disk view t i = disk view s i" if "data_start ?c \<le> i" for i
      using that g(1,2) assms(2) by (simp add: dt store_def data_start_def)
    then show "meta_step view s t"
      unfolding meta_step_def
      by (intro conjI exI [of _ ?f] exI [of _ "fsi ?c"] exI [of _ "next_free_cluster ?c"]
          exI [of _ "fat_allocate_cluster_lock s"] exI [of _ d]) (simp_all add: t(1))
  qed
  have dev: "fat_dev rd wr good cap (s\<lparr>fctx := ?c\<lparr>fat := ?f\<rparr>, fdev := (fdev s)\<lparr>sd_data := d\<rparr>\<rparr>)" if "good d" for d
    using assms(1) vlt that by (simp add: fat_core_def fat_dev_def fat_wf_def)
  let ?s1 = "s\<lparr>fctx := ?c\<lparr>fat := ?f\<rparr>\<rparr>"
  have "good (sd_data (fdev s))" using assms(1) by (simp add: fat_core_def fat_dev_def)
  from dev [OF this] have dev0: "fat_dev rd wr good cap ?s1" by simp
  show ?thesis
    unfolding fat_set_next_cluster_def
    apply (simp add: wp_simps ctxc_def upd_fctx_def assms(2) u Let_def flip: next_entry_def)
    apply (rule write_partition_wp [OF dev0])
      apply (use g assms(2) in \<open>simp_all add: writable_entry add.assoc u\<close>)
    apply (rule write_partition_wp)
       apply (erule dev)
      apply (use g assms(2) in \<open>simp_all add: writable_entry add.assoc u\<close>)
    apply (rule final, rule refl, assumption)
    apply (simp add: disk_def add.assoc)
    done
qed

lemma add_free_count_wp:
  assumes "core s"
  shows "wp (add_free_count k) (\<lambda>r t. r = EOK \<and> core t \<and> meta_step view s t \<and> (\<exists>i. fctx t = (fctx s)\<lparr>fsi := i\<rparr>) \<and>
      fat_allocate_cluster_lock t = fat_allocate_cluster_lock s) s"
proof -
  let ?c = "fctx s"
  let ?i = "putf 488 4 (free_cluster_count (fsi ?c) + k) (fsi ?c)"
  let ?n = "sector_number_fs_info (bpb ?c)"
  have wf: "fat_wf ?c" using assms by (simp add: fat_core_def fat_dev_def)
  have g: "?n * 512 + 512 \<le> fat1_position ?c" "fat1_position ?c + 4 * length (fat ?c) \<le> fat2_position ?c"
      "fat2_position ?c + 4 * length (fat ?c) \<le> first_usable_lba ?c * 512" "512 dvd part_start ?c + ?n * 512"
      "part_start ?c + part_size ?c < 2 ^ 63" "first_usable_lba ?c * 512 \<le> part_size ?c" "length (fsi ?c) = 512"
    using wf by (auto simp: fat_wf_def)
  then have l: "lba_to_bytes ?n = ?n * 512" by (simp add: lba_to_bytes_def)
  have dev: "fat_dev rd wr good cap (s\<lparr>fctx := ?c\<lparr>fsi := ?i\<rparr>\<rparr>)"
    using assms g(7) by (simp add: fat_core_def fat_dev_def fat_wf_def)
  have final: "core t \<and> meta_step view s t"
    if t: "t = s\<lparr>fctx := ?c\<lparr>fsi := ?i\<rparr>, fdev := (fdev s)\<lparr>sd_data := d\<rparr>\<rparr>" "good d"
      "view d = store (part_start ?c + ?n * 512) ?i (disk view s)" for t d
  proof
    have dt: "disk view t = store (part_start ?c + ?n * 512) ?i (disk view s)" by (simp add: t(1,3) disk_def)
    have "mirrored view t"
      unfolding mirrored_def dt using assms g
      by (intro conjI table_other) (simp_all add: t(1) fat_core_def mirrored_def)
    then show "core t" using wf g(7)
      by (intro core_update [OF assms t(2), where f = "fat ?c" and i = ?i and h = "next_free_cluster ?c"])
        (simp_all add: t(1) fat_wf_def)
    have "disk view t i = disk view s i" if "data_start ?c \<le> i" for i
      using that g by (simp add: dt store_def data_start_def)
    then show "meta_step view s t"
      unfolding meta_step_def
      by (intro conjI exI [of _ "fat ?c"] exI [of _ ?i] exI [of _ "next_free_cluster ?c"]
          exI [of _ "fat_allocate_cluster_lock s"] exI [of _ d]) (simp_all add: t(1))
  qed
  show ?thesis
    unfolding add_free_count_def fat_write_fs_info_sector_def bpbc_def ctxc_def upd_fctx_def
    apply (simp add: wp_simps l)
    apply (rule write_partition_wp [OF dev])
      apply (use g in \<open>simp_all add: writable_sector\<close>)
    apply (intro conjI exI [of _ ?i])
      apply (rule final [THEN conjunct1], rule refl, assumption, simp add: disk_def)
     apply (rule final [THEN conjunct2], rule refl, assumption, simp add: disk_def)
    apply simp
    done
qed

lemma fat_find_free_wp:
  assumes "length (fat (fctx s)) \<le> 0xFFFFFF8" "i \<le> length (fat (fctx s))"
  shows "fat_find_free (length (fat (fctx s))) i s =
    Inr (find (\<lambda>j. fat (fctx s) ! j mod 0x10000000 = 0) [i..<length (fat (fctx s))], s)"
  using assms(2)
proof (induction "length (fat (fctx s)) - i" arbitrary: i)
  case 0
  then show ?case by (subst fat_find_free.simps) (simp add: cmd_defs)
next
  case (Suc k)
  then have i: "i < length (fat (fctx s))" "u32 i = i" using assms(1) by simp_all
  have "fat_find_free (length (fat (fctx s))) (Suc i) s =
    Inr (find (\<lambda>j. fat (fctx s) ! j mod 0x10000000 = 0) [Suc i..<length (fat (fctx s))], s)"
    using Suc by simp
  then show ?case using i
    by (subst fat_find_free.simps)
      (simp add: cmd_defs fat_get_next_cluster_def ctxc_def upt_conv_Cons split: if_splits)
qed

abbreviation finv where
  "finv \<equiv> fat_inv rd wr good view cap"

lemma core_hint: "core s \<Longrightarrow> core (s\<lparr>fctx := (fctx s)\<lparr>next_free_cluster := h\<rparr>\<rparr>)"
  by (simp add: fat_core_def fat_dev_def fat_wf_def mirrored_def disk_def)

lemma core_lock: "core (s\<lparr>fat_allocate_cluster_lock := l\<rparr>) = core s"
  by (simp add: fat_core_def fat_dev_def mirrored_def disk_def)

lemma meta_hint: "meta_step view s t \<Longrightarrow> meta_step view s (t\<lparr>fctx := (fctx t)\<lparr>next_free_cluster := h\<rparr>\<rparr>)"
  by (subst (asm) meta_step_def) (auto simp: disk_def intro!: meta_stepI)

lemma meta_lock: "meta_step view s t \<Longrightarrow> meta_step view s (t\<lparr>fat_allocate_cluster_lock := l\<rparr>)"
  by (subst (asm) meta_step_def) (auto simp: disk_def intro!: meta_stepI)

lemma meta_relock: "meta_step view (s\<lparr>fat_allocate_cluster_lock := l\<rparr>) t = meta_step view s t"
  by (auto simp: meta_step_def disk_def)

lemma fat_allocate_cluster_wp:
  assumes "finv s" "next_free_cluster (fctx s) \<le> length (fat (fctx s))"
  shows "wp fat_allocate_cluster (\<lambda>r t. case first_free (fat (fctx s)) (next_free_cluster (fctx s)) of
      None \<Rightarrow> r = Inl EINVAL \<and> t = s
    | Some j \<Rightarrow> r = Inr j \<and> finv t \<and> meta_step view s t \<and> next_free_cluster (fctx t) = j \<and>
        fat (fctx t) = (fat (fctx s))[j := next_entry (fat (fctx s) ! j) END_OF_CLUSTERCHAIN]) s"
proof -
  let ?s1 = "s\<lparr>fat_allocate_cluster_lock := True\<rparr>"
  have c: "core ?s1" and nl: "\<not> fat_allocate_cluster_lock s" using assms(1) by (auto simp: fat_inv_def core_lock)
  then have wf: "fat_wf (fctx s)" by (simp add: fat_core_def fat_dev_def)
  have ff: "fat_find_free (fat_entry_count (fctx s)) (next_free_cluster (fctx s)) ?s1 =
      Inr (first_free (fat (fctx s)) (next_free_cluster (fctx s)), ?s1)"
    using fat_find_free_wp [of ?s1 "next_free_cluster (fctx s)"] assms(2) fat_wfD [OF wf] by (simp add: first_free_def)
  then have ffw: "wp (fat_find_free (fat_entry_count (fctx s)) (next_free_cluster (fctx s))) Q ?s1 =
      Q (first_free (fat (fctx s)) (next_free_cluster (fctx s))) ?s1" for Q by (simp add: wp_def)
  show ?thesis
  proof (cases "first_free (fat (fctx s)) (next_free_cluster (fctx s))")
    case None
    then show ?thesis
      using nl by (simp add: fat_allocate_cluster_def wp_simps ctxc_def ffw)
  next
    case (Some j)
    then have j: "j < length (fat (fctx s))" "u32 j = j" using fat_wfD(2) [OF wf] by (auto dest: first_free_Some)
    show ?thesis
      unfolding fat_allocate_cluster_def
      apply (simp add: wp_simps ctxc_def upd_fctx_def ffw Some nl j)
      apply (rule wp_mono [OF fat_set_next_cluster_wp [OF c]])
       apply (simp add: j)
      apply (elim conjE)
      apply (rule wp_mono [OF add_free_count_wp])
       apply (erule core_hint)
      apply (elim conjE exE)
      apply (intro conjI)
      subgoal unfolding fat_inv_def core_lock by simp
      subgoal by (intro meta_lock) (metis meta_hint meta_relock meta_step_trans)
      subgoal by simp
      subgoal by simp
      done
  qed
qed

lemma fat_free_cluster_wp:
  assumes "finv s" "cl < length (fat (fctx s))"
  shows "wp (fat_free_cluster cl) (\<lambda>r t. r = EOK \<and> finv t \<and> meta_step view s t \<and>
      next_free_cluster (fctx t) = next_free_cluster (fctx s) \<and>
      fat (fctx t) = (fat (fctx s))[cl := next_entry (fat (fctx s) ! cl) 0]) s"
proof -
  let ?s1 = "s\<lparr>fat_allocate_cluster_lock := True\<rparr>"
  have c: "core ?s1" and nl: "\<not> fat_allocate_cluster_lock s" using assms(1) by (auto simp: fat_inv_def core_lock)
  show ?thesis
    unfolding fat_free_cluster_def
    apply (simp add: wp_simps nl)
    apply (rule wp_mono [OF fat_set_next_cluster_wp [OF c]])
     apply (simp add: assms(2))
    apply (elim conjE)
    apply (rule wp_mono [OF add_free_count_wp], assumption)
    apply (elim conjE exE)
    apply (intro conjI)
    subgoal unfolding fat_inv_def core_lock by simp
    subgoal by (intro meta_lock) (metis meta_relock meta_step_trans)
    subgoal by simp
    subgoal by simp
    done
qed

lemma wp_get_next: "wp (fat_get_next_cluster c) Q s = (c < length (fat (fctx s)) \<and> Q (fat (fctx s) ! c mod 0x10000000) s)"
  by (simp add: fat_get_next_cluster_def wp_simps ctxc_def)

lemma fat_free_loop_wp:
  assumes "finv s" "chain (fat (fctx s)) c cs" "length cs < n"
  shows "wp (fat_free_loop n c) (\<lambda>_ t. finv t \<and> meta_step view s t \<and>
      next_free_cluster (fctx t) = next_free_cluster (fctx s) \<and> fat (fctx t) = freed (fat (fctx s)) cs) s"
  using assms
proof (induction cs arbitrary: s c n)
  case Nil
  then obtain m where "n = Suc m" by (cases n) auto
  then show ?case using Nil by (auto simp: wp_simps end_of_chain_def meta_step_refl freed_Nil)
next
  case (Cons x xs)
  then obtain m where n: "n = Suc m" by (cases n) auto
  have c: "c = x" "c < 0x0FFFFFF8" "c \<noteq> 0" "c < length (fat (fctx s))" "chain (fat (fctx s)) (fat (fctx s) ! c mod 0x10000000) xs"
    using Cons.prems(2) by (auto simp: end_of_chain_def)
  have x: "c \<notin> set xs" using chain_distinct [OF Cons.prems(2)] c(1) by simp
  have "wp (fat_free_cluster c) (\<lambda>_. wp (fat_free_loop m (fat (fctx s) ! c mod 0x10000000)) (\<lambda>_ t. finv t \<and> meta_step view s t \<and>
      next_free_cluster (fctx t) = next_free_cluster (fctx s) \<and> fat (fctx t) = freed (fat (fctx s)) (x # xs))) s"
    apply (rule wp_mono [OF fat_free_cluster_wp [OF Cons.prems(1) c(4)]])
    apply (elim conjE)
    subgoal premises p for r t
      using Cons.IH [OF p(2), of "fat (fctx s) ! c mod 0x10000000" m] chain_update [OF c(5) x] Cons.prems(3) n
      by (simp add: p(4,5) c(1) freed_Cons [OF x [unfolded c(1)] c(4) [unfolded c(1)]])
        (erule wp_mono, use p(3) meta_step_trans in blast)
    done
  then show ?case using c(2-4) by (simp add: n wp_simps wp_get_next)
qed

subsection \<open>Reading and writing clusters\<close>

lemma cluster_bounds:
  assumes "fat_wf c" "2 \<le> cl" "cl < length (fat c)"
  shows "cluster_to_lba c cl = first_usable_lba c + sectors_per_cluster (bpb c) * (cl - 2)"
    "caddr c cl + cluster_size c \<le> part_start c + part_size c"
    "u64_add (part_start c) (lba_to_bytes (cluster_to_lba c cl)) = caddr c cl"
    "u64_add (part_start c) (part_size c) = part_start c + part_size c" "part_start c + part_size c < 2 ^ 63"
proof -
  let ?n = "sectors_per_cluster (bpb c)"
  have g: "?n * length (fat c) < 2 ^ 32" "(first_usable_lba c + ?n * (length (fat c) - 2)) * 512 \<le> part_size c"
      "part_start c + part_size c < 2 ^ 63" "cluster_size c = ?n * 512" "length (fat c) \<le> 0xFFFFFF8"
    using assms(1) by (auto simp: fat_wf_def)
  have m: "?n * (cl - 2) + ?n \<le> ?n * (length (fat c) - 2)"
  proof -
    have "Suc (cl - 2) \<le> length (fat c) - 2" using assms(2,3) by linarith
    then have "?n * Suc (cl - 2) \<le> ?n * (length (fat c) - 2)" by (rule mult_le_mono2)
    then show ?thesis by simp
  qed
  have "?n * (length (fat c) - 2) \<le> ?n * length (fat c)" by simp
  then have "?n * (cl - 2) < 2 ^ 32" using m g(1) by linarith
  moreover have "u32_sub cl 2 = cl - 2" using assms(2,3) g(5) by (intro u32_sub_small) linarith+
  ultimately have u: "u32 (?n * u32_sub cl 2) = ?n * (cl - 2)" by simp
  have p: "(first_usable_lba c + ?n * (cl - 2) + ?n) * 512 \<le> part_size c"
  proof -
    have "first_usable_lba c + ?n * (cl - 2) + ?n \<le> first_usable_lba c + ?n * (length (fat c) - 2)" using m by linarith
    then have "(first_usable_lba c + ?n * (cl - 2) + ?n) * 512 \<le> (first_usable_lba c + ?n * (length (fat c) - 2)) * 512"
      by (rule mult_le_mono1)
    then show ?thesis using g(2) by linarith
  qed
  show l: "cluster_to_lba c cl = first_usable_lba c + ?n * (cl - 2)"
    unfolding cluster_to_lba_def u using p g(3) by (intro u64_add_small) simp
  show b: "caddr c cl + cluster_size c \<le> part_start c + part_size c" using p by (simp add: caddr_def g(4))
  have "lba_to_bytes (cluster_to_lba c cl) = (first_usable_lba c + ?n * (cl - 2)) * 512"
    unfolding l using p g(3) by (intro lba_to_bytes_small) simp
  moreover have "u64_add (part_start c) ((first_usable_lba c + ?n * (cl - 2)) * 512) = caddr c cl"
    unfolding caddr_def using p g(3) by (intro u64_add_small) simp
  ultimately show "u64_add (part_start c) (lba_to_bytes (cluster_to_lba c cl)) = caddr c cl" by simp
  show "u64_add (part_start c) (part_size c) = part_start c + part_size c" using g(3) by (intro u64_add_small) simp
  show "part_start c + part_size c < 2 ^ 63" by (rule g(3))
qed

lemma caddr_apart:
  assumes "fat_wf c" "2 \<le> a" "2 \<le> b" "a < b"
  shows "caddr c a + cluster_size c \<le> caddr c b"
proof -
  have "sectors_per_cluster (bpb c) * Suc (a - 2) \<le> sectors_per_cluster (bpb c) * (b - 2)"
    using assms by (intro mult_le_mono2) linarith
  then show ?thesis using fat_wfD(4) [OF assms(1)] by (simp add: caddr_def algebra_simps)
qed

lemma fat_read_cluster_wp:
  assumes "core s" "2 \<le> cl" "cl < length (fat (fctx s))" "al + n \<le> cluster_size (fctx s)" "n \<le> length b"
    "\<And>d. good d \<Longrightarrow> view d = view (sd_data (fdev s)) \<Longrightarrow>
      Q (EOK, take n (drop al (cdata view s cl)) @ drop n b) (s\<lparr>fdev := (fdev s)\<lparr>sd_data := d\<rparr>\<rparr>)"
  shows "wp (fat_read_cluster cl al n b) Q s"
proof -
  let ?c = "fctx s"
  have c: "fat_wf ?c" "sd_read (fdev s) = rd" "good (sd_data (fdev s))" "part_start ?c + part_size ?c \<le> cap"
    using assms(1) by (auto simp: fat_core_def fat_dev_def)
  note b = cluster_bounds [OF c(1) assms(2,3)]
  have u: "u64_add (caddr ?c cl) al = caddr ?c cl + al" "u64_add (caddr ?c cl + al) n = caddr ?c cl + al + n"
    using b(2,5) assms(4) by (auto intro!: u64_add_small)
  have l: "load (caddr ?c cl + al) n (disk view s) = take n (drop al (cdata view s cl))"
    using assms(4) by (intro nth_equalityI) (simp_all add: cdata_def add.assoc)
  have "wp (device_read (caddr ?c cl + al) n b) Q s"
    using c b assms(4-6) by (intro device_read_wp) (simp_all add: l)
  then show ?thesis using b(2) assms(4)
    by (simp add: fat_read_cluster_def wp_simps ctxc_def Let_def b(3,4) u)
qed

lemma fat_write_cluster_wp:
  assumes "core s" "2 \<le> cl" "cl < length (fat (fctx s))" "al + length bs \<le> cluster_size (fctx s)"
    "writable (caddr (fctx s) cl + al) (length bs)"
    "\<And>d. good d \<Longrightarrow> view d = store (caddr (fctx s) cl + al) bs (disk view s) \<Longrightarrow>
      Q EOK (s\<lparr>fdev := (fdev s)\<lparr>sd_data := d\<rparr>\<rparr>)"
  shows "wp (fat_write_cluster cl al bs) Q s"
proof -
  let ?c = "fctx s"
  have c: "fat_wf ?c" "sd_write (fdev s) = wr" "good (sd_data (fdev s))" "part_start ?c + part_size ?c \<le> cap"
    using assms(1) by (auto simp: fat_core_def fat_dev_def)
  note b = cluster_bounds [OF c(1) assms(2,3)]
  have u: "u64_add (caddr ?c cl) al = caddr ?c cl + al" "u64_add (caddr ?c cl + al) (length bs) = caddr ?c cl + al + length bs"
    using b(2,5) assms(4) by (auto intro!: u64_add_small)
  have "wp (device_write (caddr ?c cl + al) bs) Q s"
    using c b assms(4-6) by (intro device_write_wp) simp_all
  then show ?thesis using b(2) assms(4)
    by (simp add: fat_write_cluster_def wp_simps ctxc_def Let_def b(3,4) u)
qed

end

end
