(* ===== verification/Fat32_Chain.thy ===== *)
theory Fat32_Chain
  imports Fat32_Correct
begin

section \<open>Reading and writing cluster chains\<close>

text \<open>
  The contents of a chain is the concatenation of its clusters. Reading a range of a chain
  returns that part of the contents; writing a range replaces exactly it, after new clusters
  have been appended to the chain where it was too short.
\<close>

definition content :: "('d \<Rightarrow> nat \<Rightarrow> byte) \<Rightarrow> 'd fat_state \<Rightarrow> nat list \<Rightarrow> byte list" where
  "content view s cs = concat (map (cdata view s) cs)"

lemma content_simps [simp]:
  "content view s [] = []" "content view s (c # cs) = cdata view s c @ content view s cs"
  by (simp_all add: content_def)

lemma length_cdata [simp]: "length (cdata view s c) = cluster_size (fctx s)"
  by (simp add: cdata_def)

lemma length_content: "length (content view s cs) = cluster_size (fctx s) * length cs"
  by (induction cs) simp_all

lemma content_cong: "(\<And>c. c \<in> set cs \<Longrightarrow> cdata view t c = cdata view s c) \<Longrightarrow> content view t cs = content view s cs"
  by (induction cs) simp_all

lemma take_drop_append:
  "al \<le> length a \<Longrightarrow> k = min n (length a - al) \<Longrightarrow> take n (drop al (a @ b)) = take k (drop al a) @ take (n - k) b"
  by (simp add: min_def)

lemma splice:
  assumes "pos + length D \<le> length buf"
  shows "length (take pos buf @ D @ drop (pos + length D) buf) = length buf"
    "take (pos + length D) (take pos buf @ D @ drop (pos + length D) buf) = take pos buf @ D"
    "drop (pos + length D + j) (take pos buf @ D @ drop (pos + length D) buf) = drop (pos + length D + j) buf"
proof -
  have p: "length (take pos buf) = pos" using assms by simp
  show "length (take pos buf @ D @ drop (pos + length D) buf) = length buf" using assms p by simp
  show "take (pos + length D) (take pos buf @ D @ drop (pos + length D) buf) = take pos buf @ D"
    unfolding take_append p by simp
  show "drop (pos + length D + j) (take pos buf @ D @ drop (pos + length D) buf) = drop (pos + length D + j) buf"
    unfolding drop_append p by (simp add: add.commute)
qed

lemma put_append_low:
  assumes "na < length a" "k = min (length bs) (length a - na)"
  shows "put_bytes na bs (a @ b) = put_bytes na (take k bs) a @ put_bytes 0 (drop k bs) b"
proof (cases "length bs \<le> length a - na")
  case True
  then show ?thesis using assms by (simp add: put_bytes_def)
next
  case False
  then have k: "k = length a - na" "k \<le> length bs" "length a \<le> na + length bs" using assms by simp_all
  have "drop (na + length bs) (a @ b) = drop (length bs - k) b" using k assms(1) by (simp add: add.commute)
  moreover have "drop (na + length (take k bs)) a = []" using k assms(1) by simp
  ultimately show ?thesis using assms(1) k(2) by (simp add: put_bytes_def)
qed

lemma put_append_high: "length a \<le> na \<Longrightarrow> put_bytes na bs (a @ b) = a @ put_bytes (na - length a) bs b"
  by (simp add: put_bytes_def)

lemma put_nothing: "put_bytes na [] a = a"
  by (simp add: put_bytes_def)

text \<open>
  \<open>alike s t\<close>: the states differ at most in the table, the information sector, the hint, the lock and
  the contents of the device.
\<close>

definition alike :: "'d fat_state \<Rightarrow> 'd fat_state \<Rightarrow> bool" where
  "alike s t \<longleftrightarrow> (\<exists>f i h l d. length f = length (fat (fctx s)) \<and>
     t = s\<lparr>fctx := (fctx s)\<lparr>fat := f, fsi := i, next_free_cluster := h\<rparr>, fdev := (fdev s)\<lparr>sd_data := d\<rparr>,
       fat_allocate_cluster_lock := l\<rparr>)"

lemma alike_refl: "alike s s"
  unfolding alike_def
  by (intro exI [of _ "fat (fctx s)"] exI [of _ "fsi (fctx s)"] exI [of _ "next_free_cluster (fctx s)"]
      exI [of _ "fat_allocate_cluster_lock s"] exI [of _ "sd_data (fdev s)"]) simp

lemma alike_trans: "alike s t \<Longrightarrow> alike t u \<Longrightarrow> alike s u"
  unfolding alike_def by auto blast

lemma alike_meta: "meta_step view s t \<Longrightarrow> length (fat (fctx t)) = length (fat (fctx s)) \<Longrightarrow> alike s t"
  unfolding alike_def meta_step_def by auto blast

lemma alike_dev: "alike s (s\<lparr>fdev := (fdev s)\<lparr>sd_data := d\<rparr>\<rparr>)"
  unfolding alike_def
  by (intro exI [of _ "fat (fctx s)"] exI [of _ "fsi (fctx s)"] exI [of _ "next_free_cluster (fctx s)"]
      exI [of _ "fat_allocate_cluster_lock s"] exI [of _ d]) simp

lemma alikeD:
  assumes "alike s t"
  shows "length (fat (fctx t)) = length (fat (fctx s))" "cluster_size (fctx t) = cluster_size (fctx s)"
    "bpb (fctx t) = bpb (fctx s)" "root_dir (fctx t) = root_dir (fctx s)" "caddr (fctx t) cl = caddr (fctx s) cl"
    "entries_per_cluster (fctx t) = entries_per_cluster (fctx s)" "cluster_zero_buffer (fctx t) = cluster_zero_buffer (fctx s)"
    "cluster_buffer t = cluster_buffer s" "now t = now s" "junk t = junk s" "after_nul t = after_nul s"
  using assms by (auto simp: alike_def caddr_def)

text \<open>
  \<open>wrote view s t xs us vs na bs\<close>: the bytes \<open>bs\<close> were written from offset \<open>na\<close> on into the clusters
  \<open>us\<close>, as many as needed, out of the clusters \<open>xs\<close> of a chain and new ones, \<open>vs\<close> are the clusters behind
  them, and no other cluster has changed.
\<close>

definition free_clusters :: "nat list \<Rightarrow> nat set" where
  "free_clusters f = {i. 2 \<le> i \<and> i < length f \<and> f ! i mod 0x10000000 = 0}"

definition wrote :: "('d \<Rightarrow> nat \<Rightarrow> byte) \<Rightarrow> 'd fat_state \<Rightarrow> 'd fat_state \<Rightarrow> nat list \<Rightarrow> nat list \<Rightarrow> nat list \<Rightarrow> nat \<Rightarrow>
    byte list \<Rightarrow> bool" where
  "wrote view s t xs us vs na bs \<longleftrightarrow>
     (\<exists>new. us @ vs = xs @ new \<and> (new \<noteq> [] \<longrightarrow> vs = []) \<and> set new \<subseteq> free_clusters (fat (fctx s))) \<and>
     content view t us = put_bytes na bs (content view s us) \<and>
     na + length bs \<le> cluster_size (fctx s) * length us \<and>
     (us \<noteq> [] \<longrightarrow> cluster_size (fctx s) * (length us - 1) < na + length bs) \<and>
     (\<forall>cl. 2 \<le> cl \<longrightarrow> cl \<notin> set us \<longrightarrow> cdata view t cl = cdata view s cl)"

lemma wrote_set:
  assumes "wrote view s t ys us vs na bs" "chain (fat (fctx s)) c ys" "x \<in> set us"
  shows "2 \<le> x" "x \<in> set ys \<or> fat (fctx s) ! x mod 0x10000000 = 0"
proof -
  obtain new where n: "us @ vs = ys @ new" "set new \<subseteq> free_clusters (fat (fctx s))"
    using assms(1) by (auto simp: wrote_def)
  have "x \<in> set (us @ vs)" using assms(3) by simp
  then have "x \<in> set ys \<or> x \<in> free_clusters (fat (fctx s))" unfolding n(1) using n(2) by auto
  then show "2 \<le> x" "x \<in> set ys \<or> fat (fctx s) ! x mod 0x10000000 = 0"
    using chain_set [OF assms(2)] by (auto simp: free_clusters_def)
qed

text \<open>One cluster more in front.\<close>

lemma wrote_Cons:
  assumes w: "wrote view s1 t ys us vs na' bs'" and f: "fat (fctx s1) = fat (fctx s)"
    "cluster_size (fctx s1) = cluster_size (fctx s)"
    and y: "2 \<le> y" "y \<notin> set us" "\<And>c. c \<in> set us \<Longrightarrow> 2 \<le> c" "\<And>cl. 2 \<le> cl \<Longrightarrow> cl \<noteq> y \<Longrightarrow> cdata view s1 cl = cdata view s cl"
    and d: "0 < na + length bs" "na + length bs \<le> na' + length bs' + cluster_size (fctx s)"
      "us \<noteq> [] \<Longrightarrow> na' + length bs' + cluster_size (fctx s) \<le> na + length bs \<or> na' + length bs' = 0"
      "\<And>b. put_bytes na bs (cdata view s y @ b) = cdata view s1 y @ put_bytes na' bs' b"
  shows "wrote view s t (y # ys) (y # us) vs na bs"
proof -
  let ?cs = "cluster_size (fctx s)"
  obtain new where n: "us @ vs = ys @ new" "new \<noteq> [] \<longrightarrow> vs = []" "set new \<subseteq> free_clusters (fat (fctx s))"
    using w f by (auto simp: wrote_def)
  have c: "content view t us = put_bytes na' bs' (content view s1 us)" "na' + length bs' \<le> ?cs * length us"
      "us \<noteq> [] \<Longrightarrow> ?cs * (length us - 1) < na' + length bs'"
      "\<And>cl. 2 \<le> cl \<Longrightarrow> cl \<notin> set us \<Longrightarrow> cdata view t cl = cdata view s1 cl"
    using w f by (auto simp: wrote_def)
  have "content view s1 us = content view s us" using y by (intro content_cong) auto
  then have ct: "content view t (y # us) = put_bytes na bs (content view s (y # us))"
    using c(1,4) y(1,2) by (simp add: d(4))
  have l: "na + length bs \<le> ?cs * length (y # us)" using d(2) c(2) by simp
  have u: "?cs * (length (y # us) - 1) < na + length bs"
  proof (cases us)
    case (Cons a us')
    then have "?cs * length us' < na' + length bs'" using c(3) by simp
    then show ?thesis using Cons d(3) by auto
  qed (use d(1) in simp)
  have "\<exists>new. (y # us) @ vs = (y # ys) @ new \<and> (new \<noteq> [] \<longrightarrow> vs = []) \<and> set new \<subseteq> free_clusters (fat (fctx s))"
    using n by (intro exI [of _ new]) auto
  then show ?thesis unfolding wrote_def using ct l u c(4) y by auto
qed

lemma chain_next: "chain f c (us @ vs) \<Longrightarrow> us \<noteq> [] \<Longrightarrow> chain f (f ! last us mod 0x10000000) vs"
  by (induction us arbitrary: c) auto

lemma chain_cut:
  assumes "chain f c (us @ vs)" "us \<noteq> []" "distinct us" "length g = length f" "\<And>i. i \<in> set us \<Longrightarrow> i \<noteq> last us \<Longrightarrow> g ! i = f ! i"
    "0xFFFFFF8 \<le> g ! last us mod 0x10000000"
  shows "chain g c us"
  using assms
proof (induction us arbitrary: c)
  case (Cons u us)
  show ?case
  proof (cases "us = []")
    case True
    then show ?thesis using Cons.prems by auto
  next
    case False
    then have l: "last (u # us) = last us" "u \<noteq> last us" using Cons.prems(3) by auto
    have "chain g (f ! u mod 0x10000000) us"
      by (rule Cons.IH) (use False Cons.prems l in auto)
    moreover have "g ! u = f ! u" using Cons.prems(5) [of u] l by simp
    ultimately show ?thesis using Cons.prems(1,4) by auto
  qed
qed simp

text \<open>The search for a free cluster starts at a cluster of the volume.\<close>

definition hint_ok :: "'d fat_state \<Rightarrow> bool" where
  "hint_ok s \<longleftrightarrow> 2 \<le> next_free_cluster (fctx s) \<and> next_free_cluster (fctx s) \<le> length (fat (fctx s))"

text \<open>
  What a write of \<open>n\<close> bytes at offset \<open>na\<close> of a chain needs of the device: that it stores every range,
  or that the write covers whole sectors and the device stores those.
\<close>

definition writes_ok :: "(nat \<Rightarrow> nat \<Rightarrow> bool) \<Rightarrow> nat \<Rightarrow> nat \<Rightarrow> bool" where
  "writes_ok w na n \<longleftrightarrow> (\<forall>a m. w a m) \<or>
     512 dvd na \<and> 512 dvd n \<and> (\<forall>a m. 512 dvd a \<longrightarrow> 512 dvd m \<longrightarrow> w a m)"

lemma writes_okD:
  assumes "writes_ok w na n" "512 dvd a" "512 dvd c" "m = n \<or> m = c - na"
  shows "w (a + na) m"
proof -
  have "512 dvd m" if "512 dvd na" "512 dvd n" using assms(3,4) that by (metis dvd_diff_nat)
  moreover have "512 dvd a + na" if "512 dvd na" using assms(2) that by (rule dvd_add)
  ultimately show ?thesis using assms(1) unfolding writes_ok_def by blast
qed

lemma writes_ok_rest:
  assumes "writes_ok w na n" "512 dvd c" "m = n \<or> m = c - na"
  shows "writes_ok w 0 (n - m)"
proof -
  have "512 dvd n - m" if "512 dvd na" "512 dvd n" using assms(2,3) that by (metis dvd_diff_nat)
  then show ?thesis using assms(1) unfolding writes_ok_def by blast
qed

lemma writes_ok_skip:
  assumes "writes_ok w na n" "512 dvd c"
  shows "writes_ok w (na - c) n"
proof -
  have "512 dvd na - c" if "512 dvd na" using that assms(2) by (rule dvd_diff_nat)
  then show ?thesis using assms(1) unfolding writes_ok_def by blast
qed

text \<open>
  \<open>chain_written view s t c xs ws na bs\<close>: the chain that starts at \<open>c\<close> consisted of \<open>xs\<close> in \<open>s\<close> and consists of
  \<open>ws\<close> in \<open>t\<close>, which are a prefix of \<open>xs\<close> or \<open>xs\<close> followed by clusters that were free; the bytes
  \<open>bs\<close> are stored from offset \<open>na\<close> on, and neither another cluster nor its table entry has changed.
\<close>

definition chain_written :: "('d \<Rightarrow> nat \<Rightarrow> byte) \<Rightarrow> 'd fat_state \<Rightarrow> 'd fat_state \<Rightarrow> nat \<Rightarrow> nat list \<Rightarrow> nat list \<Rightarrow> nat \<Rightarrow>
    byte list \<Rightarrow> bool" where
  "chain_written view s t c xs ws na bs \<longleftrightarrow>
     chain (fat (fctx t)) c ws \<and> take (length xs) ws = take (length ws) xs \<and>
     set (drop (length xs) ws) \<subseteq> free_clusters (fat (fctx s)) \<and>
     content view t ws = put_bytes na bs (content view s ws) \<and>
     na + length bs \<le> cluster_size (fctx s) * length ws \<and>
     (\<forall>cl. 2 \<le> cl \<longrightarrow> cl \<notin> set ws \<longrightarrow> cdata view t cl = cdata view s cl) \<and>
     (\<forall>i < length (fat (fctx s)). i \<notin> set xs \<longrightarrow> i \<notin> set ws \<longrightarrow> fat (fctx t) ! i = fat (fctx s) ! i)"

lemma content_append: "content view s (us @ vs) = content view s us @ content view s vs"
  by (simp add: content_def)

lemma put_bytes_prefix: "na + length bs \<le> length a \<Longrightarrow> put_bytes na bs (a @ b) = put_bytes na bs a @ b"
  by (simp add: put_bytes_def)

lemma set_new: "us @ vs = xs @ new \<Longrightarrow> new = [] \<or> vs = [] \<Longrightarrow> take (length xs) us = take (length us) xs \<and> set (drop (length xs) us) \<subseteq> set new"
  by (auto simp: append_eq_append_conv2 dest: in_set_dropD)

context fat_store
begin

lemma core_dev: "core s \<Longrightarrow> good d \<Longrightarrow> view d = view (sd_data (fdev s)) \<Longrightarrow> core (s\<lparr>fdev := (fdev s)\<lparr>sd_data := d\<rparr>\<rparr>)"
  by (simp add: fat_core_def fat_dev_def mirrored_def disk_def)

lemma cdata_dev: "view d = view (sd_data (fdev s)) \<Longrightarrow> cdata view (s\<lparr>fdev := (fdev s)\<lparr>sd_data := d\<rparr>\<rparr>) = cdata view s"
  by (rule ext) (simp add: cdata_def disk_def)

lemma content_dev: "view d = view (sd_data (fdev s)) \<Longrightarrow> content view (s\<lparr>fdev := (fdev s)\<lparr>sd_data := d\<rparr>\<rparr>) = content view s"
  by (rule ext) (simp add: content_def cdata_dev)

text \<open>\<open>reread s t\<close>: nothing has changed but the private data of the device.\<close>

abbreviation reread where
  "reread s t \<equiv> \<exists>d. good d \<and> view d = view (sd_data (fdev s)) \<and> t = s\<lparr>fdev := (fdev s)\<lparr>sd_data := d\<rparr>\<rparr>"

lemma reread_trans: "reread s t \<Longrightarrow> reread t u \<Longrightarrow> reread s u"
  by auto

lemma read_chain_loop_wp:
  assumes "core s" "chain (fat (fctx s)) c cs" "al + sz < n" "al > 0 \<Longrightarrow> str = 0" "pos + sz \<le> length buf"
    "al < 2 ^ 32" "acc + sz < 2 ^ 63"
  shows "wp (read_chain_loop n c al sz str pos acc buf) (\<lambda>(e, r, b) t. reread s t \<and> e = EOK \<and>
      r = acc + length (take sz (drop al (content view s cs))) \<and>
      b = take pos buf @ take sz (drop al (content view s cs)) @ drop (pos + length (take sz (drop al (content view s cs)))) buf) s"
  using assms
proof (induction cs arbitrary: s c al sz n str pos buf acc)
  case Nil
  have g: "good (sd_data (fdev s))" using Nil.prems(1) by (simp add: fat_core_def fat_dev_def)
  have "reread s s" using g by (intro exI [of _ "sd_data (fdev s)"]) simp
  then show ?case using Nil.prems by (cases n) (auto simp: wp_simps end_of_chain_def)
next
  case (Cons x xs)
  have g: "good (sd_data (fdev s))" using Cons.prems(1) by (simp add: fat_core_def fat_dev_def)
  have rr: "reread s s" using g by (intro exI [of _ "sd_data (fdev s)"]) simp
  obtain m where n: "n = Suc m" using Cons.prems(3) by (cases n) auto
  let ?cs = "cluster_size (fctx s)"
  have wf: "fat_wf (fctx s)" using Cons.prems(1) by (simp add: fat_core_def fat_dev_def)
  have cx: "c = x" "\<not> end_of_chain c" "2 \<le> c" "c < length (fat (fctx s))"
      "chain (fat (fctx s)) (fat (fctx s) ! c mod 0x10000000) xs" using Cons.prems(2) by auto
  show ?case
  proof (cases "sz = 0")
    case True
    then show ?thesis using rr by (simp add: n wp_simps)
  next
    case sz: False
    show ?thesis
    proof (cases "al < ?cs")
      case True
      define k where "k = min sz (?cs - al)"
      have k: "0 < k" "k \<le> sz" "al + k \<le> ?cs" using sz True by (auto simp: k_def)
      have csb: "?cs < 9223372036854775808" using cluster_bounds(2,5) [OF wf cx(3,4)] by simp
      have p: "al < 4294967296" "acc + sz < 9223372036854775808" using Cons.prems(6,7) by simp_all
      have str: "(if u64_add al sz > ?cs then u64_sub ?cs al else sz) = k"
      proof -
        have "u64_add al sz = al + sz" using p by (intro u64_add_small) linarith
        moreover have "u64_sub ?cs al = ?cs - al" using True csb by (intro u64_sub_small) linarith+
        ultimately show ?thesis using sz True by (auto simp: k_def)
      qed
      have szk: "u64_sub sz k = sz - k" using k p by (intro u64_sub_small) linarith+
      have acck: "u64_add acc k = acc + k" using k p by (intro u64_add_small) linarith
      define D where "D = take k (drop al (cdata view s x))"
      have D: "length D = k" using k by (simp add: D_def)
      let ?b = "take pos buf @ D @ drop (pos + k) buf"
      have pk: "pos + length D \<le> length buf" using Cons.prems(5) k D by simp
      note sp = splice [OF pk, unfolded D]
      have td: "take sz (drop al (cdata view s x @ content view s xs)) =
          D @ take (sz - k) (content view s xs)"
        unfolding D_def by (rule take_drop_append) (use True in \<open>simp_all add: k_def\<close>)
      have step: "wp (read_chain_loop m (fat (fctx s) ! c mod 0x10000000) 0 (sz - k) k (pos + k) (acc + k) ?b)
          (\<lambda>(e, r, b) t. reread s t \<and> e = EOK \<and> r = acc + length (take sz (drop al (content view s (x # xs)))) \<and>
            b = take pos buf @ take sz (drop al (content view s (x # xs))) @
              drop (pos + length (take sz (drop al (content view s (x # xs))))) buf) s1"
        if s1: "s1 = s\<lparr>fdev := (fdev s)\<lparr>sd_data := d\<rparr>\<rparr>" "good d" "view d = view (sd_data (fdev s))" for s1 d
      proof -
        have f1: "fctx s1 = fctx s" by (simp add: s1)
        have ih: "wp (read_chain_loop m (fat (fctx s) ! c mod 0x10000000) 0 (sz - k) k (pos + k) (acc + k) ?b)
            (\<lambda>(e, r, b) t. reread s1 t \<and> e = EOK \<and> r = acc + k + length (take (sz - k) (drop 0 (content view s1 xs))) \<and>
              b = take (pos + k) ?b @ take (sz - k) (drop 0 (content view s1 xs)) @
                drop (pos + k + length (take (sz - k) (drop 0 (content view s1 xs)))) ?b) s1"
          using Cons.prems k sp(1) cx(5) n core_dev [OF Cons.prems(1) s1(2,3), folded s1(1)]
          by (intro Cons.IH) (simp_all add: f1)
        have ct: "content view s1 xs = content view s xs" by (simp add: s1 content_dev)
        have "reread s t" if "reread s1 t" for t using that s1 by auto
        with ih show ?thesis
          unfolding ct sp(2,3) drop_0 content_simps td length_append D
          by (elim wp_mono) (auto simp: add.assoc simp del: length_take)
      qed
      have sz0: "0 < sz" using sz by simp
      have b0: "take pos buf @ take k (drop al (cdata view s c)) @ drop k (drop pos buf) = ?b"
        by (simp add: D_def cx(1) add.commute)
      show ?thesis
        unfolding n
        apply (simp add: wp_simps sz0 cx(2) ctxc_def True str Let_def del: content_simps length_take length_drop)
        apply (rule fat_read_cluster_wp [OF Cons.prems(1) cx(3,4) k(3)])
         apply (use Cons.prems(5) k in simp)
        apply (simp add: wp_simps wp_get_next cx(4) szk acck b0 del: content_simps length_take length_drop drop_drop)
        apply (rule step, rule refl, assumption+)
        done
    next
      case False
      have str: "str = 0" using Cons.prems(4) False fat_wfD(5) [OF wf] by simp
      have p: "al < 4294967296" "acc + sz < 9223372036854775808" using Cons.prems(6,7) by simp_all
      have u: "u32 (u64_sub al ?cs) = al - ?cs" "u64_sub sz 0 = sz" "u64_add acc 0 = acc"
        using False p by (simp_all add: u64_sub_small u64_add_small)
      have sz0: "0 < sz" using sz by simp
      have "wp (read_chain_loop m (fat (fctx s) ! c mod 0x10000000) (al - ?cs) sz 0 pos acc buf)
          (\<lambda>(e, r, b) t. reread s t \<and> e = EOK \<and> r = acc + length (take sz (drop (al - ?cs) (content view s xs))) \<and>
            b = take pos buf @ take sz (drop (al - ?cs) (content view s xs)) @
              drop (pos + length (take sz (drop (al - ?cs) (content view s xs)))) buf) s"
        using Cons.prems cx(5) n False fat_wfD(5) [OF wf] by (intro Cons.IH) simp_all
      moreover have "drop al (content view s (x # xs)) = drop (al - ?cs) (content view s xs)" using False by simp
      ultimately show ?thesis
        unfolding n
        by (simp add: wp_simps sz0 cx(2,4) ctxc_def False str u wp_get_next del: content_simps length_take length_drop)
    qed
  qed
qed

text \<open>Reading a range of a chain returns the part of the contents, and its length.\<close>

lemma fat_read_cluster_chain_wp:
  assumes "core s" "chain (fat (fctx s)) c cs" "sz \<le> length buf" "al < 2 ^ 32" "sz < 2 ^ 63"
  shows "wp (fat_read_cluster_chain c al sz buf) (\<lambda>(e, r, b) t. reread s t \<and> e = EOK \<and>
      r = length (take sz (drop al (content view s cs))) \<and>
      b = take sz (drop al (content view s cs)) @ drop r buf) s"
proof -
  have u: "u32 al = al" using assms(4) by simp
  show ?thesis
    unfolding fat_read_cluster_chain_def u
    by (rule wp_mono, rule read_chain_loop_wp [OF assms(1,2)])
      (use assms(3-5) in \<open>auto simp del: length_take length_drop\<close>)
qed

subsection \<open>Writing\<close>

lemma write_effect:
  assumes "core s" "2 \<le> cl" "cl < length (fat (fctx s))" "na + length bs \<le> cluster_size (fctx s)" "good d"
    "view d = store (caddr (fctx s) cl + na) bs (disk view s)" "t = s\<lparr>fdev := (fdev s)\<lparr>sd_data := d\<rparr>\<rparr>"
  shows "core t" "cdata view t cl = put_bytes na bs (cdata view s cl)"
    "2 \<le> cl' \<Longrightarrow> cl' \<noteq> cl \<Longrightarrow> cdata view t cl' = cdata view s cl'"
proof -
  let ?c = "fctx s"
  have wf: "fat_wf ?c" using assms(1) by (simp add: fat_core_def fat_dev_def)
  have dt: "disk view t = store (caddr ?c cl + na) bs (disk view s)" by (simp add: assms(6,7) disk_def)
  have ft: "fctx t = ?c" by (simp add: assms(7))
  have g: "fat1_position ?c + 4 * length (fat ?c) \<le> first_usable_lba ?c * 512"
      "fat2_position ?c + 4 * length (fat ?c) \<le> first_usable_lba ?c * 512" using wf by (auto simp: fat_wf_def)
  have "part_start ?c + first_usable_lba ?c * 512 \<le> caddr ?c cl" by (simp add: caddr_def)
  then have "mirrored view t"
    unfolding mirrored_def dt using assms(1) g
    by (intro conjI table_other) (simp_all add: assms(7) fat_core_def mirrored_def)
  then show "core t" using assms(1,5) by (simp add: fat_core_def fat_dev_def assms(7))
  show "cdata view t cl = put_bytes na bs (cdata view s cl)"
    using assms(4) by (intro nth_equalityI) (auto simp: ft cdata_def dt store_def nth_put_bytes)
  show "cdata view t cl' = cdata view s cl'" if "2 \<le> cl'" "cl' \<noteq> cl"
  proof -
    have "caddr ?c cl' + cluster_size ?c \<le> caddr ?c cl \<or> caddr ?c cl + cluster_size ?c \<le> caddr ?c cl'"
      using that caddr_apart [OF wf, of cl' cl] caddr_apart [OF wf, of cl cl'] assms(2) by linarith
    then have "load (caddr ?c cl') (cluster_size ?c) (store (caddr ?c cl + na) bs (disk view s)) =
        load (caddr ?c cl') (cluster_size ?c) (disk view s)"
      using assms(4) by (intro load_store_other) linarith
    then show ?thesis by (simp add: cdata_def dt ft)
  qed
qed

definition write_pre where
  "write_pre n s cur nxt xs na k bs acc \<longleftrightarrow> finv s \<and> hint_ok s \<and> chain (fat (fctx s)) nxt xs \<and>
     (xs = [] \<longrightarrow> 2 \<le> cur \<and> cur < length (fat (fctx s)) \<and> fat (fctx s) ! cur mod 0x10000000 = nxt) \<and>
     na + length bs < n \<and> (0 < na \<longrightarrow> k = 0) \<and> na < 2 ^ 32 \<and> acc + length bs < 2 ^ 63 \<and>
     writes_ok writable na (length bs)"

definition advance_post where
  "advance_post s y ys na bs acc r t \<longleftrightarrow> finv t \<and> hint_ok t \<and> alike s t \<and>
     (case r of Inl _ \<Rightarrow> first_free (fat (fctx t)) (next_free_cluster (fctx t)) = None
      | Inr (cur', nxt', k', acc') \<Rightarrow> acc' = acc + length bs \<and>
         (\<exists>us vs. wrote view s t (y # ys) (y # us) vs na bs \<and> cur' = last (y # us) \<and>
            nxt' = fat (fctx t) ! cur' mod 0x10000000 \<and> chain (fat (fctx t)) y (y # us @ vs) \<and>
            (\<forall>i < length (fat (fctx s)). i \<notin> set (y # us) \<longrightarrow> fat (fctx t) ! i = fat (fctx s) ! i)))"

definition write_post where
  "write_post s cur nxt xs na bs acc r t \<longleftrightarrow> finv t \<and> hint_ok t \<and> alike s t \<and>
     (case r of Inl _ \<Rightarrow> first_free (fat (fctx t)) (next_free_cluster (fctx t)) = None
      | Inr (cur', nxt', k', acc') \<Rightarrow> acc' = acc + length bs \<and>
         (\<exists>us vs. wrote view s t xs us vs na bs \<and> cur' = last (cur # us) \<and>
            nxt' = (if us = [] then nxt else fat (fctx t) ! cur' mod 0x10000000) \<and>
            chain (fat (fctx t)) (if xs = [] \<and> us \<noteq> [] then fat (fctx t) ! cur mod 0x10000000 else nxt) (us @ vs) \<and>
            (\<forall>i < length (fat (fctx s)). i \<notin> set us \<and> \<not> (i = cur \<and> xs = [] \<and> us \<noteq> []) \<longrightarrow>
               fat (fctx t) ! i = fat (fctx s) ! i)))"

lemma advance_step:
  assumes post: "write_post s1 y (fat (fctx s) ! y mod 0x10000000) ys na' bs' acc' r t"
    and s1: "fctx s1 = fctx s" "alike s s1" "\<And>cl. 2 \<le> cl \<Longrightarrow> cl \<noteq> y \<Longrightarrow> cdata view s1 cl = cdata view s cl"
    and y: "2 \<le> y" "y < length (fat (fctx s))" "chain (fat (fctx s)) y (y # ys)"
    and d: "0 < na + length bs" "na + length bs \<le> na' + length bs' + cluster_size (fctx s)"
      "na' + length bs' + cluster_size (fctx s) \<le> na + length bs \<or> na' + length bs' = 0"
      "\<And>b. put_bytes na bs (cdata view s y @ b) = cdata view s1 y @ put_bytes na' bs' b"
      "acc' + length bs' = acc + length bs"
  shows "advance_post s y ys na bs acc r t"
proof (cases r)
  case (Inl e)
  then show ?thesis using post alike_trans [OF s1(2)] by (simp add: write_post_def advance_post_def)
next
  case (Inr q)
  obtain cur' nxt' k' a' where q: "q = (cur', nxt', k', a')" by (cases q)
  let ?f = "fat (fctx s)" let ?nx = "?f ! y mod 0x10000000"
  obtain us vs where w: "wrote view s1 t ys us vs na' bs'" "cur' = last (y # us)"
      "nxt' = (if us = [] then ?nx else fat (fctx t) ! cur' mod 0x10000000)"
      "chain (fat (fctx t)) (if ys = [] \<and> us \<noteq> [] then fat (fctx t) ! y mod 0x10000000 else ?nx) (us @ vs)"
      "\<forall>i < length ?f. i \<notin> set us \<and> \<not> (i = y \<and> ys = [] \<and> us \<noteq> []) \<longrightarrow> fat (fctx t) ! i = ?f ! i"
    and t: "finv t" "hint_ok t" "alike s1 t" "a' = acc' + length bs'"
    using post by (auto simp: write_post_def Inr q s1(1))
  have ch: "chain ?f ?nx ys" and ne: "\<not> end_of_chain y" using y(3) by auto
  have nz: "?nx \<noteq> 0" using ch by (cases ys) auto
  have yd: "y \<notin> set ys" using chain_distinct [OF y(3)] by simp
  have yus: "y \<notin> set us" using wrote_set(2) [OF w(1), of ?nx y] ch yd nz by (auto simp: s1(1))
  have us2: "2 \<le> c" if "c \<in> set us" for c using wrote_set(1) [OF w(1) _ that, of ?nx] ch by (simp add: s1(1))
  have wr: "wrote view s t (y # ys) (y # us) vs na bs"
    using d yus us2 y(1) s1(1,3) by (intro wrote_Cons [OF w(1)]) auto
  have fy: "fat (fctx t) ! y mod 0x10000000 = ?nx" if "\<not> (ys = [] \<and> us \<noteq> [])"
    using w(5) y(2) yus that by auto
  have lt: "y < length (fat (fctx t))" using alikeD(1) [OF t(3)] y(2) by (simp add: s1(1))
  have chy: "chain (fat (fctx t)) y (y # us @ vs)"
    using w(4) fy ne y(1) lt by (auto split: if_splits)
  have nx: "nxt' = fat (fctx t) ! cur' mod 0x10000000"
    using w(2,3,4) fy by (cases "us = []") auto
  have fr: "\<forall>i < length ?f. i \<notin> set (y # us) \<longrightarrow> fat (fctx t) ! i = ?f ! i" using w(5) by auto
  show ?thesis
    unfolding advance_post_def Inr q sum.case prod.case
    by (intro conjI exI [of _ us] exI [of _ vs] t wr w(2) nx chy fr alike_trans [OF s1(2) t(3)]) (simp add: t(4) d(5))
qed

lemma finv_core: "finv s \<Longrightarrow> core s"
  by (simp add: fat_inv_def)

lemma write_advance:
  assumes IH: "\<And>s cur nxt xs na k bs acc. write_pre n s cur nxt xs na k bs acc \<Longrightarrow>
      wp (write_chain_loop n cur nxt na k bs acc) (write_post s cur nxt xs na bs acc) s"
    and s: "finv s" "hint_ok s" and y: "2 \<le> y" "y < length (fat (fctx s))" "chain (fat (fctx s)) y (y # ys)"
    and b: "na + length bs < Suc n" "0 < na \<longrightarrow> k = 0" "na < 2 ^ 32" "acc + length bs < 2 ^ 63" "0 < na + length bs"
    and wok: "writes_ok writable na (length bs)"
  shows "wp (bindc (ctxc cluster_size) (\<lambda>cs.
      bindc
        (if na < cs then
           let size_to_write = (if u64_add na (length bs) > cs then u64_sub cs na else length bs) in
           bindc (if size_to_write \<noteq> 0 then fat_write_cluster y (u32 na) (take size_to_write bs) else ret EOK) (\<lambda>e.
           seqc (assertc (e = EOK))
          (ret (size_to_write, 0)))
         else ret (k, u64_sub na cs))
        (\<lambda>(size_to_write, next_alignement).
      bindc (fat_get_next_cluster y) (\<lambda>next_cluster.
      write_chain_loop n y next_cluster next_alignement size_to_write
        (drop size_to_write bs) (u64_add acc size_to_write))))) (advance_post s y ys na bs acc) s"
proof -
  let ?cs = "cluster_size (fctx s)"
  have wf: "fat_wf (fctx s)" using s(1) by (simp add: fat_inv_def fat_core_def fat_dev_def)
  have cs: "0 < ?cs" "?cs < 9223372036854775808"
    using fat_wfD(5) [OF wf] cluster_bounds(2,5) [OF wf y(1,2)] by simp_all
  have p: "na < 4294967296" "acc + length bs < 9223372036854775808" using b(3,4) by simp_all
  have ch: "chain (fat (fctx s)) (fat (fctx s) ! y mod 0x10000000) ys" using y(3) by simp
  have ca: "512 dvd caddr (fctx s) y" and cd: "512 dvd ?cs" using wf by (auto simp: fat_wf_def caddr_def)
  show ?thesis
  proof (cases "na < ?cs")
    case True
    define m where "m = min (length bs) (?cs - na)"
    have m: "m \<le> length bs" "na + m \<le> ?cs" "m = 0 \<longrightarrow> bs = []" using True by (auto simp: m_def min_def split: if_splits)
    have st: "(if u64_add na (length bs) > ?cs then u64_sub ?cs na else length bs) = m"
    proof -
      have "u64_add na (length bs) = na + length bs" using p by (intro u64_add_small) linarith
      moreover have "u64_sub ?cs na = ?cs - na" using True cs by (intro u64_sub_small) linarith+
      ultimately show ?thesis using True by (auto simp: m_def)
    qed
    have mc: "m = length bs \<or> m = ?cs - na" by (auto simp: m_def min_def)
    have wm: "writable (caddr (fctx s) y + na) (length (take m bs))" using writes_okD [OF wok ca cd mc] m(1) by (simp add: min.absorb2)
    have u: "u32 na = na" "u64_add acc m = acc + m" using p m(1) by (simp_all add: u64_add_small)
    have step: "wp (write_chain_loop n y (fat (fctx s) ! y mod 0x10000000) 0 m (drop m bs) (acc + m)) (advance_post s y ys na bs acc) s1"
      if s1: "core s1" "fctx s1 = fctx s" "alike s s1" "\<not> fat_allocate_cluster_lock s1"
        "\<And>cl. 2 \<le> cl \<Longrightarrow> cl \<noteq> y \<Longrightarrow> cdata view s1 cl = cdata view s cl"
        "cdata view s1 y = put_bytes na (take m bs) (cdata view s y)" for s1
    proof -
      have f: "finv s1" "hint_ok s1" using s1(1,2,4) s(2) by (auto simp: fat_inv_def hint_ok_def)
      have "write_pre n s1 y (fat (fctx s) ! y mod 0x10000000) ys 0 m (drop m bs) (acc + m)"
      proof -
        have "0 + length (drop m bs) < n" "acc + m + length (drop m bs) < 2 ^ 63" using b(1,5) m(1,3) p(2) by (cases "m = 0"; simp)+
        then show ?thesis
          unfolding write_pre_def s1(2) using f y(1,2) ch writes_ok_rest [OF wok cd mc] by simp
      qed
      then have "wp (write_chain_loop n y (fat (fctx s) ! y mod 0x10000000) 0 m (drop m bs) (acc + m))
          (write_post s1 y (fat (fctx s) ! y mod 0x10000000) ys 0 (drop m bs) (acc + m)) s1" by (rule IH)
      then show ?thesis
      proof (rule wp_mono)
        fix r t assume post: "write_post s1 y (fat (fctx s) ! y mod 0x10000000) ys 0 (drop m bs) (acc + m) r t"
        have pb: "put_bytes na bs (cdata view s y @ z) = cdata view s1 y @ put_bytes 0 (drop m bs) z" for z
          unfolding s1(6) by (rule put_append_low) (use True m_def in simp_all)
        show "advance_post s y ys na bs acc r t"
          by (rule advance_step [OF post s1(2,3,5) y b(5) _ _ pb]) (use m(1) True in \<open>auto simp: m_def min_def\<close>)
      qed
    qed
    show ?thesis
    proof (cases "m = 0")
      case m0: True
      have "wp (write_chain_loop n y (fat (fctx s) ! y mod 0x10000000) 0 m (drop m bs) (acc + m)) (advance_post s y ys na bs acc) s"
        using s(1) by (intro step) (auto simp: m0 put_nothing fat_inv_def alike_refl)
      moreover have "u64_add acc 0 = acc" using u(2) m0 by simp
      ultimately show ?thesis using True y(2) by (simp add: wp_simps ctxc_def Let_def st u wp_get_next m0)
    next
      case False
      show ?thesis
        using True y(2) False
        apply (simp add: wp_simps ctxc_def Let_def st u wp_get_next)
        apply (rule fat_write_cluster_wp [OF finv_core [OF s(1)] y(1,2)])
          apply (use m in simp)
         apply (use wm in simp)
        subgoal for d
          using write_effect [OF finv_core [OF s(1)] y(1,2), of na "take m bs" d "s\<lparr>fdev := (fdev s)\<lparr>sd_data := d\<rparr>\<rparr>"] m(1,2) y(2) s(1)
          by (simp add: wp_get_next wp_simps u) (intro step, simp_all add: fat_inv_def alike_dev)
        done
    qed
  next
    case False
    have k: "k = 0" "na \<noteq> 0" using b(2) False cs by auto
    have u: "u64_sub na ?cs = na - ?cs" "u64_add acc 0 = acc" using False p by (simp_all add: u64_sub_small u64_add_small)
    have "write_pre n s y (fat (fctx s) ! y mod 0x10000000) ys (na - ?cs) 0 bs acc"
    proof -
      have "na - ?cs + length bs < n" "na - ?cs < 2 ^ 32" using b(1,3) False cs by simp_all
      then show ?thesis unfolding write_pre_def using s y(1,2) ch b(4) writes_ok_skip [OF wok cd] by simp
    qed
    then have "wp (write_chain_loop n y (fat (fctx s) ! y mod 0x10000000) (na - ?cs) 0 bs acc)
        (write_post s y (fat (fctx s) ! y mod 0x10000000) ys (na - ?cs) bs acc) s" by (rule IH)
    then have "wp (write_chain_loop n y (fat (fctx s) ! y mod 0x10000000) (na - ?cs) 0 bs acc) (advance_post s y ys na bs acc) s"
    proof (rule wp_mono)
      fix r t assume post: "write_post s y (fat (fctx s) ! y mod 0x10000000) ys (na - ?cs) bs acc r t"
      have pb: "put_bytes na bs (cdata view s y @ z) = cdata view s y @ put_bytes (na - ?cs) bs z" for z
        using False put_append_high [of "cdata view s y" na bs z] by simp
      show "advance_post s y ys na bs acc r t"
        by (rule advance_step [OF post refl alike_refl refl y b(5) _ _ pb]) (use False in simp_all)
    qed
    then show ?thesis using False y(2) by (simp add: wp_simps ctxc_def wp_get_next k u)
  qed
qed

lemma advance_old:
  assumes "advance_post s y ys na bs acc r t"
  shows "write_post s cur y (y # ys) na bs acc r t"
proof (cases r)
  case (Inl e)
  then show ?thesis using assms by (simp add: advance_post_def write_post_def)
next
  case (Inr q)
  obtain cur' nxt' k' a' where q: "q = (cur', nxt', k', a')" by (cases q)
  obtain us vs where w: "wrote view s t (y # ys) (y # us) vs na bs" "cur' = last (y # us)"
      "nxt' = fat (fctx t) ! cur' mod 0x10000000" "chain (fat (fctx t)) y (y # us @ vs)"
      "\<forall>i < length (fat (fctx s)). i \<notin> set (y # us) \<longrightarrow> fat (fctx t) ! i = fat (fctx s) ! i"
    and t: "finv t" "hint_ok t" "alike s t" "a' = acc + length bs"
    using assms by (auto simp: advance_post_def Inr q)
  show ?thesis unfolding write_post_def Inr q sum.case prod.case
    by (intro conjI exI [of _ "y # us"] exI [of _ vs] t w(1)) (use w(2-5) in simp_all)
qed

definition grown where
  "grown s cur j t \<longleftrightarrow> finv t \<and> hint_ok t \<and> meta_step view s t \<and> j \<in> free_clusters (fat (fctx s)) \<and> j < 0xFFFFFF8 \<and>
     fat (fctx t) = (fat (fctx s))[j := next_entry (fat (fctx s) ! j) END_OF_CLUSTERCHAIN, cur := next_entry (fat (fctx s) ! cur) j]"

lemma grow_wp:
  assumes s: "finv s" "hint_ok s" and cur: "cur < length (fat (fctx s))" "fat (fctx s) ! cur mod 0x10000000 \<noteq> 0"
    and none: "first_free (fat (fctx s)) (next_free_cluster (fctx s)) = None \<Longrightarrow> Q None s"
    and some: "\<And>j t. grown s cur j t \<Longrightarrow> Q (Some j) t"
  shows "wp (bindc fat_allocate_cluster (\<lambda>r. case r of
               Inl _ \<Rightarrow> ret None
             | Inr c \<Rightarrow> bindc (fat_set_next_cluster cur c) (\<lambda>_. ret (Some c)))) Q s"
proof -
  have h: "next_free_cluster (fctx s) \<le> length (fat (fctx s))" using s(2) by (simp add: hint_ok_def)
  have wf: "fat_wf (fctx s)" using s(1) by (simp add: fat_inv_def fat_core_def fat_dev_def)
  show ?thesis unfolding wp_simps
  proof (rule wp_mono [OF fat_allocate_cluster_wp [OF s(1) h]])
    fix r t assume r: "case first_free (fat (fctx s)) (next_free_cluster (fctx s)) of
      None \<Rightarrow> r = Inl EINVAL \<and> t = s
    | Some j \<Rightarrow> r = Inr j \<and> finv t \<and> meta_step view s t \<and> next_free_cluster (fctx t) = j \<and>
        fat (fctx t) = (fat (fctx s))[j := next_entry (fat (fctx s) ! j) END_OF_CLUSTERCHAIN]"
    show "wp (case r of Inl _ \<Rightarrow> ret None | Inr c \<Rightarrow> bindc (fat_set_next_cluster cur c) (\<lambda>_. ret (Some c))) Q t"
    proof (cases "first_free (fat (fctx s)) (next_free_cluster (fctx s))")
      case None
      then show ?thesis using r none by (simp add: wp_simps)
    next
      case (Some j)
      then have t: "r = Inr j" "finv t" "meta_step view s t" "next_free_cluster (fctx t) = j"
        "fat (fctx t) = (fat (fctx s))[j := next_entry (fat (fctx s) ! j) END_OF_CLUSTERCHAIN]" using r by simp_all
      have j: "2 \<le> j" "j < length (fat (fctx s))" "fat (fctx s) ! j mod 0x10000000 = 0"
        using first_free_Some [OF Some] s(2) by (auto simp: hint_ok_def)
      then have j': "j \<in> free_clusters (fat (fctx s))" "j < 0xFFFFFF8" "cur \<noteq> j"
        using cur(2) wf by (auto simp: free_clusters_def fat_wf_def)
      have l: "cur < length (fat (fctx t))" using cur(1) t(5) by simp
      show ?thesis unfolding t(1) sum.case wp_simps
      proof (rule wp_mono [OF fat_set_next_cluster_wp [OF finv_core [OF t(2)] l]], elim conjE)
        fix e u assume u: "core u" "meta_step view t u" "fctx u = (fctx t)\<lparr>fat := (fat (fctx t))[cur := next_entry (fat (fctx t) ! cur) j]\<rparr>"
          "fat_allocate_cluster_lock u = fat_allocate_cluster_lock t"
        have "finv u" using t(2) u(1,4) by (simp add: fat_inv_def)
        moreover have "hint_ok u" using j by (simp add: hint_ok_def u(3) t(4,5))
        ultimately have "grown s cur j u"
          using meta_step_trans [OF t(3) u(2)] j' by (simp add: grown_def u(3) t(5))
        then show "Q (Some j) u" by (rule some)
      qed
    qed
  qed
qed

lemma grown_chain:
  assumes "grown s cur j t" "fat (fctx s) ! cur mod 0x10000000 \<noteq> 0"
  shows "2 \<le> j" "j < length (fat (fctx t))" "chain (fat (fctx t)) j [j]"
proof -
  have "j \<noteq> cur" using assms by (auto simp: grown_def free_clusters_def)
  then show "2 \<le> j" "j < length (fat (fctx t))" "chain (fat (fctx t)) j [j]"
    using assms(1) by (auto simp: grown_def free_clusters_def end_of_chain_def END_OF_CLUSTERCHAIN_def)
qed

lemma advance_new:
  assumes g: "grown s cur j s2" and cur: "2 \<le> cur" "cur < length (fat (fctx s))" "fat (fctx s) ! cur mod 0x10000000 \<noteq> 0"
    and post: "advance_post s2 j [] na bs acc r t"
  shows "write_post s cur nxt [] na bs acc r t"
proof -
  let ?f = "fat (fctx s)" let ?f2 = "fat (fctx s2)"
  have j: "2 \<le> j" "j < length ?f" "?f ! j mod 0x10000000 = 0" "j < 0xFFFFFF8" "j \<noteq> cur"
    and m: "meta_step view s s2"
    and f2: "?f2 = ?f[j := next_entry (?f ! j) END_OF_CLUSTERCHAIN, cur := next_entry (?f ! cur) j]"
    using g cur(3) by (auto simp: grown_def free_clusters_def)
  have len: "length ?f2 = length ?f" by (simp add: f2)
  have al: "alike s s2" using alike_meta [OF m len] .
  have f2j: "?f2 ! j mod 0x10000000 \<noteq> 0" "?f2 ! cur mod 0x10000000 = j" "\<And>i. i \<noteq> j \<Longrightarrow> i \<noteq> cur \<Longrightarrow> ?f2 ! i = ?f ! i"
    using j cur by (simp_all add: f2 END_OF_CLUSTERCHAIN_def)
  have fr: "free_clusters ?f2 \<subseteq> free_clusters ?f"
  proof
    fix i assume i: "i \<in> free_clusters ?f2"
    then have "i \<noteq> j" "i \<noteq> cur" using f2j(1,2) j(1) by (auto simp: free_clusters_def)
    then show "i \<in> free_clusters ?f" using i f2j(3) by (simp add: free_clusters_def len)
  qed
  have cd: "cdata view s2 cl = cdata view s cl" for cl by (rule cdata_meta [OF m])
  have c2: "content view s2 us = content view s us" for us by (rule content_cong) (simp add: cd)
  show ?thesis
  proof (cases r)
    case (Inl e)
    then show ?thesis using post alike_trans [OF al] by (simp add: advance_post_def write_post_def)
  next
    case (Inr q)
    obtain cur' nxt' k' a' where q: "q = (cur', nxt', k', a')" by (cases q)
    obtain us vs where w: "wrote view s2 t [j] (j # us) vs na bs" "cur' = last (j # us)"
        "nxt' = fat (fctx t) ! cur' mod 0x10000000" "chain (fat (fctx t)) j (j # us @ vs)"
        "\<forall>i < length ?f2. i \<notin> set (j # us) \<longrightarrow> fat (fctx t) ! i = ?f2 ! i"
      and t: "finv t" "hint_ok t" "alike s2 t" "a' = acc + length bs"
      using post by (auto simp: advance_post_def Inr q)
    obtain new where n: "us @ vs = new" "new \<noteq> [] \<longrightarrow> vs = []" "set new \<subseteq> free_clusters ?f2"
      using w(1) by (auto simp: wrote_def)
    then have vs: "vs = []" by auto
    have us: "set us \<subseteq> free_clusters ?f2" using n by auto
    have jf: "j \<in> free_clusters ?f" using j by (simp add: free_clusters_def)
    have wr: "wrote view s t [] (j # us) [] na bs"
      using w(1) us fr jf alikeD(2) [OF al] unfolding wrote_def vs by (auto simp: c2 cd)
    have cu: "cur \<notin> set us" using us f2j(2) j(1) by (auto simp: free_clusters_def)
    have ct: "fat (fctx t) ! cur mod 0x10000000 = j" using w(5) cu cur(2) j(5) f2j(2) by (simp add: len)
    have frame: "\<forall>i < length ?f. i \<notin> set (j # us) \<and> i \<noteq> cur \<longrightarrow> fat (fctx t) ! i = ?f ! i"
      using w(5) f2j(3) by (simp add: len)
    show ?thesis unfolding write_post_def Inr q sum.case prod.case
      by (intro conjI exI [of _ "j # us"] exI [of _ "[]"] t(1,2,4) alike_trans [OF al t(3)] wr)
        (use w(2-4) vs ct frame in simp_all)
  qed
qed

lemma write_chain_loop_wp:
  assumes "write_pre n s cur nxt xs na k bs acc"
  shows "wp (write_chain_loop n cur nxt na k bs acc) (write_post s cur nxt xs na bs acc) s"
  using assms(1)
proof (induction n arbitrary: s cur nxt xs na k bs acc)
  case 0
  then show ?case by (simp add: write_pre_def)
next
  case (Suc n)
  have s: "finv s" "hint_ok s" "chain (fat (fctx s)) nxt xs" and b: "na + length bs < Suc n" "0 < na \<longrightarrow> k = 0" "na < 2 ^ 32" "acc + length bs < 2 ^ 63"
    and wok: "writes_ok writable na (length bs)"
    and cur: "xs = [] \<Longrightarrow> 2 \<le> cur \<and> cur < length (fat (fctx s)) \<and> fat (fctx s) ! cur mod 0x10000000 = nxt"
    using Suc.prems by (simp_all add: write_pre_def)
  show ?case
  proof (cases "0 < na + length bs")
    case False
    then have z: "na = 0" "bs = []" by simp_all
    have "write_post s cur nxt xs 0 [] acc (Inr (cur, nxt, k, acc)) s"
      unfolding write_post_def sum.case prod.case
      by (intro conjI exI [of _ "[]"] exI [of _ xs] s(1,2) alike_refl) (use s(3) in \<open>simp_all add: wrote_def put_nothing\<close>)
    then show ?thesis by (simp add: z wp_simps)
  next
    case True
    then have c: "(0 < length bs \<or> 0 < na) = True" by auto
    note adv = write_advance [OF Suc.IH _ _ _ _ _ b True wok]
    show ?thesis
    proof (cases xs)
      case (Cons y ys)
      then have y: "nxt = y" "\<not> end_of_chain y" "2 \<le> y" "y < length (fat (fctx s))" "chain (fat (fctx s)) y (y # ys)"
        using s(3) by auto
      show ?thesis unfolding write_chain_loop.simps c if_True Cons y(1)
        apply (subst wp_bindc)
        apply (simp only: y(2) if_False wp_ret option.case)
        apply (rule wp_mono [OF adv [OF _ s(1,2) y(3-5)]])
         apply assumption
        apply (rule advance_old)
        apply assumption
        done
    next
      case Nil
      have e: "end_of_chain nxt" "2 \<le> cur" "cur < length (fat (fctx s))" "fat (fctx s) ! cur mod 0x10000000 \<noteq> 0"
        using s(3) cur Nil by (auto simp: end_of_chain_def)
      have step: "wp (write_chain_loop (Suc n) cur nxt na k bs acc) (write_post s cur nxt [] na bs acc) s"
        unfolding write_chain_loop.simps c if_True
        apply (subst wp_bindc)
        apply (simp only: e(1) if_True)
        apply (rule grow_wp [OF s(1,2) e(3,4)])
        subgoal using s by (simp add: wp_ret write_post_def alike_refl)
        subgoal for j t
          using grown_chain [of s cur j t] e
          apply (simp only: option.case)
          apply (rule wp_mono [OF adv [where ys = "[]"]])
                apply assumption
               apply (simp_all add: grown_def)
          apply (rule advance_new)
          by (simp_all add: grown_def)
        done
      then show ?thesis by (simp only: Nil)
    qed
  qed
qed

lemma fat_free_all_wp:
  assumes "finv s" "chain (fat (fctx s)) c cs"
  shows "wp (fat_free_all_following_clusters c) (\<lambda>e t. e = EOK \<and> finv t \<and> meta_step view s t \<and>
      next_free_cluster (fctx t) = next_free_cluster (fctx s) \<and> fat (fctx t) = freed (fat (fctx s)) cs) s"
proof -
  have "card (set cs) \<le> card {..<length (fat (fctx s))}" using chain_set [OF assms(2)] by (intro card_mono) auto
  then have "length cs < length (fat (fctx s)) + 2" using distinct_card [OF chain_distinct [OF assms(2)]] by simp
  note fat_free_loop_wp [OF assms this]
  then show ?thesis
    unfolding fat_free_all_following_clusters_def by (simp add: wp_simps ctxc_def del: fat_free_loop.simps)
qed

lemma truncate_wp:
  assumes t: "finv t" "hint_ok t" and ch: "chain (fat (fctx t)) c (us @ vs)" and us: "us \<noteq> []" and vs: "vs \<noteq> []"
  shows "wp (bindc (fat_free_all_following_clusters (fat (fctx t) ! last us mod 0x10000000)) (\<lambda>_.
      bindc (fat_set_next_cluster (last us) END_OF_CLUSTERCHAIN) (\<lambda>_. ret (EOK, n))))
    (\<lambda>r u. r = (EOK, n) \<and> finv u \<and> hint_ok u \<and> meta_step view t u \<and> length (fat (fctx u)) = length (fat (fctx t)) \<and> chain (fat (fctx u)) c us \<and>
      (\<forall>i < length (fat (fctx t)). i \<notin> set (us @ vs) \<longrightarrow> fat (fctx u) ! i = fat (fctx t) ! i)) t"
  unfolding wp_simps
proof (rule wp_mono [OF fat_free_all_wp [OF t(1) chain_next [OF ch us]]], elim conjE)
  fix e t1 assume t1: "finv t1" "meta_step view t t1" "next_free_cluster (fctx t1) = next_free_cluster (fctx t)"
    "fat (fctx t1) = freed (fat (fctx t)) vs"
  let ?f = "fat (fctx t)"
  have len: "length (fat (fctx t1)) = length ?f" by (simp add: t1(4) freed_def)
  have l: "last us < length (fat (fctx t1))" using chain_set [OF ch, of "last us"] us by (simp add: len)
  have d: "distinct us" "\<And>i. i \<in> set us \<Longrightarrow> i \<notin> set vs" using chain_distinct [OF ch] by auto
  have f1: "i < length ?f \<Longrightarrow> i \<notin> set vs \<Longrightarrow> fat (fctx t1) ! i = ?f ! i" for i by (simp add: t1(4) freed_def)
  show "wp (fat_set_next_cluster (last us) END_OF_CLUSTERCHAIN) (\<lambda>x. (\<lambda>t'. (EOK, n) = (EOK, n) \<and> finv t' \<and> hint_ok t' \<and> meta_step view t t' \<and> length (fat (fctx t')) = length (fat (fctx t)) \<and> chain (fat (fctx t')) c us \<and>
      (\<forall>i < length (fat (fctx t)). i \<notin> set (us @ vs) \<longrightarrow> fat (fctx t') ! i = fat (fctx t) ! i))) t1"
  proof (rule wp_mono [OF fat_set_next_cluster_wp [OF finv_core [OF t1(1)] l]], elim conjE)
    fix e u assume u: "core u" "meta_step view t1 u"
      "fctx u = (fctx t1)\<lparr>fat := (fat (fctx t1))[last us := next_entry (fat (fctx t1) ! last us) END_OF_CLUSTERCHAIN]\<rparr>"
      "fat_allocate_cluster_lock u = fat_allocate_cluster_lock t1"
    have i: "finv u" "hint_ok u" using t1(1,3) t(2) u(1,3,4) len by (simp_all add: fat_inv_def hint_ok_def)
    have g: "chain (fat (fctx u)) c us"
    proof (rule chain_cut [OF ch us d(1)])
      show "length (fat (fctx u)) = length ?f" by (simp add: u(3) len)
      show "fat (fctx u) ! i = ?f ! i" if "i \<in> set us" "i \<noteq> last us" for i
        using that f1 d(2) chain_set [OF ch, of i] by (simp add: u(3))
      show "0xFFFFFF8 \<le> fat (fctx u) ! last us mod 0x10000000" using l by (simp add: u(3) END_OF_CLUSTERCHAIN_def)
    qed
    have "\<forall>i < length ?f. i \<notin> set (us @ vs) \<longrightarrow> fat (fctx u) ! i = ?f ! i"
    proof (intro allI impI)
      fix i assume i: "i < length ?f" "i \<notin> set (us @ vs)"
      then have "i \<noteq> last us" using last_in_set [OF us] by auto
      then show "fat (fctx u) ! i = ?f ! i" using f1 i by (simp add: u(3))
    qed
    then show "(EOK, n) = (EOK, n) \<and> finv u \<and> hint_ok u \<and> meta_step view t u \<and> length (fat (fctx u)) = length (fat (fctx t)) \<and> chain (fat (fctx u)) c us \<and>
        (\<forall>i < length (fat (fctx t)). i \<notin> set (us @ vs) \<longrightarrow> fat (fctx u) ! i = fat (fctx t) ! i)"
      using i g meta_step_trans [OF t1(2) u(2)] len by (simp add: u(3))
  qed
qed

lemma written_whole:
  assumes w: "wrote view s t xs us vs na bs" and al: "alike s t" and ch: "chain (fat (fctx t)) c (us @ vs)"
    and fr: "\<forall>i < length (fat (fctx s)). i \<notin> set us \<longrightarrow> fat (fctx t) ! i = fat (fctx s) ! i"
  shows "chain_written view s t c xs (us @ vs) na bs"
proof -
  obtain new where n: "us @ vs = xs @ new" "set new \<subseteq> free_clusters (fat (fctx s))" using w by (auto simp: wrote_def)
  have cv: "content view t vs = content view s vs"
  proof (rule content_cong)
    fix v assume "v \<in> set vs"
    then have "2 \<le> v" "v \<notin> set us" using chain_set [OF ch, of v] chain_distinct [OF ch] by auto
    then show "cdata view t v = cdata view s v" using w by (simp add: wrote_def)
  qed
  have l: "na + length bs \<le> length (content view s us)" using w by (simp add: wrote_def length_content)
  have "content view t (us @ vs) = put_bytes na bs (content view s (us @ vs))"
    using w by (simp add: content_append cv put_bytes_prefix [OF l] wrote_def)
  moreover have "na + length bs \<le> cluster_size (fctx s) * length (us @ vs)" using w by (simp add: wrote_def distrib_left)
  moreover have "take (length xs) (us @ vs) = take (length (us @ vs)) xs" "set (drop (length xs) (us @ vs)) \<subseteq> free_clusters (fat (fctx s))"
    using n by simp_all
  ultimately show ?thesis using w ch fr unfolding chain_written_def wrote_def by auto
qed

lemma written_cut:
  assumes w: "wrote view s t xs us vs na bs" and m: "meta_step view t u" and ch: "chain (fat (fctx u)) c us"
    and fr: "\<forall>i < length (fat (fctx s)). i \<notin> set us \<longrightarrow> i \<notin> set vs \<longrightarrow> fat (fctx u) ! i = fat (fctx s) ! i" and vs: "vs \<noteq> []"
  shows "chain_written view s u c xs us na bs"
proof -
  obtain new where n: "us @ vs = xs @ new" "new \<noteq> [] \<longrightarrow> vs = []" using w by (auto simp: wrote_def)
  then have xs: "xs = us @ vs" using vs by auto
  have "content view u us = content view t us" by (rule content_cong) (rule cdata_meta [OF m])
  then show ?thesis using w ch fr by (auto simp: chain_written_def wrote_def xs cdata_meta [OF m])
qed

lemma fat_write_cluster_chain_wp:
  assumes s: "finv s" "hint_ok s" "chain (fat (fctx s)) c (c # xs)"
    and b: "al < 2 ^ 32" "length bs < 2 ^ 63" "0 < al + length bs" "\<not> flag_fwz flags" and wok: "writes_ok writable al (length bs)"
  shows "wp (fat_write_cluster_chain c al bs flags) (\<lambda>(e, n) t. finv t \<and> hint_ok t \<and> alike s t \<and>
      (e = EIO \<and> first_free (fat (fctx t)) (next_free_cluster (fctx t)) = None \<or>
       e = EOK \<and> n = length bs \<and> (\<exists>ws. chain_written view s t c (c # xs) ws al bs \<and>
         (flag_eoc flags \<longrightarrow> cluster_size (fctx s) * (length ws - 1) < al + length bs)))) s"
    (is "wp _ ?Q s")
proof -
  have u: "u32 al = al" using b(1) by simp
  have "write_pre (Suc (al + length bs)) s c c (c # xs) al 0 bs 0" using s b wok by (simp add: write_pre_def)
  note loop = write_chain_loop_wp [OF this]
  show ?thesis unfolding fat_write_cluster_chain_def u wp_bindc
  proof (rule wp_mono [OF loop])
    fix r :: "nat + nat \<times> nat \<times> nat \<times> nat" and t assume post: "write_post s c c (c # xs) al bs 0 r t"
    show "wp (case r of Inl acc \<Rightarrow> ret (EIO, acc)
      | Inr (current_cluster, next_cluster, size_to_write, acc) \<Rightarrow>
         bindc (ctxc cluster_size) (\<lambda>cs.
         bindc (ctxc cluster_zero_buffer) (\<lambda>zeros.
         bindc
           (if flag_fwz flags then
              let fill_start = u32 size_to_write; fill_size_to_write = u64_sub cs fill_start in
              if fill_size_to_write \<le> length zeros
              then fat_write_cluster current_cluster fill_start (take fill_size_to_write zeros)
              else stop OutOfBounds
            else ret EOK) (\<lambda>e.
         seqc (assertc (e = EOK))
        (if \<not> flag_eoc flags \<or> end_of_chain next_cluster then ret (EOK, acc)
         else
           bindc (fat_free_all_following_clusters next_cluster) (\<lambda>_.
           bindc (fat_set_next_cluster current_cluster END_OF_CLUSTERCHAIN) (\<lambda>_.
           ret (EOK, acc)))))))) ?Q t"
    proof (cases r)
      case (Inl e)
      then show ?thesis using post by (simp add: write_post_def wp_simps)
    next
      case (Inr q)
      obtain cur' nxt' k' a' where q: "q = (cur', nxt', k', a')" by (cases q)
      obtain us vs where w: "wrote view s t (c # xs) us vs al bs" "cur' = last (c # us)"
          "nxt' = (if us = [] then c else fat (fctx t) ! cur' mod 0x10000000)" "chain (fat (fctx t)) c (us @ vs)"
          "\<forall>i < length (fat (fctx s)). i \<notin> set us \<longrightarrow> fat (fctx t) ! i = fat (fctx s) ! i"
        and t: "finv t" "hint_ok t" "alike s t" "a' = length bs"
        using post by (auto simp: write_post_def Inr q)
      have us: "us \<noteq> []" using w(1) b(3) by (auto simp: wrote_def)
      then have cn: "cur' = last us" "nxt' = fat (fctx t) ! last us mod 0x10000000" using w(2,3) by simp_all
      have cl: "cluster_size (fctx s) * (length us - 1) < al + length bs" using w(1) us by (simp add: wrote_def)
      have nx: "chain (fat (fctx t)) nxt' vs" using chain_next [OF w(4) us] by (simp add: cn(2))
      have whole: "?Q (EOK, length bs) t" if "flag_eoc flags \<longrightarrow> vs = []"
      proof -
        have "chain_written view s t c (c # xs) (us @ vs) al bs \<and> (flag_eoc flags \<longrightarrow> cluster_size (fctx s) * (length (us @ vs) - 1) < al + length bs)"
          using written_whole [OF w(1) t(3) w(4,5)] cl that by simp
        then have "\<exists>ws. chain_written view s t c (c # xs) ws al bs \<and> (flag_eoc flags \<longrightarrow> cluster_size (fctx s) * (length ws - 1) < al + length bs)" ..
        then show ?thesis using t(1-3) by simp
      qed
      show ?thesis
      proof (cases "\<not> flag_eoc flags \<or> end_of_chain nxt'")
        case True
        then have "flag_eoc flags \<longrightarrow> vs = []" using nx by (cases vs) auto
        then show ?thesis using whole b(4) True by (simp add: Inr q wp_simps ctxc_def t(4))
      next
        case False
        then have vs: "vs \<noteq> []" using nx by (auto simp: end_of_chain_def)
        have "wp (bindc (fat_free_all_following_clusters nxt') (\<lambda>_. bindc (fat_set_next_cluster cur' END_OF_CLUSTERCHAIN) (\<lambda>_. ret (EOK, length bs)))) ?Q t"
          unfolding cn
        proof (rule wp_mono [OF truncate_wp [OF t(1,2) w(4) us vs]], elim conjE)
          fix r u assume u: "r = (EOK, length bs)" "finv u" "hint_ok u" "meta_step view t u" "length (fat (fctx u)) = length (fat (fctx t))" "chain (fat (fctx u)) c us"
            "\<forall>i < length (fat (fctx t)). i \<notin> set (us @ vs) \<longrightarrow> fat (fctx u) ! i = fat (fctx t) ! i"
          have "\<forall>i < length (fat (fctx s)). i \<notin> set us \<longrightarrow> i \<notin> set vs \<longrightarrow> fat (fctx u) ! i = fat (fctx s) ! i"
            using u(7) w(5) alikeD(1) [OF t(3)] by simp
          then have "chain_written view s u c (c # xs) us al bs" by (rule written_cut [OF w(1) u(4,6) _ vs])
          then show "?Q r u" using u(1-3) cl alike_trans [OF t(3) alike_meta [OF u(4,5)]] by auto
        qed
        then show ?thesis using False b(4) by (simp add: Inr q wp_simps ctxc_def t(4))
      qed
    qed
  qed
qed

end

end
