(* ===== verification/Ahci.thy ===== *)
theory Ahci
  imports Storage_Device Pmm_Boot
begin

section \<open>The AHCI disk driver\<close>

text \<open>
  The module \<^verbatim>\<open>ahci\<close>: the commands for a SATA drive from \<^verbatim>\<open>port.c\<close>, the byte-wise access to the drive
  through one block cache from \<^verbatim>\<open>device.c\<close>, and the search for ports from \<^verbatim>\<open>controller.c\<close>. The controller
  with its drive is a parameter: the values of its task file register, and what it does when a
  command is issued. It accesses the block cache through the entries of the command table; the
  address of such an entry is the offset in the block cache that it stands for. The bring-up of a
  port (\<^verbatim>\<open>sata_device_init\<close>, \<^verbatim>\<open>sata_identify\<close>) consists of register accesses and is not modelled.
\<close>

subsection \<open>Commands\<close>

definition ATA_SECTOR_SIZE :: nat where "ATA_SECTOR_SIZE = 0x200"
definition ATA_FIS_DRQ :: nat where "ATA_FIS_DRQ = 8"
definition ATA_DEV_BUSY :: nat where "ATA_DEV_BUSY = 128"
definition HBA_COMMAND_LIST_MAX_ENTRIES :: nat where "HBA_COMMAND_LIST_MAX_ENTRIES = 0x20"
definition HBA_PRDT_ENTRY_MAX_SIZE :: nat where "HBA_PRDT_ENTRY_MAX_SIZE = 0x1000"
definition HBA_MAX_BLOCK_SIZE :: nat where "HBA_MAX_BLOCK_SIZE = 0x10000"
definition HBA_PRDT_MAX_ENTRIES :: nat where "HBA_PRDT_MAX_ENTRIES = HBA_MAX_BLOCK_SIZE div HBA_PRDT_ENTRY_MAX_SIZE"
definition HBA_PRDT_ENTRY_ADDRESS_SIZE :: nat where "HBA_PRDT_ENTRY_ADDRESS_SIZE = PAGE_SIZE"
definition HBA_PRDT_ENTRY_SECTOR_COUNT :: nat where
  "HBA_PRDT_ENTRY_SECTOR_COUNT = HBA_PRDT_ENTRY_ADDRESS_SIZE div ATA_SECTOR_SIZE"
definition ATA_CMD_TIMEOUT :: nat where "ATA_CMD_TIMEOUT = 1000000"
definition ATA_COMMAND_READ_DMA :: nat where "ATA_COMMAND_READ_DMA = 0x25"
definition ATA_COMMAND_WRITE_DMA :: nat where "ATA_COMMAND_WRITE_DMA = 0x35"
definition FIS_TYPE_HOST_TO_DEVICE :: nat where "FIS_TYPE_HOST_TO_DEVICE = 0x27"

lemmas ahci_consts = ATA_SECTOR_SIZE_def ATA_FIS_DRQ_def ATA_DEV_BUSY_def HBA_COMMAND_LIST_MAX_ENTRIES_def
  HBA_PRDT_ENTRY_MAX_SIZE_def HBA_MAX_BLOCK_SIZE_def HBA_PRDT_MAX_ENTRIES_def HBA_PRDT_ENTRY_ADDRESS_SIZE_def
  HBA_PRDT_ENTRY_SECTOR_COUNT_def PAGE_SIZE_def

record hbaprdt_entry =
  data_base_address :: nat
  byte_count :: nat
  interrupt_on_completion :: nat

record fis_host_to_device =
  fis_type :: nat
  command_control :: nat
  fis_command :: nat
  lba0 :: nat
  lba1 :: nat
  lba2 :: nat
  device_register :: nat
  lba3 :: nat
  lba4 :: nat
  lba5 :: nat
  count_low :: nat
  count_high :: nat

record hba_command_header =
  command_fis_length :: nat
  atapi :: nat
  cmd_write :: nat
  prdt_length :: nat

record hba_command =
  header :: hba_command_header
  prdt_entry :: "hbaprdt_entry list"
  command_fis :: fis_host_to_device

text \<open>
  How a command ends: its bit in \<^verbatim>\<open>command_issue\<close> is cleared, the port reports a task file error, or
  neither ever happens.
\<close>

datatype completion = Completed | TaskFileError | NeverCompletes

record 'h hba =
  task_file_data :: "'h \<Rightarrow> nat \<Rightarrow> nat"
  hba_issue :: "hba_command \<Rightarrow> byte list \<Rightarrow> 'h \<Rightarrow> completion \<times> byte list \<times> 'h"

record 'h ahci_device =
  block_cache :: "byte list"
  block_cache_size :: nat
  alignement :: nat
  ahci_lock :: bool
  ahci_size :: nat
  main_slot :: nat
  ahci_port :: 'h

type_synonym ('a, 'h) ahci_cmd = "('a, 'h ahci_device) cmd"

text \<open>The entries of the command table for the next \<open>n\<close> pages, from the entry \<open>i\<close> on.\<close>

fun prdt_load :: "nat \<Rightarrow> nat \<Rightarrow> nat \<Rightarrow> hbaprdt_entry list" where
  "prdt_load 0 i sector_count_iteration = []"
| "prdt_load (Suc n) i sector_count_iteration =
     (let sector_count_to_load = (if sector_count_iteration > HBA_PRDT_ENTRY_SECTOR_COUNT
                                  then HBA_PRDT_ENTRY_SECTOR_COUNT else sector_count_iteration)
      in \<lparr>data_base_address = i * HBA_PRDT_ENTRY_ADDRESS_SIZE,
          byte_count = u64_sub (u64_mul sector_count_to_load 512) 1 mod 2 ^ 22,
          interrupt_on_completion = 1\<rparr>
        # prdt_load n (i + 1) (u64_sub sector_count_iteration sector_count_to_load))"

text \<open>
  The register structure of a command. The code assigns \<^verbatim>\<open>lba4\<close> twice and never \<^verbatim>\<open>lba5\<close>, which keeps
  the zero of the initialisation.
\<close>

definition sata_fis :: "nat \<Rightarrow> nat \<Rightarrow> nat \<Rightarrow> fis_host_to_device" where
  "sata_fis cmd sector sector_count =
     (let sector_low = u32 sector; sector_high = u32 (sector div 2 ^ 32) in
      \<lparr>fis_type = FIS_TYPE_HOST_TO_DEVICE, command_control = 1, fis_command = cmd,
       lba0 = sector_low mod 256, lba1 = sector_low div 2 ^ 8 mod 256, lba2 = sector_low div 2 ^ 16 mod 256,
       device_register = 64,
       lba3 = sector_high mod 256, lba4 = sector_high div 2 ^ 16 mod 256, lba5 = 0,
       count_low = sector_count mod 256, count_high = sector_count div 2 ^ 8 mod 256\<rparr>)"

text \<open>
  The code fills in the first command header, whatever the slot of the command is; the header of
  another slot is zero.
\<close>

definition sata_header :: "nat \<Rightarrow> nat \<Rightarrow> nat \<Rightarrow> hba_command_header" where
  "sata_header slot w n =
     (if slot = 0 then \<lparr>command_fis_length = 5, atapi = 0, cmd_write = w, prdt_length = n mod 2 ^ 16\<rparr>
      else \<lparr>command_fis_length = 0, atapi = 0, cmd_write = 0, prdt_length = 0\<rparr>)"

text \<open>The wait for the port, with the values of the register at each poll.\<close>

definition port_busy :: "nat \<Rightarrow> bool" where
  "port_busy v \<longleftrightarrow> and v (or ATA_DEV_BUSY ATA_FIS_DRQ) \<noteq> 0"

function wait_task_file :: "(nat \<Rightarrow> nat) \<Rightarrow> nat \<Rightarrow> nat" where
  "wait_task_file f spin = (if port_busy (f spin) \<and> spin < ATA_CMD_TIMEOUT then wait_task_file f (spin + 1) else spin)"
  by pat_completeness auto
termination by (relation "measure (\<lambda>(f, spin). ATA_CMD_TIMEOUT - spin)") auto

declare wait_task_file.simps [simp del]

definition sata_execute :: "'h hba \<Rightarrow> (nat \<Rightarrow> hba_command) \<Rightarrow> (errno, 'h) ahci_cmd" where
  "sata_execute hba cmd =
     bindc (getc ahci_port) (\<lambda>p.
     if wait_task_file (task_file_data hba p) 0 = ATA_CMD_TIMEOUT then ret EIO
     else
       bindc (getc main_slot) (\<lambda>slot.
       bindc (getc block_cache) (\<lambda>mem.
       case hba_issue hba (cmd slot) mem p of (c, mem, p) \<Rightarrow>
         seqc (modc (\<lambda>d. d\<lparr>block_cache := mem, ahci_port := p\<rparr>))
        (case c of Completed \<Rightarrow> ret EOK | TaskFileError \<Rightarrow> ret EIO | NeverCompletes \<Rightarrow> stop NoReturn))))"

definition sata_read :: "'h hba \<Rightarrow> nat \<Rightarrow> nat \<Rightarrow> (errno, 'h) ahci_cmd" where
  "sata_read hba start sz =
     (let start_alignement = start mod 512;
          sector = start div 512;
          sector_count = DIV_ROUNDUP (u64_add sz start_alignement) ATA_SECTOR_SIZE;
          n = DIV_ROUNDUP sector_count HBA_PRDT_ENTRY_SECTOR_COUNT
      in if n > HBA_PRDT_MAX_ENTRIES then ret EIO
         else sata_execute hba (\<lambda>slot.
           \<lparr>header = sata_header slot 0 n, prdt_entry = prdt_load n 0 sector_count,
            command_fis = sata_fis ATA_COMMAND_READ_DMA sector sector_count\<rparr>))"

definition sata_write :: "'h hba \<Rightarrow> nat \<Rightarrow> nat \<Rightarrow> (errno, 'h) ahci_cmd" where
  "sata_write hba start sz =
     (let start_alignement = start mod 512;
          sector = start div 512;
          sector_count = DIV_ROUNDUP (u64_add sz start_alignement) ATA_SECTOR_SIZE;
          n = DIV_ROUNDUP sector_count HBA_PRDT_ENTRY_SECTOR_COUNT
      in if n > HBA_PRDT_MAX_ENTRIES then ret EIO
         else sata_execute hba (\<lambda>slot.
           \<lparr>header = sata_header slot 1 n, prdt_entry = prdt_load n 0 sector_count,
            command_fis = sata_fis ATA_COMMAND_WRITE_DMA sector sector_count\<rparr>))"

text \<open>The free command slot of a port; \<open>None\<close> is the result \<^verbatim>\<open>-EIO\<close>.\<close>

fun find_slot_loop :: "nat \<Rightarrow> nat \<Rightarrow> nat \<Rightarrow> nat option" where
  "find_slot_loop 0 i slot = None"
| "find_slot_loop (Suc n) i slot = (if even slot then Some i else find_slot_loop n (i + 1) (slot div 2))"

definition sata_find_slot :: "nat \<Rightarrow> nat option" where
  "sata_find_slot sata_active = find_slot_loop HBA_COMMAND_LIST_MAX_ENTRIES 0 sata_active"

definition sata_get_size :: "nat \<Rightarrow> nat \<Rightarrow> nat" where
  "sata_get_size extended_number_of_user_addressable_sectors total_user_addressable_sectors =
     (if extended_number_of_user_addressable_sectors \<noteq> 0
      then u64_mul extended_number_of_user_addressable_sectors 512
      else u64_mul total_user_addressable_sectors 512)"

subsection \<open>Access by bytes\<close>

text \<open>
  \<open>copy_out dst bs\<close> copies bytes to the buffer of the caller (\<open>None\<close>: they are returned) or to a position
  of the block cache itself, which \<^verbatim>\<open>ahci_device_write_prepare\<close> passes as the buffer of its reads.
\<close>

definition copy_out :: "nat option \<Rightarrow> byte list \<Rightarrow> (byte list, 'h) ahci_cmd" where
  "copy_out dst bs =
     (case dst of
       None \<Rightarrow> ret bs
     | Some p \<Rightarrow> bindc (getc (\<lambda>d. length (block_cache d))) (\<lambda>n.
         if p + length bs \<le> n
         then seqc (modc (\<lambda>d. d\<lparr>block_cache := put_bytes p bs (block_cache d)\<rparr>)) (ret [])
         else stop OutOfBounds))"

text \<open>The bytes of the block cache at \<open>off\<close>, as the source of a copy.\<close>

definition cache_bytes :: "nat \<Rightarrow> nat \<Rightarrow> (byte list, 'h) ahci_cmd" where
  "cache_bytes off n =
     bindc (getc block_cache) (\<lambda>c. if off + n \<le> length c then ret (take n (drop off c)) else stop OutOfBounds)"

abbreviation dev_acquire :: "(unit, 'h) ahci_cmd" where
  "dev_acquire \<equiv> lock_acquire ahci_lock ahci_lock_update"

abbreviation dev_release :: "(unit, 'h) ahci_cmd" where
  "dev_release \<equiv> lock_release ahci_lock_update"

definition ahci_device_read_prepare :: "'h hba \<Rightarrow> nat \<Rightarrow> nat \<Rightarrow> nat option \<Rightarrow> (nat \<times> byte list, 'h) ahci_cmd" where
  "ahci_device_read_prepare hba size_to_process read_position dst =
     bindc (getc alignement) (\<lambda>al.
     bindc (getc block_cache_size) (\<lambda>cache_size.
     let alignement_offset = read_position mod al;
         size_processing = (if alignement_offset \<noteq> 0
           then (if u64_sub al alignement_offset > size_to_process then size_to_process
                 else u64_sub al alignement_offset)
           else size_to_process);
         size_processing = (if size_processing > cache_size then cache_size else size_processing)
     in
     seqc dev_acquire
    (bindc (sata_read hba (u64_sub read_position alignement_offset) size_processing) (\<lambda>_.
     bindc (cache_bytes alignement_offset size_processing) (\<lambda>bs.
     bindc (copy_out dst bs) (\<lambda>bs.
     seqc dev_release
    (ret (size_processing, bs))))))))"

text \<open>
  Each round of the loops moves at least one byte, so the number of bytes bounds the rounds.
\<close>

fun read_loop :: "'h hba \<Rightarrow> nat \<Rightarrow> nat \<Rightarrow> nat \<Rightarrow> nat option \<Rightarrow> (byte list, 'h) ahci_cmd" where
  "read_loop hba 0 size_to_process read_position dst = (if size_to_process > 0 then stop NoReturn else ret [])"
| "read_loop hba (Suc n) size_to_process read_position dst =
     (if size_to_process > 0 then
        bindc (ahci_device_read_prepare hba size_to_process read_position dst) (\<lambda>(k, bs).
        bindc (read_loop hba n (u64_sub size_to_process k) (u64_add read_position k) (map_option (\<lambda>p. p + k) dst)) (\<lambda>rest.
        ret (bs @ rest)))
      else ret [])"

definition ahci_device_read_to :: "'h hba \<Rightarrow> nat \<Rightarrow> nat \<Rightarrow> nat option \<Rightarrow> (errno \<times> byte list, 'h) ahci_cmd" where
  "ahci_device_read_to hba start sz dst =
     bindc (getc ahci_size) (\<lambda>device_size.
     if u64_add start sz > device_size \<and> \<not> start < device_size then ret (EIO, [])
     else
       let sz = (if u64_add start sz > device_size then u64_sub device_size start else sz) in
       bindc (read_loop hba sz sz start dst) (\<lambda>bs.
       ret (EOK, bs)))"

definition ahci_device_read :: "'h hba \<Rightarrow> 'h ahci_device device_read" where
  "ahci_device_read hba start sz = ahci_device_read_to hba start sz None"

definition ahci_device_write_prepare :: "'h hba \<Rightarrow> nat \<Rightarrow> nat \<Rightarrow> byte list \<Rightarrow> (nat, 'h) ahci_cmd" where
  "ahci_device_write_prepare hba size_to_process write_position buffer =
     bindc (getc alignement) (\<lambda>al.
     bindc (getc block_cache_size) (\<lambda>cache_size.
     let alignement_offset = write_position mod al;
         start = u64_sub write_position alignement_offset
     in
     bindc
       (if alignement_offset \<noteq> 0 then
          bindc (ahci_device_read_to hba start alignement_offset (Some 0)) (\<lambda>_.
          ret (if u64_sub al alignement_offset > size_to_process then size_to_process
               else u64_sub al alignement_offset))
        else ret size_to_process) (\<lambda>size_processing.
     bindc
       (if size_processing > cache_size then ret cache_size
        else
          let alignement_offset_end = u64_add write_position size_processing mod al in
          if alignement_offset_end \<noteq> 0 then
            bindc (ahci_device_read_to hba (u64_add write_position size_processing)
                     (u64_sub al alignement_offset_end) (Some alignement_offset_end)) (\<lambda>_.
            ret size_processing)
          else ret size_processing) (\<lambda>size_processing.
     if size_processing > length buffer then stop OutOfBounds
     else
       seqc dev_acquire
      (bindc (copy_out (Some alignement_offset) (take size_processing buffer)) (\<lambda>_.
       bindc (sata_write hba start size_processing) (\<lambda>_.
       seqc dev_release
      (ret size_processing))))))))"

fun write_loop :: "'h hba \<Rightarrow> nat \<Rightarrow> nat \<Rightarrow> nat \<Rightarrow> byte list \<Rightarrow> (unit, 'h) ahci_cmd" where
  "write_loop hba 0 size_to_process write_position buffer = (if size_to_process > 0 then stop NoReturn else ret ())"
| "write_loop hba (Suc n) size_to_process write_position buffer =
     (if size_to_process > 0 then
        bindc (ahci_device_write_prepare hba size_to_process write_position buffer) (\<lambda>k.
        write_loop hba n (u64_sub size_to_process k) (u64_add write_position k) (drop k buffer))
      else ret ())"

definition ahci_device_write :: "'h hba \<Rightarrow> 'h ahci_device device_write" where
  "ahci_device_write hba start buffer =
     bindc (getc ahci_size) (\<lambda>device_size.
     let sz = (if u64_add start (length buffer) > device_size then u64_sub device_size start else length buffer) in
     seqc (write_loop hba sz sz start buffer)
    (ret EOK))"

definition ahci_device_init :: "'h hba \<Rightarrow> 'h ahci_device \<Rightarrow> 'h ahci_device storage_device" where
  "ahci_device_init hba device =
     \<lparr>sd_read = ahci_device_read hba, sd_write = ahci_device_write hba, storage_size = ahci_size device,
      sd_data = device, is_removable = False\<rparr>"

subsection \<open>Ports\<close>

definition SATA_SIG_ATAPI :: nat where "SATA_SIG_ATAPI = 0xEB140101"
definition SATA_SIG_ATA :: nat where "SATA_SIG_ATA = 0x00000101"
definition SATA_SIG_SEMB :: nat where "SATA_SIG_SEMB = 0xC33C0101"
definition SATA_SIG_PM :: nat where "SATA_SIG_PM = 0x96690101"
definition HBA_PORT_IPM_ACTIVE :: nat where "HBA_PORT_IPM_ACTIVE = 0x1"
definition HBA_PORT_DEV_PRESENT :: nat where "HBA_PORT_DEV_PRESENT = 0x3"
definition PORT_MAX_COUNT :: nat where "PORT_MAX_COUNT = 0x20"

datatype port_type = PORT_TYPE_NONE | PORT_TYPE_SATA | PORT_TYPE_SATAPI | PORT_TYPE_SEMB | PORT_TYPE_PM

record hba_port =
  port_signature :: nat
  sata_status :: nat

definition controller_get_port_type :: "hba_port \<Rightarrow> port_type" where
  "controller_get_port_type p =
     (let interface_power_management = sata_status p div 2 ^ 8 mod 8;
          device_detection = sata_status p mod 8
      in if device_detection \<noteq> HBA_PORT_DEV_PRESENT then PORT_TYPE_NONE
         else if interface_power_management \<noteq> HBA_PORT_IPM_ACTIVE then PORT_TYPE_NONE
         else if port_signature p = SATA_SIG_ATAPI then PORT_TYPE_SATAPI
         else if port_signature p = SATA_SIG_ATA then PORT_TYPE_SATA
         else if port_signature p = SATA_SIG_PM then PORT_TYPE_PM
         else if port_signature p = SATA_SIG_SEMB then PORT_TYPE_SEMB
         else PORT_TYPE_NONE)"

text \<open>The indices of the ports that the controller initialises; the bit set has 8 bits in the code.\<close>

definition controller_find_ports :: "nat \<Rightarrow> (nat \<Rightarrow> hba_port) \<Rightarrow> nat list" where
  "controller_find_ports abar_ports_implemented ports =
     (let ports_implemented = abar_ports_implemented mod 2 ^ 8 in
      filter (\<lambda>i. odd (ports_implemented div 2 ^ i) \<and> controller_get_port_type (ports i) = PORT_TYPE_SATA)
        [0..<PORT_MAX_COUNT])"

end
