(* ===== verification/Ahci_Correct.thy ===== *)
theory Ahci_Correct
  imports Ahci
begin

section \<open>The AHCI driver implements a byte store\<close>

text \<open>
  What the driver relies on is stated for the controller with its drive in the locale
  \<open>sata_drive\<close>, from the descriptions of the two commands in the ATA and AHCI standards: the sectors that
  the register structure names are transferred from or to the memory that the command table
  names, in order. The driver then reads every range and writes every range that ends at a
  sector boundary or lies in one sector, on drives of at most \<open>2 ^ 24\<close> sectors.
\<close>

subsection \<open>Transfers\<close>

definition fis_lba :: "fis_host_to_device \<Rightarrow> nat" where
  "fis_lba f = lba0 f + 2 ^ 8 * lba1 f + 2 ^ 16 * lba2 f + 2 ^ 24 * lba3 f + 2 ^ 32 * lba4 f + 2 ^ 40 * lba5 f"

definition fis_count :: "fis_host_to_device \<Rightarrow> nat" where
  "fis_count f = (let c = count_low f + 2 ^ 8 * count_high f in if c = 0 then 2 ^ 16 else c)"

definition entry_addresses :: "hbaprdt_entry list \<Rightarrow> nat list" where
  "entry_addresses es = concat (map (\<lambda>e. [data_base_address e..<data_base_address e + (byte_count e + 1)]) es)"

definition dma_addresses :: "hba_command \<Rightarrow> nat list" where
  "dma_addresses cmd = entry_addresses (take (prdt_length (header cmd)) (prdt_entry cmd))"

definition scatter :: "nat list \<Rightarrow> byte list \<Rightarrow> byte list \<Rightarrow> byte list" where
  "scatter as bs mem = fold (\<lambda>(a, b) m. m[a := b]) (zip as bs) mem"

definition gather :: "nat list \<Rightarrow> byte list \<Rightarrow> byte list" where
  "gather as mem = map ((!) mem) as"

text \<open>A command that asks for as many bytes as its memory entries have room for.\<close>

definition dma_ok :: "nat \<Rightarrow> hba_command \<Rightarrow> byte list \<Rightarrow> bool" where
  "dma_ok sectors cmd mem \<longleftrightarrow> command_fis_length (header cmd) = 5 \<and> atapi (header cmd) = 0 \<and>
     fis_type (command_fis cmd) = FIS_TYPE_HOST_TO_DEVICE \<and> command_control (command_fis cmd) = 1 \<and> device_register (command_fis cmd) = 64 \<and>
     fis_lba (command_fis cmd) + fis_count (command_fis cmd) \<le> sectors \<and>
     length (dma_addresses cmd) = 512 * fis_count (command_fis cmd) \<and>
     (\<forall>a \<in> set (dma_addresses cmd). a < length mem)"

locale sata_drive =
  fixes hba :: "'h hba" and goodp :: "'h \<Rightarrow> bool" and viewp :: "'h \<Rightarrow> nat \<Rightarrow> byte" and sectors :: nat
  assumes ready: "goodp p \<Longrightarrow> \<exists>k < ATA_CMD_TIMEOUT. \<not> port_busy (task_file_data hba p k)"
    and dma_read: "goodp p \<Longrightarrow> dma_ok sectors cmd mem \<Longrightarrow> fis_command (command_fis cmd) = ATA_COMMAND_READ_DMA \<Longrightarrow>
      cmd_write (header cmd) = 0 \<Longrightarrow>
      \<exists>p'. hba_issue hba cmd mem p =
          (Completed, scatter (dma_addresses cmd)
             (load (512 * fis_lba (command_fis cmd)) (512 * fis_count (command_fis cmd)) (viewp p)) mem, p') \<and>
        goodp p' \<and> viewp p' = viewp p"
    and dma_write: "goodp p \<Longrightarrow> dma_ok sectors cmd mem \<Longrightarrow> fis_command (command_fis cmd) = ATA_COMMAND_WRITE_DMA \<Longrightarrow>
      cmd_write (header cmd) = 1 \<Longrightarrow>
      \<exists>p'. hba_issue hba cmd mem p = (Completed, mem, p') \<and> goodp p' \<and>
        viewp p' = store (512 * fis_lba (command_fis cmd)) (gather (dma_addresses cmd) mem) (viewp p)"
    and small: "sectors \<le> 2 ^ 24"

lemma div_roundup: "a + b < 18446744073709551616 \<Longrightarrow> 0 < b \<Longrightarrow> DIV_ROUNDUP a b = (a + (b - 1)) div b"
  by (simp add: DIV_ROUNDUP_def u64_sub_small u64_add_small)

lemma entry_addresses_simps [simp]:
  "entry_addresses [] = []"
  "entry_addresses (e # es) = [data_base_address e..<data_base_address e + (byte_count e + 1)] @ entry_addresses es"
  by (simp_all add: entry_addresses_def)

lemma prdt_load_addresses:
  "8 * n < c + 8 \<Longrightarrow> c \<le> 8 * n \<Longrightarrow> c < 2 ^ 32 \<Longrightarrow> entry_addresses (prdt_load n i c) = [i * 4096..<i * 4096 + 512 * c]"
proof (induction n arbitrary: i c)
  case (Suc n)
  define m where "m = min c 8"
  have m: "0 < m" "m \<le> c" "m \<le> 8" using Suc.prems by (auto simp: m_def)
  have b: "u64_sub (u64_mul m 512) 1 mod 2 ^ 22 + 1 = 512 * m" using m by (simp add: u64_mul_small u64_sub_small)
  have r: "u64_sub c m = c - m" using m Suc.prems by (intro u64_sub_small) auto
  have "entry_addresses (prdt_load n (i + 1) (c - m)) = [(i + 1) * 4096..<(i + 1) * 4096 + 512 * (c - m)]"
    if "c > m" using that Suc.prems m by (intro Suc.IH) (auto simp: m_def)
  moreover have "entry_addresses (prdt_load n (i + 1) (c - m)) = []" if "c = m"
    using that Suc.prems m by (cases n) auto
  moreover have "m = 8" if "c > m" using that by (auto simp: m_def)
  moreover have "(if c > HBA_PRDT_ENTRY_SECTOR_COUNT then HBA_PRDT_ENTRY_SECTOR_COUNT else c) = m"
    by (simp add: m_def ahci_consts)
  ultimately have "entry_addresses (prdt_load (Suc n) i c) = [i * 4096..<i * 4096 + 512 * m] @
      (if c > m then [i * 4096 + 4096..<i * 4096 + 4096 + 512 * (c - m)] else [])"
    using m by (simp add: Let_def b [simplified] r ahci_consts algebra_simps del: upt_Suc)
  also have "\<dots> = [i * 4096..<i * 4096 + 512 * c]"
  proof (cases "c > m")
    case True
    then have "m = 8" "512 * c = 4096 + 512 * (c - m)" using m by (auto simp: m_def)
    then show ?thesis using True upt_add_eq_append [of "i * 4096" "i * 4096 + 4096" "512 * (c - m)"] by (simp add: add.assoc)
  qed (use m in simp)
  finally show ?case .
qed simp

lemma scatter_prefix: "length bs = k \<Longrightarrow> k \<le> length mem \<Longrightarrow> scatter [0..<k] bs mem = bs @ drop k mem"
proof (induction k arbitrary: bs)
  case 0
  then show ?case by (simp add: scatter_def)
next
  case (Suc k)
  then obtain cs b where bs: "bs = cs @ [b]" "length cs = k" by (metis length_Suc_conv_rev)
  have "scatter [0..<Suc k] bs mem = (scatter [0..<k] cs mem)[k := b]" by (simp add: scatter_def bs)
  also have "\<dots> = (cs @ drop k mem)[k := b]" using Suc bs by simp
  also have "\<dots> = bs @ drop (Suc k) mem" using Suc.prems(2) bs by (simp add: list_update_append Cons_nth_drop_Suc [symmetric])
  finally show ?case .
qed

lemma gather_prefix: "k \<le> length mem \<Longrightarrow> gather [0..<k] mem = take k mem"
  by (auto simp: gather_def intro: nth_equalityI)

text \<open>The number of sectors that hold \<open>n\<close> bytes from the start of a sector.\<close>

definition nsec :: "nat \<Rightarrow> nat" where
  "nsec n = (n + 511) div 512"

lemma nsec_bounds: "0 < n \<Longrightarrow> 0 < nsec n" "n \<le> 512 * nsec n" "512 * nsec n < n + 512" "n \<le> 512 * m \<Longrightarrow> nsec n \<le> m"
  unfolding nsec_def by linarith+

lemma nsec_exact: "512 dvd n \<Longrightarrow> 512 * nsec n = n"
  unfolding nsec_def by auto

lemma nsec_one: "0 < n \<Longrightarrow> n \<le> 512 \<Longrightarrow> nsec n = 1"
  using nsec_bounds(1) [of n] nsec_bounds(4) [of n 1] by simp

text \<open>The address survives the encoding of the driver on drives of at most \<open>2 ^ 24\<close> sectors.\<close>

lemma fis_lba_small: "sector < 2 ^ 24 \<Longrightarrow> fis_lba (sata_fis cmd sector n) = sector"
proof -
  assume s: "sector < 2 ^ 24"
  then have "sector div 4294967296 = 0" "u32 sector = sector" by simp_all
  moreover have "sector mod 256 + 256 * (sector div 256 mod 256) + 65536 * (sector div 65536) = sector"
  proof -
    have "sector div 256 div 256 = sector div 65536" by (simp add: div_mult2_eq [symmetric])
    then show ?thesis using mod_mult_div_eq [of sector 256] mod_mult_div_eq [of "sector div 256" 256] by linarith
  qed
  moreover have "sector div 65536 mod 256 = sector div 65536" using s by simp
  ultimately show ?thesis by (simp add: fis_lba_def sata_fis_def Let_def u32_def)
qed

lemma fis_count_small: "0 < n \<Longrightarrow> n < 2 ^ 16 \<Longrightarrow> fis_count (sata_fis cmd sector n) = n"
proof -
  assume n: "0 < n" "n < 2 ^ 16"
  then have "n mod 256 + 256 * (n div 256 mod 256) = n" using mod_mult_div_eq [of n 256] by simp
  then show ?thesis using n by (simp add: fis_count_def sata_fis_def Let_def)
qed

text \<open>The ranges that the driver writes correctly.\<close>

definition ends_ok :: "nat \<Rightarrow> nat \<Rightarrow> bool" where
  "ends_ok pos sz \<longleftrightarrow> 512 dvd pos + sz \<or> pos mod 512 + sz \<le> 512"

text \<open>The state of the driver between two calls, and the contents of its drive.\<close>

definition ahci_ready :: "('h \<Rightarrow> bool) \<Rightarrow> nat \<Rightarrow> 'h ahci_device \<Rightarrow> bool" where
  "ahci_ready goodp sectors d \<longleftrightarrow> alignement d = ATA_SECTOR_SIZE \<and> block_cache_size d = HBA_MAX_BLOCK_SIZE \<and>
     length (block_cache d) = HBA_MAX_BLOCK_SIZE \<and> main_slot d = 0 \<and> ahci_size d = 512 * sectors \<and> goodp (ahci_port d) \<and>
     \<not> ahci_lock d"

definition ahci_view :: "('h \<Rightarrow> nat \<Rightarrow> byte) \<Rightarrow> 'h ahci_device \<Rightarrow> nat \<Rightarrow> byte" where
  "ahci_view viewp d = viewp (ahci_port d)"

context sata_drive
begin

definition ahci_ok where
  "ahci_ok d \<longleftrightarrow> alignement d = 512 \<and> block_cache_size d = 65536 \<and> length (block_cache d) = 65536 \<and> main_slot d = 0 \<and>
     ahci_size d = 512 * sectors \<and> goodp (ahci_port d)"

definition dview where
  "dview d = viewp (ahci_port d)"

lemma wait_ready:
  assumes "goodp p"
  shows "wait_task_file (task_file_data hba p) 0 \<noteq> ATA_CMD_TIMEOUT"
proof -
  obtain k where k: "k < ATA_CMD_TIMEOUT" "\<not> port_busy (task_file_data hba p k)" using ready [OF assms] by auto
  have "wait_task_file (task_file_data hba p) i \<le> k" if "i \<le> k" for i
    using that
  proof (induction "k - i" arbitrary: i)
    case 0
    then show ?case using k by (subst wait_task_file.simps) simp
  next
    case (Suc n)
    then have "wait_task_file (task_file_data hba p) (i + 1) \<le> k" by (intro Suc) auto
    then show ?case using Suc by (subst wait_task_file.simps) simp
  qed
  from this [of 0] k(1) show ?thesis by simp
qed

lemma transfer_ok:
  assumes "512 dvd start" "0 < n" "n \<le> 65536" "start + 512 * nsec n \<le> 512 * sectors"
  shows "DIV_ROUNDUP (u64_add n (start mod 512)) ATA_SECTOR_SIZE = nsec n"
    "DIV_ROUNDUP (nsec n) HBA_PRDT_ENTRY_SECTOR_COUNT = (nsec n + 7) div 8"
    "\<not> HBA_PRDT_MAX_ENTRIES < (nsec n + 7) div 8"
    "entry_addresses (prdt_load ((nsec n + 7) div 8) 0 (nsec n)) = [0..<512 * nsec n]"
    "length (prdt_load k i c) = k"
    "(nsec n + 7) div 8 < 2 ^ 16" "nsec n < 2 ^ 16" "start div 512 < 2 ^ 24" "512 * (start div 512) = start"
    "start div 512 + nsec n \<le> sectors" "512 * nsec n \<le> 65536"
proof -
  have s: "nsec n \<le> 128" "0 < nsec n" using nsec_bounds(1) [of n] nsec_bounds(4) [of n 128] assms by simp_all
  have a: "start mod 512 = 0" "512 * (start div 512) = start" using assms(1) by auto
  show "DIV_ROUNDUP (u64_add n (start mod 512)) ATA_SECTOR_SIZE = nsec n"
    using assms a by (simp add: u64_add_small div_roundup ATA_SECTOR_SIZE_def nsec_def)
  show "DIV_ROUNDUP (nsec n) HBA_PRDT_ENTRY_SECTOR_COUNT = (nsec n + 7) div 8"
    using s by (simp add: div_roundup ahci_consts)
  show "\<not> HBA_PRDT_MAX_ENTRIES < (nsec n + 7) div 8" using s by (simp add: ahci_consts)
  show "entry_addresses (prdt_load ((nsec n + 7) div 8) 0 (nsec n)) = [0..<512 * nsec n]"
    using s prdt_load_addresses [of "(nsec n + 7) div 8" "nsec n" 0] by simp
  show "length (prdt_load k i c) = k" by (induction k arbitrary: i c) (simp_all add: Let_def)
  show "(nsec n + 7) div 8 < 2 ^ 16" "nsec n < 2 ^ 16" "512 * (start div 512) = start" "512 * nsec n \<le> 65536" using s a by simp_all
  show "start div 512 + nsec n \<le> sectors" using assms(4) a(2) by linarith
  then show "start div 512 < 2 ^ 24" using small s(2) by linarith
qed

definition transfer where
  "transfer w c start n = \<lparr>header = sata_header 0 w ((nsec n + 7) div 8), prdt_entry = prdt_load ((nsec n + 7) div 8) 0 (nsec n),
     command_fis = sata_fis c (start div 512) (nsec n)\<rparr>"

lemma transfer_command:
  assumes d: "ahci_ok d" and a: "512 dvd start" "0 < n" "n \<le> 65536" "start + 512 * nsec n \<le> 512 * sectors"
  shows "512 * fis_lba (command_fis (transfer w c start n)) = start" "fis_count (command_fis (transfer w c start n)) = nsec n"
    "dma_addresses (transfer w c start n) = [0..<512 * nsec n]" "dma_ok sectors (transfer w c start n) (block_cache d)"
    "fis_command (command_fis (transfer w c start n)) = c" "cmd_write (header (transfer w c start n)) = w"
    "goodp (ahci_port d)" "512 * nsec n \<le> length (block_cache d)"
proof -
  note t = transfer_ok [OF a]
  have f: "fis_lba (command_fis (transfer w c start n)) = start div 512" "fis_count (command_fis (transfer w c start n)) = nsec n"
    using t nsec_bounds(1) [OF a(2)] by (simp_all add: transfer_def fis_lba_small fis_count_small)
  have ad: "dma_addresses (transfer w c start n) = [0..<512 * nsec n]"
    using t by (simp add: transfer_def dma_addresses_def sata_header_def)
  have len: "length (block_cache d) = 65536" using d by (simp add: ahci_ok_def)
  then show "dma_ok sectors (transfer w c start n) (block_cache d)"
    unfolding dma_ok_def f ad using t(10,11) by (simp add: transfer_def sata_header_def sata_fis_def Let_def)
  show "512 * fis_lba (command_fis (transfer w c start n)) = start" unfolding f by (rule t(9))
  show "fis_count (command_fis (transfer w c start n)) = nsec n" "dma_addresses (transfer w c start n) = [0..<512 * nsec n]" by fact+
  show "fis_command (command_fis (transfer w c start n)) = c" "cmd_write (header (transfer w c start n)) = w" "goodp (ahci_port d)"
    using d by (simp_all add: transfer_def sata_header_def sata_fis_def Let_def ahci_ok_def)
  show "512 * nsec n \<le> length (block_cache d)" using t(11) len by simp
qed

lemma sata_read_wp:
  assumes d: "ahci_ok d" and a: "512 dvd start" "0 < n" "n \<le> 65536" "start + 512 * nsec n \<le> 512 * sectors"
    and q: "\<And>p. goodp p \<Longrightarrow> viewp p = dview d \<Longrightarrow>
      Q EOK (d\<lparr>block_cache := load start (512 * nsec n) (dview d) @ drop (512 * nsec n) (block_cache d), ahci_port := p\<rparr>)"
  shows "wp (sata_read hba start n) Q d"
proof -
  note t = transfer_ok [OF a]
  note c = transfer_command(1-6) [OF d a, of 0 ATA_COMMAND_READ_DMA] and g = transfer_command(7-8) [OF d a]
  have sc: "scatter [0..<512 * nsec n] (load start (512 * nsec n) (viewp (ahci_port d))) (block_cache d) =
      load start (512 * nsec n) (dview d) @ drop (512 * nsec n) (block_cache d)"
    using g(2) by (simp add: scatter_prefix dview_def)
  obtain p where p: "hba_issue hba (transfer 0 ATA_COMMAND_READ_DMA start n) (block_cache d) (ahci_port d) =
      (Completed, load start (512 * nsec n) (dview d) @ drop (512 * nsec n) (block_cache d), p)" "goodp p" "viewp p = dview d"
    using dma_read [OF g(1) c(4,5,6)] unfolding c(1,2,3) sc dview_def by blast
  show ?thesis
    unfolding sata_read_def Let_def t(1,2) using t(3) wait_ready [OF g(1)] d p(1) q [OF p(2,3)]
    by (simp add: sata_execute_def wp_simps ahci_ok_def transfer_def)
qed

lemma sata_write_wp:
  assumes d: "ahci_ok d" and a: "512 dvd start" "0 < n" "n \<le> 65536" "start + 512 * nsec n \<le> 512 * sectors"
    and q: "\<And>p. goodp p \<Longrightarrow> viewp p = store start (take (512 * nsec n) (block_cache d)) (dview d) \<Longrightarrow> Q EOK (d\<lparr>ahci_port := p\<rparr>)"
  shows "wp (sata_write hba start n) Q d"
proof -
  note t = transfer_ok [OF a]
  note c = transfer_command(1-6) [OF d a, of 1 ATA_COMMAND_WRITE_DMA] and g = transfer_command(7-8) [OF d a]
  obtain p where p: "hba_issue hba (transfer 1 ATA_COMMAND_WRITE_DMA start n) (block_cache d) (ahci_port d) = (Completed, block_cache d, p)" "goodp p"
      "viewp p = store start (take (512 * nsec n) (block_cache d)) (dview d)"
    using dma_write [OF g(1) c(4,5,6)] unfolding c(1,2,3) gather_prefix [OF g(2)] dview_def by blast
  show ?thesis
    unfolding sata_write_def Let_def t(1,2) using t(3) wait_ready [OF g(1)] d p(1) q [OF p(2,3)]
    by (simp add: sata_execute_def wp_simps ahci_ok_def transfer_def)
qed

lemma unlocked: "\<not> ahci_lock d \<Longrightarrow> d\<lparr>ahci_lock := False\<rparr> = d"
  by (cases d) simp

definition chunk where
  "chunk pos sz = min (if pos mod 512 = 0 then sz else min (512 - pos mod 512) sz) (65536::nat)"

lemma chunk_bounds:
  assumes "0 < sz"
  shows "0 < chunk pos sz" "chunk pos sz \<le> sz" "chunk pos sz \<le> 65536" "pos mod 512 \<noteq> 0 \<Longrightarrow> pos mod 512 + chunk pos sz \<le> 512"
proof -
  have "pos mod 512 < 512" by simp
  then show "0 < chunk pos sz" "chunk pos sz \<le> sz" "chunk pos sz \<le> 65536" "pos mod 512 \<noteq> 0 \<Longrightarrow> pos mod 512 + chunk pos sz \<le> 512"
    using assms by (auto simp: chunk_def)
qed

lemma chunk_sectors:
  assumes "0 < sz" "pos + sz \<le> 512 * sectors"
  shows "512 dvd pos - pos mod 512" "pos - pos mod 512 + 512 * nsec (chunk pos sz) \<le> 512 * sectors"
    "pos mod 512 + chunk pos sz \<le> 512 * nsec (chunk pos sz)"
proof -
  let ?k = "chunk pos sz"
  note c = chunk_bounds [OF assms(1), of pos]
  obtain q where q: "pos - pos mod 512 = 512 * q" by (metis minus_mod_eq_mult_div)
  then show "512 dvd pos - pos mod 512" by simp
  have p: "pos = 512 * q + pos mod 512" using q by (metis le_add_diff_inverse2 mod_less_eq_dividend)
  have lt: "pos mod 512 < 512" by simp
  have "pos mod 512 + ?k \<le> 512 * nsec ?k \<and> q + nsec ?k \<le> sectors"
  proof (cases "pos mod 512 = 0")
    case True
    have "?k \<le> 512 * (sectors - q)" using c(2) assms(2) p True by linarith
    then have "nsec ?k \<le> sectors - q" by (rule nsec_bounds(4))
    then show ?thesis using nsec_bounds(1,2) [of ?k] c(1) True by linarith
  next
    case False
    have "nsec ?k = 1" using c(1) c(4) [OF False] by (intro nsec_one) linarith+
    moreover have "512 * q < 512 * sectors" using assms p by linarith
    ultimately show ?thesis using c(4) [OF False] by simp
  qed
  then show "pos - pos mod 512 + 512 * nsec ?k \<le> 512 * sectors" "pos mod 512 + ?k \<le> 512 * nsec ?k" unfolding q by linarith+
qed

lemma load_part: "off + k \<le> n \<Longrightarrow> take k (drop off (load a n f @ xs)) = load (a + off) k f"
  by (rule nth_equalityI) (auto simp: nth_append add.assoc)

lemma put_same: "off + k \<le> length c \<Longrightarrow> put_bytes off (take k (drop off c)) c = c"
proof -
  assume "off + k \<le> length c"
  then have "length (take k (drop off c)) = k" by simp
  then have "put_bytes off (take k (drop off c)) c = take (off + k) c @ drop (off + k) c" unfolding put_bytes_def take_add by simp
  then show ?thesis by (simp only: append_take_drop_id)
qed

lemma put_update: "d\<lparr>ahci_port := p, block_cache := c\<rparr> = d\<lparr>block_cache := c, ahci_port := p\<rparr>"
  by (cases d) simp

lemma copy_wp:
  assumes "\<not> ahci_lock d" "off + k \<le> length c" "take k (drop off c) = bs" "put_bytes off bs c = c" "dst = None \<or> dst = Some off"
    "Q (k, if dst = None then bs else []) (d\<lparr>block_cache := c, ahci_port := p\<rparr>)"
  shows "wp (cache_bytes off k) (\<lambda>bs. wp (copy_out dst bs) (\<lambda>bs t. Q (k, bs) (ahci_lock_update (\<lambda>_. False) t)))
      (d\<lparr>ahci_lock := True, block_cache := c, ahci_port := p\<rparr>)"
proof -
  have "length bs = k" using assms(2,3) by (metis length_take length_drop min.absorb2 le_diff_conv2 add.commute add_leD1)
  then show ?thesis
    using assms by (auto simp: cache_bytes_def copy_out_def wp_simps unlocked put_update)
qed

lemma read_prepare_wp:
  assumes d: "ahci_ok d" "\<not> ahci_lock d" and sz: "0 < sz" "pos + sz \<le> 512 * sectors"
    and dst: "dst = None \<or> dst = Some (pos mod 512)"
    and q: "\<And>p. goodp p \<Longrightarrow> viewp p = dview d \<Longrightarrow>
      Q (chunk pos sz, if dst = None then load pos (chunk pos sz) (dview d) else [])
        (d\<lparr>block_cache := load (pos - pos mod 512) (512 * nsec (chunk pos sz)) (dview d) @ drop (512 * nsec (chunk pos sz)) (block_cache d), ahci_port := p\<rparr>)"
  shows "wp (ahci_device_read_prepare hba sz pos dst) Q d"
proof -
  let ?k = "chunk pos sz" let ?off = "pos mod 512" let ?n = "512 * nsec ?k"
  let ?c = "load (pos - ?off) ?n (dview d) @ drop ?n (block_cache d)"
  note c = chunk_bounds [OF sz(1), of pos] and s = chunk_sectors [OF sz]
  have lt: "?off < 512" by simp
  have al: "alignement d = 512" "block_cache_size d = 65536" "length (block_cache d) = 65536" using d by (simp_all add: ahci_ok_def)
  have sec: "sectors \<le> 16777216" using small by simp
  have pos: "pos < 18446744073709551616" using sz sec by linarith
  have u: "u64_sub 512 ?off = 512 - ?off" "u64_sub pos ?off = pos - ?off" using pos lt by (simp_all add: u64_sub_small)
  have k: "(if (if ?off \<noteq> 0 then if 512 - ?off > sz then sz else 512 - ?off else sz) > 65536 then 65536
      else (if ?off \<noteq> 0 then if 512 - ?off > sz then sz else 512 - ?off else sz)) = ?k"
    using lt by (auto simp: chunk_def min_def)
  have n: "?n \<le> 65536" using nsec_bounds(4) [of ?k 128] c(3) by simp
  have lc: "length ?c = 65536" using n al(3) by simp
  have tk: "take ?k (drop ?off ?c) = load pos ?k (dview d)" unfolding load_part [OF s(3)] by simp
  have pu: "put_bytes ?off (load pos ?k (dview d)) ?c = ?c"
    unfolding tk [symmetric] by (rule put_same) (use lc s(3) n in linarith)
  have ok: "ahci_ok (d\<lparr>ahci_lock := True\<rparr>)" "dview (d\<lparr>ahci_lock := True\<rparr>) = dview d"
    "block_cache (d\<lparr>ahci_lock := True\<rparr>) = block_cache d" using d by (simp_all add: ahci_ok_def dview_def)
  have fit: "?off + ?k \<le> length ?c" "?off + length (load pos ?k (dview d)) \<le> length ?c" using lc s(3) n by simp_all
  show ?thesis
    unfolding ahci_device_read_prepare_def wp_simps al(1,2) Let_def u k
  proof (intro conjI d(2) sata_read_wp [OF ok(1) s(1) c(1,3) s(2)])
    fix p assume p: "goodp p" "viewp p = dview (d\<lparr>ahci_lock := True\<rparr>)"
    have "Q (?k, if dst = None then load pos ?k (dview d) else []) (d\<lparr>block_cache := ?c, ahci_port := p\<rparr>)" using q p ok(2) by simp
    then have "wp (cache_bytes ?off ?k) (\<lambda>bs. wp (copy_out dst bs) (\<lambda>bs t. Q (?k, bs) (ahci_lock_update (\<lambda>_. False) t)))
       (d\<lparr>ahci_lock := True, block_cache := ?c, ahci_port := p\<rparr>)"
      by (rule copy_wp [OF d(2) fit(1) tk pu dst])
    then show "wp (cache_bytes ?off ?k) (\<lambda>bs. wp (copy_out dst bs) (\<lambda>bs t. Q (?k, bs) (ahci_lock_update (\<lambda>_. False) t)))
       (d\<lparr>ahci_lock := True, block_cache := load (pos - ?off) ?n (dview (d\<lparr>ahci_lock := True\<rparr>)) @ drop ?n (block_cache (d\<lparr>ahci_lock := True\<rparr>)), ahci_port := p\<rparr>)"
      by (simp only: ok(2,3))
  qed
qed

definition reach where
  "reach d d' \<longleftrightarrow> (\<exists>m p. length m = 65536 \<and> goodp p \<and> viewp p = dview d \<and> d' = d\<lparr>block_cache := m, ahci_port := p\<rparr>)"

lemma reachI: "length m = 65536 \<Longrightarrow> goodp p \<Longrightarrow> viewp p = dview d \<Longrightarrow> reach d (d\<lparr>block_cache := m, ahci_port := p\<rparr>)"
  unfolding reach_def by blast

lemma reachD:
  assumes "reach d d'"
  shows "ahci_ok d \<Longrightarrow> ahci_ok d'" "ahci_lock d' = ahci_lock d" "dview d' = dview d"
  using assms by (auto simp: reach_def ahci_ok_def dview_def)

lemma reach_trans: "reach d d' \<Longrightarrow> reach d' d'' \<Longrightarrow> reach d d''"
proof -
  assume r: "reach d d'" "reach d' d''"
  obtain m p where d': "d' = d\<lparr>block_cache := m, ahci_port := p\<rparr>" using r(1) by (auto simp: reach_def)
  obtain m' p' where m: "length m' = 65536" "goodp p'" "viewp p' = dview d" "d'' = d'\<lparr>block_cache := m', ahci_port := p'\<rparr>"
    using r(2) reachD(3) [OF r(1)] by (auto simp: reach_def)
  have "d'' = d\<lparr>block_cache := m', ahci_port := p'\<rparr>" unfolding m(4) d' by (cases d) simp
  then show ?thesis using m(1-3) by (auto simp: reach_def)
qed

lemma reach_refl: "ahci_ok d \<Longrightarrow> reach d d"
  unfolding reach_def by (intro exI [of _ "block_cache d"] exI [of _ "ahci_port d"]) (simp add: ahci_ok_def dview_def)

lemma sectors_u64:
  assumes "pos + sz \<le> 512 * sectors" "k \<le> sz"
  shows "u64_add pos sz = pos + sz" "u64_add pos k = pos + k" "u64_sub sz k = sz - k"
proof -
  have "sectors \<le> 16777216" using small by simp
  then have "pos + sz < 18446744073709551616" using assms by linarith
  then show "u64_add pos sz = pos + sz" "u64_add pos k = pos + k" "u64_sub sz k = sz - k"
    using assms(2) by (simp_all add: u64_add_small u64_sub_small)
qed

lemma read_loop_wp:
  assumes "ahci_ok d" "\<not> ahci_lock d" "sz \<le> n" "pos + sz \<le> 512 * sectors"
  shows "wp (read_loop hba n sz pos None) (\<lambda>bs d'. bs = load pos sz (dview d) \<and> reach d d') d"
  using assms
proof (induction n arbitrary: d sz pos)
  case 0
  then show ?case by (simp add: wp_simps reach_refl load_def)
next
  case (Suc n)
  show ?case
  proof (cases "sz = 0")
    case True
    then show ?thesis using Suc.prems by (simp add: wp_simps reach_refl load_def)
  next
    case False
    let ?k = "chunk pos sz"
    have k: "0 < ?k" "?k \<le> sz" "?k \<le> 65536" using chunk_bounds [of sz pos] False by simp_all
    note u = sectors_u64 [OF Suc.prems(4) k(2)]
    have n: "512 * nsec ?k \<le> 65536" using nsec_bounds(4) [of ?k 128] k(3) by simp
    have sp: "load pos sz f = load pos ?k f @ load (pos + ?k) (sz - ?k) f" for f
      using load_append [of pos ?k "sz - ?k" f] k(2) by simp
    show ?thesis using False
    proof (simp only: read_loop.simps neq0_conv if_True wp_simps, intro read_prepare_wp Suc.prems(1,2,4) disjI1 refl, simp)
      fix p assume p: "goodp p" "viewp p = dview d"
      let ?d = "d\<lparr>block_cache := load (pos - pos mod 512) (512 * nsec ?k) (dview d) @ drop (512 * nsec ?k) (block_cache d), ahci_port := p\<rparr>"
      have r: "reach d ?d" by (rule reachI [OF _ p]) (use Suc.prems(1) n in \<open>simp add: ahci_ok_def\<close>)
      have "wp (read_loop hba n (sz - ?k) (pos + ?k) None) (\<lambda>bs d'. bs = load (pos + ?k) (sz - ?k) (dview ?d) \<and> reach ?d d') ?d"
        using Suc.prems k reachD [OF r] by (intro Suc.IH) auto
      then show "wp (case (?k, if None = None then load pos ?k (dview d) else []) of (k, bs) \<Rightarrow>
           bindc (read_loop hba n (u64_sub sz k) (u64_add pos k) (map_option (\<lambda>p. p + k) None)) (\<lambda>rest. ret (bs @ rest)))
         (\<lambda>bs d'. bs = load pos sz (dview d) \<and> reach d d') ?d"
        unfolding prod.case u option.map if_True wp_simps
        by (rule wp_mono) (use reach_trans [OF r] reachD(3) [OF r] sp in auto)
    qed
  qed
qed

lemma sector_read_wp:
  assumes d: "ahci_ok d" "\<not> ahci_lock d" and n: "0 < n" "pos mod 512 + n \<le> 512" "pos + n \<le> 512 * sectors"
    and q: "\<And>p. goodp p \<Longrightarrow> viewp p = dview d \<Longrightarrow>
      Q (EOK, []) (d\<lparr>block_cache := load (pos - pos mod 512) 512 (dview d) @ drop 512 (block_cache d), ahci_port := p\<rparr>)"
  shows "wp (ahci_device_read_to hba pos n (Some (pos mod 512))) Q d"
proof -
  have k: "chunk pos n = n" using n(2) by (auto simp: chunk_def min_def)
  have s: "nsec n = 1" using n by (intro nsec_one) auto
  obtain m where m: "n = Suc m" using n(1) by (cases n) auto
  have u: "u64_add pos n = pos + n" "u64_sub n n = 0" using sectors_u64 [OF n(3), of n] by simp_all
  have z: "ahci_size d = 512 * sectors" using d by (simp add: ahci_ok_def)
  have rl: "wp (read_loop hba n n pos (Some (pos mod 512))) (\<lambda>bs. Q (EOK, bs)) d"
    unfolding m
  proof (simp only: read_loop.simps zero_less_Suc if_True wp_simps, rule read_prepare_wp [OF d _ n(3) [unfolded m] disjI2 [OF refl]])
    fix p assume p: "goodp p" "viewp p = dview d"
    have z: "read_loop hba m 0 q t = ret []" for q t by (cases m) simp_all
    show "wp (case (chunk pos (Suc m), if Some (pos mod 512) = None then load pos (chunk pos (Suc m)) (dview d) else []) of (k, bs) \<Rightarrow>
           bindc (read_loop hba m (u64_sub (Suc m) k) (u64_add pos k) (map_option (\<lambda>p. p + k) (Some (pos mod 512)))) (\<lambda>rest. ret (bs @ rest)))
         (\<lambda>bs. Q (EOK, bs)) (d\<lparr>block_cache := load (pos - pos mod 512) (512 * nsec (chunk pos (Suc m))) (dview d) @ drop (512 * nsec (chunk pos (Suc m))) (block_cache d), ahci_port := p\<rparr>)"
      using q [OF p] k s u(2) unfolding m by (simp add: wp_simps z)
  qed simp
  show ?thesis
    unfolding ahci_device_read_to_def wp_simps z u(1) using n(3) rl by (simp add: wp_simps Let_def)
qed

lemma store_sector: "off + length bs \<le> n \<Longrightarrow> store a (put_bytes off bs (load a n f)) f = store (a + off) bs f"
  by (rule ext) (auto simp: store_def put_bytes_def nth_append load_def)

lemma take_put: "off + length bs \<le> n \<Longrightarrow> n \<le> length c \<Longrightarrow> take n (put_bytes off bs c) = put_bytes off bs (take n c)"
proof -
  assume a: "off + length bs \<le> n" "n \<le> length c"
  then have "min off n = off" "take (n - length (take off c)) bs = bs" by simp_all
  then show ?thesis using a by (simp add: put_bytes_def take_drop)
qed

lemma length_put: "off + length bs \<le> length c \<Longrightarrow> length (put_bytes off bs c) = length c"
  by (simp add: put_bytes_def)

lemma write_back_wp:
  assumes d: "ahci_ok d" "\<not> ahci_lock d" and k: "0 < k" "k \<le> 65536" "k \<le> length buf" and off: "512 dvd start" "start + 512 * nsec k \<le> 512 * sectors"
    "off + k \<le> 512 * nsec k"
    and c: "off = 0 \<and> 512 * nsec k = k \<or> take (512 * nsec k) (block_cache d) = load start (512 * nsec k) (dview d)"
    and q: "\<And>d'. ahci_ok d' \<Longrightarrow> \<not> ahci_lock d' \<Longrightarrow> dview d' = store (start + off) (take k buf) (dview d) \<Longrightarrow> Q k d'"
  shows "wp (seqc dev_acquire
      (bindc (copy_out (Some off) (take k buf)) (\<lambda>_.
       bindc (sata_write hba start k) (\<lambda>_.
       seqc dev_release
      (ret k))))) Q d"
proof -
  let ?n = "512 * nsec k"
  have n: "?n \<le> 65536" using nsec_bounds(4) [of k 128] k(2) by simp
  have lb: "length (take k buf) = k" using k(3) by simp
  have lc: "length (block_cache d) = 65536" using d by (simp add: ahci_ok_def)
  have fit: "off + k \<le> length (block_cache d)" using off(3) n lc by simp
  let ?c = "put_bytes off (take k buf) (block_cache d)"
  let ?d = "d\<lparr>ahci_lock := True, block_cache := ?c\<rparr>"
  have lp: "length ?c = 65536" using length_put [of off "take k buf" "block_cache d"] fit lb lc by simp
  have ok: "ahci_ok ?d" "dview ?d = dview d" using d lp by (simp_all add: ahci_ok_def dview_def)
  have st: "store start (take ?n ?c) (dview d) = store (start + off) (take k buf) (dview d)"
    using c
  proof
    assume "off = 0 \<and> ?n = k"
    then show ?thesis using k(3) by (simp add: put_bytes_def)
  next
    assume "take ?n (block_cache d) = load start ?n (dview d)"
    then show ?thesis using store_sector [of off "take k buf" ?n start "dview d"] take_put [of off "take k buf" ?n "block_cache d"] off(3) n lb lc by simp
  qed
  have w: "wp (sata_write hba start k) (\<lambda>_ t. Q k (t\<lparr>ahci_lock := False\<rparr>)) ?d"
  proof (rule sata_write_wp [OF ok(1) off(1) k(1,2) off(2)])
    fix p assume p: "goodp p" "viewp p = store start (take ?n (block_cache ?d)) (dview ?d)"
    show "Q k (?d\<lparr>ahci_port := p, ahci_lock := False\<rparr>)"
      by (rule q) (use p st ok lp d in \<open>simp_all add: ahci_ok_def dview_def\<close>)
  qed
  show ?thesis
    using d(2) fit lb w by (simp add: wp_simps copy_out_def)
qed

lemma same_sector:
  assumes "pos mod 512 + k < (512::nat)"
  shows "(pos + k) mod 512 = pos mod 512 + k" "pos + k - (pos + k) mod 512 = pos - pos mod 512"
proof -
  show e: "(pos + k) mod 512 = pos mod 512 + k" using assms by (metis mod_add_left_eq mod_less)
  show "pos + k - (pos + k) mod 512 = pos - pos mod 512" unfolding e by simp
qed

text \<open>The read of the end of the last sector, when that sector is also the first one.\<close>

lemma tail_wp:
  assumes d: "ahci_ok d" "\<not> ahci_lock d" and k: "0 < k" "pos mod 512 + k \<le> 512" "pos + k \<le> 512 * sectors"
    and q: "\<And>d'. ahci_ok d' \<Longrightarrow> \<not> ahci_lock d' \<Longrightarrow> dview d' = dview d \<Longrightarrow>
      (pos mod 512 + k = 512 \<and> block_cache d' = block_cache d \<or> take 512 (block_cache d') = load (pos - pos mod 512) 512 (dview d)) \<Longrightarrow> Q k d'"
  shows "wp (if (pos + k) mod 512 \<noteq> 0 then
            bindc (ahci_device_read_to hba (pos + k) (u64_sub 512 ((pos + k) mod 512)) (Some ((pos + k) mod 512))) (\<lambda>_. ret k)
          else ret k) Q d"
proof (cases "pos mod 512 + k = 512")
  case True
  then have "(pos + k) mod 512 = 0" by (metis mod_add_left_eq mod_self)
  then show ?thesis using q [OF d refl] True by (simp add: wp_simps)
next
  case False
  then have s: "(pos + k) mod 512 = pos mod 512 + k" "pos + k - (pos + k) mod 512 = pos - pos mod 512" using same_sector k(2) by simp_all
  have u: "u64_sub 512 ((pos + k) mod 512) = 512 - (pos mod 512 + k)" using s(1) k(2) by (simp add: u64_sub_small)
  have lc: "length (block_cache d) = 65536" using d by (simp add: ahci_ok_def)
  obtain q where qq: "pos - pos mod 512 = 512 * q" by (metis minus_mod_eq_mult_div)
  have p: "pos = 512 * q + pos mod 512" using qq by (metis le_add_diff_inverse2 mod_less_eq_dividend)
  have "512 * q < 512 * sectors" using k p by linarith
  then have "q + 1 \<le> sectors" by simp
  then have cap: "pos + k + (512 - (pos mod 512 + k)) \<le> 512 * sectors" using p k(2) by linarith
  have "wp (ahci_device_read_to hba (pos + k) (512 - (pos mod 512 + k)) (Some ((pos + k) mod 512))) (\<lambda>_. Q k) d"
  proof (rule sector_read_wp [OF d _ _ cap])
    show "0 < 512 - (pos mod 512 + k)" "(pos + k) mod 512 + (512 - (pos mod 512 + k)) \<le> 512" using False k(2) s(1) by simp_all
    fix p assume p: "goodp p" "viewp p = dview d"
    let ?d = "d\<lparr>block_cache := load (pos + k - (pos + k) mod 512) 512 (dview d) @ drop 512 (block_cache d), ahci_port := p\<rparr>"
    have r: "reach d ?d" by (rule reachI [OF _ p]) (use lc in simp)
    have "take 512 (block_cache ?d) = load (pos - pos mod 512) 512 (dview d)" unfolding s(2) by simp
    then show "Q k ?d" using assms(6) [of ?d] reachD [OF r] d by simp
  qed
  then show ?thesis using s(1) k(1) unfolding u by (simp add: wp_simps)
qed

lemma ends_ok_chunk:
  assumes e: "ends_ok pos sz" and sz: "0 < sz"
  shows "ends_ok (pos + chunk pos sz) (sz - chunk pos sz)"
    "pos mod 512 = 0 \<Longrightarrow> 512 * nsec (chunk pos sz) = chunk pos sz \<or> chunk pos sz \<le> 512 \<and> chunk pos sz = sz"
proof -
  let ?k = "chunk pos sz"
  have k: "?k \<le> sz" using chunk_bounds [OF sz] by simp
  have full: "?k = sz" if "pos mod 512 + sz \<le> 512" using that by (auto simp: chunk_def min_def)
  show "ends_ok (pos + ?k) (sz - ?k)"
    using e full k unfolding ends_ok_def by auto
  show "512 * nsec ?k = ?k \<or> ?k \<le> 512 \<and> ?k = sz" if p: "pos mod 512 = 0"
    using e unfolding ends_ok_def
  proof
    assume "512 dvd pos + sz"
    then have "512 dvd sz" using p by (metis dvd_add_right_iff mod_0_imp_dvd)
    then have "512 dvd ?k" using p by (simp add: chunk_def min_def)
    then show ?thesis by (simp add: nsec_exact)
  qed (use full p in simp)
qed

lemma write_prepare_wp:
  assumes d: "ahci_ok d" "\<not> ahci_lock d" and sz: "0 < sz" "pos + sz \<le> 512 * sectors" "sz \<le> length buf" and e: "ends_ok pos sz"
    and q: "\<And>d'. ahci_ok d' \<Longrightarrow> \<not> ahci_lock d' \<Longrightarrow> dview d' = store pos (take (chunk pos sz) buf) (dview d) \<Longrightarrow> Q (chunk pos sz) d'"
  shows "wp (ahci_device_write_prepare hba sz pos buf) Q d"
proof -
  let ?k = "chunk pos sz" let ?off = "pos mod 512" let ?s = "pos - pos mod 512"
  note c = chunk_bounds [OF sz(1), of pos] and s = chunk_sectors [OF sz(1,2)]
  note u = sectors_u64 [OF sz(2) c(2)]
  have lt: "?off < 512" by simp
  have al: "alignement d = 512" "block_cache_size d = 65536" using d by (simp_all add: ahci_ok_def)
  have pos: "pos < 18446744073709551616" using sz small by simp
  have u2: "u64_sub 512 ?off = 512 - ?off" "u64_sub pos ?off = ?s" using pos lt by (simp_all add: u64_sub_small)
  have kl: "?k \<le> length buf" "pos + ?k \<le> 512 * sectors" using c(2) sz by linarith+
  have fin: "wp (if length buf < ?k then stop OutOfBounds else seqc dev_acquire
      (bindc (copy_out (Some ?off) (take ?k buf)) (\<lambda>_. bindc (sata_write hba ?s ?k) (\<lambda>_. seqc dev_release (ret ?k))))) Q d1"
    if d1: "ahci_ok d1" "\<not> ahci_lock d1" "dview d1 = dview d"
      "?off = 0 \<and> 512 * nsec ?k = ?k \<or> take (512 * nsec ?k) (block_cache d1) = load ?s (512 * nsec ?k) (dview d)" for d1
  proof -
    have "wp (seqc dev_acquire (bindc (copy_out (Some ?off) (take ?k buf)) (\<lambda>_. bindc (sata_write hba ?s ?k) (\<lambda>_. seqc dev_release (ret ?k))))) Q d1"
      by (rule write_back_wp [OF d1(1,2) c(1,3) kl(1) s]) (use d1(3,4) q in simp_all)
    then show ?thesis using kl(1) by simp
  qed
  have tail: "wp (if (pos + ?k) mod 512 \<noteq> 0 then
            bindc (ahci_device_read_to hba (pos + ?k) (u64_sub 512 ((pos + ?k) mod 512)) (Some ((pos + ?k) mod 512))) (\<lambda>_. ret ?k)
          else ret ?k) (\<lambda>k. wp (if length buf < k then stop OutOfBounds else seqc dev_acquire
      (bindc (copy_out (Some ?off) (take k buf)) (\<lambda>_. bindc (sata_write hba ?s k) (\<lambda>_. seqc dev_release (ret k))))) Q) d1"
    if d1: "ahci_ok d1" "\<not> ahci_lock d1" "dview d1 = dview d" and k: "?off + ?k \<le> 512"
      "?off = 0 \<or> take 512 (block_cache d1) = load ?s 512 (dview d)" for d1
  proof (rule tail_wp [OF d1(1,2) c(1) k(1) kl(2)])
    have n1: "nsec ?k = 1" using c(1) k(1) by (intro nsec_one) linarith+
    fix d2 :: "'h ahci_device" assume d2: "ahci_ok d2" "\<not> ahci_lock d2" "dview d2 = dview d1"
      "?off + ?k = 512 \<and> block_cache d2 = block_cache d1 \<or> take 512 (block_cache d2) = load ?s 512 (dview d1)"
    show "wp (if length buf < ?k then stop OutOfBounds else seqc dev_acquire
      (bindc (copy_out (Some ?off) (take ?k buf)) (\<lambda>_. bindc (sata_write hba ?s ?k) (\<lambda>_. seqc dev_release (ret ?k))))) Q d2"
      by (rule fin [OF d2(1,2)]) (use d2(3,4) d1(3) k n1 in auto)
  qed
  show ?thesis
  proof (cases "?off = 0")
    case True
    have nt: "(?off \<noteq> 0) = False" using True by simp
    show ?thesis
    proof (cases "?k \<le> 512 \<and> ?k = sz")
      case t: True
      then have k: "?k = sz" "?off + ?k \<le> 512" "(65536 < sz) = False" using True by auto
      note tail [OF d refl k(2) disjI1 [OF True], unfolded k(1)]
      then show ?thesis
        unfolding ahci_device_write_prepare_def by (simp only: wp_bindc wp_getc wp_ret al Let_def u2(2) u(1) nt k(3) if_False)
    next
      case False
      then have x: "512 * nsec ?k = ?k" using ends_ok_chunk(2) [OF e sz(1) True] by blast
      then have m: "(pos + ?k) mod 512 = 0" using True by (metis add_0 mod_add_left_eq mod_mult_self1_is_0)
      note f = fin [OF d refl disjI1 [OF conjI [OF True x]]]
      show ?thesis
      proof (cases "65536 < sz")
        case l: True
        then have k: "?k = 65536" "(65536 < sz) = True" using True by (simp_all add: chunk_def)
        show ?thesis using f [unfolded k(1)]
          unfolding ahci_device_write_prepare_def by (simp only: wp_bindc wp_getc wp_ret al Let_def u2(2) u(1) nt k(2) if_False if_True)
      next
        case l: False
        then have k: "?k = sz" "(65536 < sz) = False" using True by (simp_all add: chunk_def)
        then have m': "((pos + sz) mod 512 \<noteq> 0) = False" using m by simp
        show ?thesis using f [unfolded k(1)]
          unfolding ahci_device_write_prepare_def by (simp only: wp_bindc wp_getc wp_ret al Let_def u2(2) u(1) nt k(2) m' if_False)
      qed
    qed
  next
    case False
    have k: "?off + ?k \<le> 512" using c(4) [OF False] .
    have sk: "(if u64_sub 512 ?off > sz then sz else u64_sub 512 ?off) = ?k" unfolding u2 using False lt by (auto simp: chunk_def min_def)
    have sm: "?s mod 512 = 0" using s(1) by auto
    have cap: "?s + ?off \<le> 512 * sectors" using sz(2) by simp
    have lc: "length (block_cache d) = 65536" using d by (simp add: ahci_ok_def)
    have head: "wp (ahci_device_read_to hba ?s ?off (Some (?s mod 512))) (\<lambda>_. wp (if (pos + ?k) mod 512 \<noteq> 0 then
            bindc (ahci_device_read_to hba (pos + ?k) (u64_sub 512 ((pos + ?k) mod 512)) (Some ((pos + ?k) mod 512))) (\<lambda>_. ret ?k)
          else ret ?k) (\<lambda>k. wp (if length buf < k then stop OutOfBounds else seqc dev_acquire
      (bindc (copy_out (Some ?off) (take k buf)) (\<lambda>_. bindc (sata_write hba ?s k) (\<lambda>_. seqc dev_release (ret k))))) Q)) d"
    proof (rule sector_read_wp [OF d _ _ cap])
      show "0 < ?off" "?s mod 512 + ?off \<le> 512" using False lt sm by simp_all
      fix p assume p: "goodp p" "viewp p = dview d"
      let ?d = "d\<lparr>block_cache := load (?s - ?s mod 512) 512 (dview d) @ drop 512 (block_cache d), ahci_port := p\<rparr>"
      have r: "reach d ?d" by (rule reachI [OF _ p]) (use lc in simp)
      show "wp (if (pos + ?k) mod 512 \<noteq> 0 then
            bindc (ahci_device_read_to hba (pos + ?k) (u64_sub 512 ((pos + ?k) mod 512)) (Some ((pos + ?k) mod 512))) (\<lambda>_. ret ?k)
          else ret ?k) (\<lambda>k. wp (if length buf < k then stop OutOfBounds else seqc dev_acquire
      (bindc (copy_out (Some ?off) (take k buf)) (\<lambda>_. bindc (sata_write hba ?s k) (\<lambda>_. seqc dev_release (ret k))))) Q) ?d"
        by (rule tail [OF _ _ _ k]) (use reachD [OF r] d sm in simp_all)
    qed
    have nt: "(?off \<noteq> 0) = True" "(65536 < ?k) = False" using False c(3) by simp_all
    show ?thesis using head [unfolded sm]
      unfolding ahci_device_write_prepare_def by (simp only: wp_bindc wp_getc wp_ret al Let_def u2(2) sk u(2) nt if_True if_False)
  qed
qed

lemma store_nil: "store a [] f = f"
  by (rule ext) (auto simp: store_def)

lemma write_loop_wp:
  assumes "ahci_ok d" "\<not> ahci_lock d" "sz \<le> n" "pos + sz \<le> 512 * sectors" "sz = length buf" "ends_ok pos sz"
  shows "wp (write_loop hba n sz pos buf) (\<lambda>_ d'. ahci_ok d' \<and> \<not> ahci_lock d' \<and> dview d' = store pos buf (dview d)) d"
  using assms
proof (induction n arbitrary: d sz pos buf)
  case 0
  then show ?case by (simp add: wp_simps store_nil)
next
  case (Suc n)
  show ?case
  proof (cases "sz = 0")
    case True
    then show ?thesis using Suc.prems by (simp add: wp_simps store_nil)
  next
    case False
    let ?k = "chunk pos sz"
    have k: "0 < sz" "0 < ?k" "?k \<le> sz" using chunk_bounds [of sz pos] False by simp_all
    note u = sectors_u64 [OF Suc.prems(4) k(3)]
    have st: "store (pos + ?k) (drop ?k buf) (store pos (take ?k buf) f) = store pos buf f" for f
      using k(3) Suc.prems(5) by (auto simp: store_def fun_eq_iff)
    have c: "(0 < sz) = True" using k(1) by simp
    show ?thesis
      unfolding write_loop.simps c if_True wp_bindc
    proof (rule write_prepare_wp [OF Suc.prems(1,2) k(1) Suc.prems(4) _ Suc.prems(6)])
      fix d1 :: "'h ahci_device" assume d1: "ahci_ok d1" "\<not> ahci_lock d1" "dview d1 = store pos (take ?k buf) (dview d)"
      have "wp (write_loop hba n (sz - ?k) (pos + ?k) (drop ?k buf))
          (\<lambda>_ d'. ahci_ok d' \<and> \<not> ahci_lock d' \<and> dview d' = store (pos + ?k) (drop ?k buf) (dview d1)) d1"
        using k Suc.prems ends_ok_chunk(1) [OF Suc.prems(6) k(1)] by (intro Suc.IH d1(1,2)) auto
      then show "wp (write_loop hba n (u64_sub sz ?k) (u64_add pos ?k) (drop ?k buf))
          (\<lambda>_ d'. ahci_ok d' \<and> \<not> ahci_lock d' \<and> dview d' = store pos buf (dview d)) d1"
        by (simp add: u st d1(3))
    qed (use Suc.prems in simp)
  qed
qed

lemma ahci_ready_iff: "ahci_ready goodp sectors d \<longleftrightarrow> ahci_ok d \<and> \<not> ahci_lock d"
  by (auto simp: ahci_ready_def ahci_ok_def ahci_consts)

lemma ahci_view_eq: "ahci_view viewp d = dview d"
  by (simp add: ahci_view_def dview_def)

lemma ahci_read_wp:
  assumes "ahci_ready goodp sectors d" "pos + n \<le> 512 * sectors"
  shows "wp (ahci_device_read hba pos n) (\<lambda>(e, bs) d'. e = EOK \<and> bs = load pos n (ahci_view viewp d) \<and>
      ahci_ready goodp sectors d' \<and> ahci_view viewp d' = ahci_view viewp d) d"
proof -
  have d: "ahci_ok d" "\<not> ahci_lock d" "ahci_size d = 512 * sectors" using assms by (simp_all add: ahci_ready_iff ahci_ok_def)
  have u: "u64_add pos n = pos + n" using sectors_u64 [OF assms(2), of n] by simp
  have "wp (read_loop hba n n pos None) (\<lambda>bs d'. bs = load pos n (dview d) \<and> reach d d') d"
    by (rule read_loop_wp [OF d(1,2) order_refl assms(2)])
  then have "wp (read_loop hba n n pos None) (\<lambda>bs d'. bs = load pos n (dview d) \<and> ahci_ok d' \<and> \<not> ahci_lock d' \<and> dview d' = dview d) d"
    by (rule wp_mono) (use d reachD in auto)
  then show ?thesis
    using assms(2) unfolding ahci_device_read_def ahci_device_read_to_def
    by (simp add: wp_simps d(3) u Let_def ahci_ready_iff ahci_view_eq)
qed

lemma ahci_write_wp:
  assumes "ahci_ready goodp sectors d" "pos + length bs \<le> 512 * sectors" "ends_ok pos (length bs)"
  shows "wp (ahci_device_write hba pos bs) (\<lambda>e d'. e = EOK \<and>
      ahci_ready goodp sectors d' \<and> ahci_view viewp d' = store pos bs (ahci_view viewp d)) d"
proof -
  have d: "ahci_ok d" "\<not> ahci_lock d" "ahci_size d = 512 * sectors" using assms by (simp_all add: ahci_ready_iff ahci_ok_def)
  have u: "u64_add pos (length bs) = pos + length bs" using sectors_u64 [OF assms(2), of "length bs"] by simp
  show ?thesis
    using assms(2) write_loop_wp [OF d(1,2) order_refl assms(2) refl assms(3)] unfolding ahci_device_write_def
    by (simp add: wp_simps d(3) u Let_def ahci_ready_iff ahci_view_eq)
qed

lemma stale_tail_wp:
  assumes d: "ahci_ready goodp sectors d" and a: "512 dvd a" "a + 1024 \<le> 512 * sectors" and n: "512 < length bs" "length bs < 1024"
  shows "wp (ahci_device_write hba a bs) (\<lambda>e d'. e = EOK \<and> ahci_ready goodp sectors d' \<and>
      ahci_view viewp d' = store a (bs @ take (1024 - length bs) (drop (length bs) (block_cache d))) (ahci_view viewp d)) d"
    (is "wp _ ?P d")
proof -
  let ?n = "length bs"
  have ok: "ahci_ok d" "\<not> ahci_lock d" "ahci_size d = 512 * sectors" "alignement d = 512" "block_cache_size d = 65536" "length (block_cache d) = 65536"
    using d by (simp_all add: ahci_ready_iff ahci_ok_def)
  have am: "a mod 512 = 0" using a(1) by auto
  have nm: "?n mod 512 = ?n - 512" using n mod_if [of ?n 512] mod_less [of "?n - 512" 512] by simp
  have m: "(a + ?n) mod 512 = ?n - 512" using am nm by (metis add_0 mod_add_left_eq)
  have u: "u64_add a ?n = a + ?n" "u64_sub ?n ?n = 0" "u64_sub 512 (?n - 512) = 1024 - ?n" "u64_sub a 0 = a"
    using sectors_u64 [of a ?n 0] sectors_u64 [of a ?n ?n] sectors_u64 [of 0 a 0] a(2) n by (simp_all add: u64_sub_small)
  have sec: "nsec ?n = 2" using n nsec_bounds(2,3) [of ?n] by linarith
  let ?c = "load (a + 512) 512 (dview d) @ drop 512 (block_cache d)"
  have pb: "put_bytes 0 bs ?c = bs @ drop ?n (block_cache d)" using n by (simp add: put_bytes_def)
  have ne: "bs \<noteq> []" using n by auto
  have fin: "wp (seqc dev_acquire (bindc (copy_out (Some 0) bs) (\<lambda>_. bindc (sata_write hba a ?n) (\<lambda>_. seqc dev_release (ret ?n)))))
      (\<lambda>k d'. k = ?n \<and> ?P EOK d') (d\<lparr>block_cache := ?c, ahci_port := p\<rparr>)" if p: "goodp p" "viewp p = dview d" for p
  proof -
    let ?d = "d\<lparr>block_cache := ?c, ahci_port := p, ahci_lock := True, block_cache := bs @ drop ?n (block_cache d)\<rparr>"
    have "ahci_ok ?d" "dview ?d = dview d" using ok(1) n p by (simp_all add: ahci_ok_def dview_def)
    then have "wp (sata_write hba a ?n) (\<lambda>_ t. ?P EOK (t\<lparr>ahci_lock := False\<rparr>)) ?d"
      using a n sec by (intro sata_write_wp) (simp_all add: ahci_ready_iff ahci_view_eq ahci_ok_def dview_def ne)
    then show ?thesis using ok n by (simp add: wp_simps copy_out_def pb)
  qed
  have "wp (ahci_device_read_to hba (a + ?n) (1024 - ?n) (Some ((a + ?n) mod 512)))
      (\<lambda>_. wp (seqc dev_acquire (bindc (copy_out (Some 0) bs) (\<lambda>_. bindc (sata_write hba a ?n) (\<lambda>_. seqc dev_release (ret ?n)))))
      (\<lambda>k d'. k = ?n \<and> ?P EOK d')) d"
    using m n a fin by (intro sector_read_wp [OF ok(1,2)]) simp_all
  then have "wp (ahci_device_write_prepare hba ?n a bs) (\<lambda>k d'. k = ?n \<and> ?P EOK d') d"
    unfolding ahci_device_write_prepare_def using n by (simp add: wp_bindc wp_getc wp_ret ok(4,5) Let_def am u m)
  then have pr: "wp (ahci_device_write_prepare hba ?n a bs) (\<lambda>k. wp (write_loop hba (?n - 1) (u64_sub ?n k) (u64_add a k) (drop k bs)) (\<lambda>_. ?P EOK)) d"
    by (rule wp_mono) (use n in \<open>cases "?n - 1"; simp add: u wp_simps\<close>)
  have "wp (write_loop hba ?n ?n a bs) (\<lambda>_. ?P EOK) d"
    using pr n by (cases ?n) (simp_all add: wp_bindc)
  then show ?thesis
    unfolding ahci_device_write_def using a(2) n by (simp add: wp_bindc wp_getc wp_seqc wp_ret ok(3) u Let_def)
qed

end

sublocale sata_drive \<subseteq> disk: byte_store "ahci_device_read hba" "ahci_device_write hba" "ahci_ready goodp sectors" "ahci_view viewp"
    "512 * sectors" ends_ok
proof
  fix d a n
  assume "ahci_ready goodp sectors d" "a + n \<le> 512 * sectors"
  from wp_exI [OF ahci_read_wp [OF this]]
  show "\<exists>d'. ahci_device_read hba a n d = Inr ((EOK, load a n (ahci_view viewp d)), d') \<and>
      ahci_ready goodp sectors d' \<and> ahci_view viewp d' = ahci_view viewp d" by auto
next
  fix d a and bs :: "byte list"
  assume "ahci_ready goodp sectors d" "a + length bs \<le> 512 * sectors" "ends_ok a (length bs)"
  from wp_exI [OF ahci_write_wp [OF this]]
  show "\<exists>d'. ahci_device_write hba a bs d = Inr (EOK, d') \<and>
      ahci_ready goodp sectors d' \<and> ahci_view viewp d' = store a bs (ahci_view viewp d)" by auto
qed

context sata_drive
begin

lemma disk_store: "byte_store (ahci_device_read hba) (ahci_device_write hba) (ahci_ready goodp sectors) (ahci_view viewp)
    (512 * sectors) ends_ok"
  by unfold_locales

end

subsection \<open>A drive that is always ready\<close>

text \<open>
  The laws of \<open>sata_drive\<close> hold of a controller that is never busy and whose drive keeps its sectors in
  a function.
\<close>

definition plain_drive :: "(nat \<Rightarrow> byte) hba" where
  "plain_drive =
     \<lparr>task_file_data = (\<lambda>_ _. 0),
      hba_issue = (\<lambda>cmd mem f.
        let lba = fis_lba (command_fis cmd); count = fis_count (command_fis cmd); as = dma_addresses cmd in
        if cmd_write (header cmd) = 0 then (Completed, scatter as (load (512 * lba) (512 * count) f) mem, f)
        else (Completed, mem, store (512 * lba) (gather as mem) f))\<rparr>"

definition plain_device :: "nat \<Rightarrow> (nat \<Rightarrow> byte) \<Rightarrow> (nat \<Rightarrow> byte) ahci_device" where
  "plain_device sectors f =
     \<lparr>block_cache = replicate HBA_MAX_BLOCK_SIZE 0, block_cache_size = HBA_MAX_BLOCK_SIZE, alignement = ATA_SECTOR_SIZE,
      ahci_lock = False, ahci_size = 512 * sectors, main_slot = 0, ahci_port = f\<rparr>"

interpretation plain: sata_drive plain_drive "\<lambda>_. True" "\<lambda>f. f" 4096
  by unfold_locales (auto simp: plain_drive_def Let_def ATA_CMD_TIMEOUT_def port_busy_def intro: exI [of _ 0])

lemma plain_sata_drive: "sata_drive plain_drive (\<lambda>_. True) (\<lambda>f. f) 4096"
  by unfold_locales

lemma plain_device_ready: "ahci_ready (\<lambda>_. True) sectors (plain_device sectors f)" "ahci_view (\<lambda>f. f) (plain_device sectors f) = f"
  by (simp_all add: ahci_ready_def plain_device_def ahci_view_def)

subsection \<open>Properties\<close>

text \<open>
  C0: Over any controller and drive that transfer the sectors named by a command, the driver
  implements a byte-addressed disk: a read of any range returns its bytes and changes nothing,
  a write that ends at a sector boundary or lies in one sector replaces exactly its range, and
  both return without a fault.
\<close>

theorem ahci_device_correct:
  assumes "sata_drive hba goodp viewp sectors" "ahci_ready goodp sectors d"
  shows "(\<forall>a n. a + n \<le> 512 * sectors \<longrightarrow> (\<exists>d'. ahci_device_read hba a n d = Inr ((EOK, load a n (ahci_view viewp d)), d') \<and>
      ahci_ready goodp sectors d' \<and> ahci_view viewp d' = ahci_view viewp d)) \<and>
    (\<forall>a bs. a + length bs \<le> 512 * sectors \<and> (512 dvd a + length bs \<or> a mod 512 + length bs \<le> 512) \<longrightarrow>
      (\<exists>d'. ahci_device_write hba a bs d = Inr (EOK, d') \<and>
      ahci_ready goodp sectors d' \<and> ahci_view viewp d' = store a bs (ahci_view viewp d)))"
proof -
  have b: "byte_store (ahci_device_read hba) (ahci_device_write hba) (ahci_ready goodp sectors) (ahci_view viewp) (512 * sectors) ends_ok"
    using assms(1) by (rule sata_drive.disk_store)
  show ?thesis
    using byte_store.rd_ok [OF b assms(2)] byte_store.wr_ok [OF b assms(2)] by (simp add: ends_ok_def)
qed

theorem ahci_device_correct_witness:
  "\<exists>d d'. ahci_device_write plain_drive 600 [1, 2, 3] (plain_device 4096 (\<lambda>_. 0)) = Inr (EOK, d) \<and>
     ahci_device_read plain_drive 599 5 d = Inr ((EOK, [0, 1, 2, 3, 0]), d')"
proof -
  obtain d where d: "ahci_device_write plain_drive 600 [1, 2, 3] (plain_device 4096 (\<lambda>_. 0)) = Inr (EOK, d)"
    "ahci_ready (\<lambda>_. True) 4096 d" "ahci_view (\<lambda>f. f) d = store 600 [1, 2, 3] (\<lambda>_. 0)"
    using conjunct2 [OF ahci_device_correct [OF plain_sata_drive plain_device_ready(1)], rule_format, of 600 "[1, 2, 3]" "\<lambda>_. 0"]
    by (auto simp: plain_device_ready(2))
  obtain d' where "ahci_device_read plain_drive 599 5 d = Inr ((EOK, load 599 5 (store 600 [1, 2, 3] (\<lambda>_. 0))), d')"
    using conjunct1 [OF ahci_device_correct [OF plain_sata_drive d(2)], rule_format, of 599 5] d(3) by auto
  moreover have "load 599 5 (store 600 [1, 2, 3] (\<lambda>_. 0)) = [0, 1, 2, 3, 0]" by (simp add: load_def store_def upt_rec numeral_eq_Suc)
  ultimately show ?thesis using d(1) by auto
qed

text \<open>
  C0: A write of more than one and less than two sectors that starts at a sector boundary
  overwrites the bytes behind the written range, up to the end of the second sector, with whatever
  the block cache held before.
\<close>

theorem ahci_write_stale_tail:
  assumes "sata_drive hba goodp viewp sectors" "ahci_ready goodp sectors d"
    and "512 dvd a" "a + 1024 \<le> 512 * sectors" "512 < length bs" "length bs < 1024"
  shows "\<exists>d'. ahci_device_write hba a bs d = Inr (EOK, d') \<and>
    ahci_view viewp d' = store a (bs @ take (1024 - length bs) (drop (length bs) (block_cache d))) (ahci_view viewp d)"
  using wp_exI [OF sata_drive.stale_tail_wp [OF assms]] by auto

theorem ahci_write_stale_tail_witness:
  "\<exists>d'. ahci_device_write plain_drive 0 (replicate 600 1) (plain_device 4096 (\<lambda>_. 7)) = Inr (EOK, d') \<and>
     load 598 4 (ahci_view (\<lambda>f. f) d') = [1, 1, 0, 0]"
proof -
  obtain d' where "ahci_device_write plain_drive 0 (replicate 600 1) (plain_device 4096 (\<lambda>_. 7)) = Inr (EOK, d')"
    and d: "ahci_view (\<lambda>f. f) d' = store 0 (replicate 600 1 @ take 424 (drop 600 (block_cache (plain_device 4096 (\<lambda>_. 7))))) (\<lambda>_. 7)"
    using ahci_write_stale_tail [OF plain_sata_drive plain_device_ready(1), of 0 "replicate 600 1" "\<lambda>_. 7"]
    by (auto simp: plain_device_ready(2))
  moreover have "load 598 4 (ahci_view (\<lambda>f. f) d') = [1, 1, 0, 0]"
    unfolding d by (simp add: load_def store_def plain_device_def HBA_MAX_BLOCK_SIZE_def upt_rec nth_append)
  ultimately show ?thesis by auto
qed

text \<open>
  C0: The register structure of a command keeps only the lower 24 bits of the sector number
  (of those below \<open>2 ^ 32\<close>), so behind 8 GiB the driver reads and writes the sectors of the first 8 GiB.
\<close>

theorem sata_address_wraps:
  assumes "sector < 2 ^ 32"
  shows "fis_lba (sata_fis cmd sector n) = sector mod 2 ^ 24"
proof -
  have s: "sector div 4294967296 = 0" "u32 sector = sector" using assms by (simp_all add: u32_def)
  have "sector mod 16777216 mod 256 + 256 * (sector mod 16777216 div 256 mod 256) + 65536 * (sector mod 16777216 div 65536) =
      sector mod 16777216"
    using fis_lba_small [of "sector mod 2 ^ 24" cmd n] by (simp add: fis_lba_def sata_fis_def Let_def u32_def)
  moreover have "sector mod 16777216 mod 256 = sector mod 256" by (simp add: mod_mod_cancel)
  moreover have "sector mod 16777216 div 256 mod 256 = sector div 256 mod 256"
    using mod_mult2_eq [of "sector" 256 65536] by (simp add: mod_mod_cancel)
  moreover have "sector mod 16777216 div 65536 = sector div 65536 mod 256"
    using mod_mult2_eq [of "sector" 65536 256] by simp
  ultimately have "sector mod 256 + 256 * (sector div 256 mod 256) + 65536 * (sector div 65536 mod 256) = sector mod 16777216" by linarith
  then show ?thesis using s by (simp add: fis_lba_def sata_fis_def Let_def)
qed

theorem sata_address_wraps_witness: "fis_lba (sata_fis ATA_COMMAND_WRITE_DMA 16777221 1) = 5"
  using sata_address_wraps [of 16777221 ATA_COMMAND_WRITE_DMA 1] by simp

text \<open>Only the first eight ports are found.\<close>

lemma find_ports_first_eight: "i \<in> set (controller_find_ports impl ports) \<Longrightarrow> i < 8"
proof (rule ccontr)
  assume i: "i \<in> set (controller_find_ports impl ports)" "\<not> i < 8"
  have "impl mod 2 ^ 8 < (2::nat) ^ 8" by simp
  also have "\<dots> \<le> 2 ^ i" by (rule power_increasing) (use i(2) in simp_all)
  finally have "impl mod 2 ^ 8 div 2 ^ i = 0" by (rule div_less)
  moreover have "odd (impl mod 2 ^ 8 div 2 ^ i)" using i(1) unfolding controller_find_ports_def Let_def set_filter by blast
  ultimately show False by (metis even_zero)
qed

end
