(* ===== verification/Fat32_Dir_Correct.thy ===== *)
theory Fat32_Dir_Correct
  imports Fat32_Chain Fat32_Dir
begin

section \<open>Reading directories\<close>

text \<open>
  Directories are read entry by entry through a cache of one cluster. On a well-formed chain the
  cached read returns the entry of the contents of the chain, in any order of the entry numbers,
  and \<^verbatim>\<open>fat_get_dir_size\<close> ends with the position behind the last valid entry.
\<close>

definition dir_entry :: "('d \<Rightarrow> nat \<Rightarrow> byte) \<Rightarrow> 'd fat_state \<Rightarrow> nat list \<Rightarrow> nat \<Rightarrow> byte list" where
  "dir_entry view s cs i = field (32 * i) 32 (content view s cs)"

text \<open>The cache of a caller describes the buffer.\<close>

definition cache_ok :: "('d \<Rightarrow> nat \<Rightarrow> byte) \<Rightarrow> 'd fat_state \<Rightarrow> nat list \<Rightarrow> dir_cache \<Rightarrow> bool" where
  "cache_ok view s cs c \<longleftrightarrow> cache_id c = 0 \<or>
     cache_id c \<le> length cs \<and> last_cluster_read c = cs ! (cache_id c - 1) \<and> cluster_buffer s = cdata view s (cs ! (cache_id c - 1))"

definition dir_geometry :: "'d fat_state \<Rightarrow> bool" where
  "dir_geometry s \<longleftrightarrow> cluster_size (fctx s) = 32 * entries_per_cluster (fctx s) \<and> length (cluster_buffer s) = cluster_size (fctx s)"

lemma chain_suffix: "chain f c cs \<Longrightarrow> i < length cs \<Longrightarrow> chain f (cs ! i) (drop i cs)"
proof -
  assume c: "chain f c cs" "i < length cs"
  have "cs = take i cs @ cs ! i # drop (Suc i) cs" using c(2) by (rule id_take_nth_drop)
  then have "chain f (cs ! i) (cs ! i # drop (Suc i) cs)" using c(1) chain_tail by metis
  then show ?thesis using c(2) by (simp add: Cons_nth_drop_Suc)
qed

lemma chain_succ:
  assumes "chain f c cs" "i < length cs"
  shows "cs ! i < length f" "2 \<le> cs ! i" "i + 1 < length cs \<Longrightarrow> f ! (cs ! i) mod 0x10000000 = cs ! (i + 1) \<and> \<not> end_of_chain (cs ! (i + 1))"
    "\<not> i + 1 < length cs \<Longrightarrow> end_of_chain (f ! (cs ! i) mod 0x10000000)"
proof -
  have n: "chain f (f ! (cs ! i) mod 0x10000000) (drop (Suc i) cs)" "cs ! i < length f" "2 \<le> cs ! i"
    using chain_suffix [OF assms] assms(2) by (simp_all add: Cons_nth_drop_Suc [symmetric])
  then show "cs ! i < length f" "2 \<le> cs ! i" by simp_all
  show "f ! (cs ! i) mod 0x10000000 = cs ! (i + 1) \<and> \<not> end_of_chain (cs ! (i + 1))" if "i + 1 < length cs"
    using n(1) that by (auto simp: Cons_nth_drop_Suc [symmetric])
  show "end_of_chain (f ! (cs ! i) mod 0x10000000)" if "\<not> i + 1 < length cs"
    using n(1) that by (simp add: end_of_chain_def)
qed

lemma content_take: "content view s cs = content view s (take j cs) @ content view s (drop j cs)"
  by (metis append_take_drop_id content_append)

lemma dir_entry_cluster:
  assumes "cluster_size (fctx s) = 32 * e" "0 < e" "i div e < length cs"
  shows "dir_entry view s cs i = field (i mod e * 32) 32 (cdata view s (cs ! (i div e)))"
proof -
  let ?j = "i div e"
  have "content view s cs = content view s (take ?j cs) @ cdata view s (cs ! ?j) @ content view s (drop (Suc ?j) cs)"
    using content_take [of view s cs ?j] assms(3) by (simp add: Cons_nth_drop_Suc [symmetric])
  moreover have "length (content view s (take ?j cs)) = 32 * (e * ?j)" using assms by (simp add: length_content)
  moreover have "32 * i = 32 * (e * ?j) + i mod e * 32" using mult_div_mod_eq [of e i] by linarith
  moreover have "i mod e * 32 + 32 \<le> 32 * e" using assms(2) mod_less_divisor [of e i] by linarith
  ultimately show ?thesis using assms(1) by (simp add: dir_entry_def field_def)
qed

text \<open>\<open>used P n\<close>: the position behind the last of the first \<open>n\<close> that satisfies \<open>P\<close>.\<close>

fun used :: "(nat \<Rightarrow> bool) \<Rightarrow> nat \<Rightarrow> nat" where
  "used P 0 = 0"
| "used P (Suc n) = (if P n then Suc n else used P n)"

lemma used_spec: "used P n \<le> n \<and> (\<forall>j. used P n \<le> j \<and> j < n \<longrightarrow> \<not> P j) \<and> (0 < used P n \<longrightarrow> P (used P n - 1))"
  by (induction n) (auto simp: less_Suc_eq)

context fat_store
begin

abbreviation dir_state where
  "dir_state s \<equiv> core s \<and> dir_geometry s"

text \<open>\<open>redir s t\<close>: nothing has changed but the private data of the device and the buffer.\<close>

definition redir where
  "redir s t \<longleftrightarrow> (\<exists>d b. good d \<and> view d = view (sd_data (fdev s)) \<and> length b = cluster_size (fctx s) \<and>
     t = s\<lparr>fdev := (fdev s)\<lparr>sd_data := d\<rparr>, cluster_buffer := b\<rparr>)"

lemma redirD:
  assumes "redir s t"
  shows "dir_state s \<Longrightarrow> dir_state t" "fctx t = fctx s" "cdata view t = cdata view s" "content view t = content view s"
    "dir_entry view t = dir_entry view s" "disk view t = disk view s" "fat_allocate_cluster_lock t = fat_allocate_cluster_lock s"
proof -
  have c: "fctx t = fctx s" "disk view t = disk view s" "fat_allocate_cluster_lock t = fat_allocate_cluster_lock s"
    using assms by (auto simp: redir_def disk_def)
  show d: "cdata view t = cdata view s" by (rule ext) (simp add: cdata_def c)
  show e: "content view t = content view s" by (rule ext) (simp add: content_def d)
  show "dir_entry view t = dir_entry view s" by (intro ext) (simp add: dir_entry_def e)
  show "dir_state s \<Longrightarrow> dir_state t"
    using assms by (auto simp: redir_def fat_core_def fat_dev_def mirrored_def disk_def dir_geometry_def)
qed (use assms in \<open>auto simp: redir_def disk_def\<close>)

lemma redir_refl: "dir_state s \<Longrightarrow> redir s s"
  unfolding redir_def by (intro exI [of _ "sd_data (fdev s)"] exI [of _ "cluster_buffer s"]) (simp add: fat_core_def fat_dev_def dir_geometry_def)

lemma redir_trans: "redir s t \<Longrightarrow> redir t u \<Longrightarrow> redir s u"
  unfolding redir_def by auto blast

lemma follow_chain_wp:
  assumes "chain (fat (fctx s)) c cs" "i < length cs"
  shows "wp (follow_chain n (cs ! i)) Q s = Q (if i + n < length cs then Some (cs ! (i + n)) else None) s"
  using assms(2)
proof (induction n arbitrary: i)
  case (Suc n)
  show ?case
  proof (cases "i + 1 < length cs")
    case True
    then show ?thesis using chain_succ [OF assms(1) Suc.prems] Suc.IH [of "i + 1"] by (simp add: wp_simps wp_get_next)
  next
    case False
    then show ?thesis using chain_succ [OF assms(1) Suc.prems] by (simp add: wp_simps wp_get_next)
  qed
qed (simp add: wp_simps)

lemma read_entry_wp:
  assumes s: "dir_state s" and ch: "chain (fat (fctx s)) c cs" and ne: "cs \<noteq> []" and ca: "cache_ok view s cs cache" and i: "i < 2 ^ 32"
  shows "wp (fat_read_entry_with_cache c i cache) (\<lambda>(r, cache') t. redir s t \<and>
      (if i < entries_per_cluster (fctx s) * length cs then r = Some (dir_entry view s cs i) \<and> cache_ok view t cs cache'
       else r = None)) s"
proof -
  let ?e = "entries_per_cluster (fctx s)" let ?cs = "cluster_size (fctx s)"
  have wf: "fat_wf (fctx s)" using s by (simp add: fat_core_def fat_dev_def)
  have g: "?cs = 32 * ?e" "length (cluster_buffer s) = ?cs" "0 < ?e" using s fat_wfD(5) [OF wf] by (auto simp: dir_geometry_def)
  let ?k = "i div ?e"
  have k: "?k < 2 ^ 32" using i div_le_dividend [of i ?e] by linarith
  have ku: "u32 ?k = ?k" using k by simp
  have kl: "i < ?e * length cs \<longleftrightarrow> ?k < length cs" using g(3) by (simp add: div_less_iff_less_mult mult.commute)
  have c0: "c = cs ! 0" using ch ne by (cases cs) auto
  have lc: "length cs < 4294967296"
  proof -
    have "card (set cs) \<le> card {..<length (fat (fctx s))}" using chain_set [OF ch] by (intro card_mono) auto
    then show ?thesis using distinct_card [OF chain_distinct [OF ch]] fat_wfD(2) [OF wf] by simp
  qed
  have fit: "i mod ?e * 32 + 32 \<le> ?cs" using g(1,3) mod_less_divisor [of ?e i] by linarith
  have rd: "wp (bindc (follow_chain (?k - j) (cs ! j)) (\<lambda>r. case r of
              None \<Rightarrow> ret (False, cache\<lparr>cache_id := id\<rparr>)
            | Some cluster \<Rightarrow>
                bindc (getc cluster_buffer) (\<lambda>b.
                bindc (fat_read_cluster cluster 0 ?cs b) (\<lambda>(e, b).
                seqc (modc (cluster_buffer_update (\<lambda>_. b)))
               (ret (True, \<lparr>cache_id = ?k + 1, last_cluster_read = cluster\<rparr>))))))
     (\<lambda>(found, cache') t. redir s t \<and> (found \<longleftrightarrow> ?k < length cs) \<and> (found \<longrightarrow> cluster_buffer t = cdata view s (cs ! ?k) \<and> cache_ok view t cs cache')) s"
    if j: "j \<le> ?k" "j < length cs" for j id
  proof (cases "?k < length cs")
    case True
    note m = chain_succ(1,2) [OF ch True]
    have "wp (fat_read_cluster (cs ! ?k) 0 ?cs (cluster_buffer s)) (\<lambda>(e, b) t. redir s (t\<lparr>cluster_buffer := b\<rparr>) \<and>
        b = cdata view s (cs ! ?k) \<and> cache_ok view (t\<lparr>cluster_buffer := b\<rparr>) cs \<lparr>cache_id = ?k + 1, last_cluster_read = cs ! ?k\<rparr>) s"
    proof (rule fat_read_cluster_wp)
      fix d assume d: "good d" "view d = view (sd_data (fdev s))"
      have b: "take ?cs (drop 0 (cdata view s (cs ! ?k))) @ drop ?cs (cluster_buffer s) = cdata view s (cs ! ?k)" using g(2) by simp
      let ?t = "s\<lparr>fdev := (fdev s)\<lparr>sd_data := d\<rparr>, cluster_buffer := cdata view s (cs ! ?k)\<rparr>"
      have r: "redir s ?t" unfolding redir_def using d by (intro exI [of _ d] exI [of _ "cdata view s (cs ! ?k)"]) simp
      have "cache_ok view ?t cs \<lparr>cache_id = ?k + 1, last_cluster_read = cs ! ?k\<rparr>" using True redirD(3) [OF r] by (simp add: cache_ok_def)
      then show "(\<lambda>(e, b) t. redir s (t\<lparr>cluster_buffer := b\<rparr>) \<and>
        b = cdata view s (cs ! ?k) \<and> cache_ok view (t\<lparr>cluster_buffer := b\<rparr>) cs \<lparr>cache_id = ?k + 1, last_cluster_read = cs ! ?k\<rparr>)
        (EOK, take ?cs (drop 0 (cdata view s (cs ! ?k))) @ drop ?cs (cluster_buffer s)) (s\<lparr>fdev := (fdev s)\<lparr>sd_data := d\<rparr>\<rparr>)"
        unfolding prod.case b using r by blast
    qed (use s m g(2) in simp_all)
    then show ?thesis using True j follow_chain_wp [OF ch j(2)] by (simp add: wp_simps case_prod_unfold)
  next
    case False
    then show ?thesis using j follow_chain_wp [OF ch j(2)] redir_refl [OF s] by (simp add: wp_simps)
  qed
  have last: "wp (if ?k \<noteq> u32_sub (cache_id cache) 1 then
            let id = u32_sub (cache_id cache) 1;
                (cluster, cluster_index) =
                  (if id \<noteq> 0 \<and> ?k > id then (last_cluster_read cache, id) else (c, 0))
            in
            bindc (follow_chain (?k - cluster_index) cluster) (\<lambda>r. case r of
              None \<Rightarrow> ret (False, cache\<lparr>cache_id := id\<rparr>)
            | Some cluster \<Rightarrow>
                bindc (getc cluster_buffer) (\<lambda>b.
                bindc (fat_read_cluster cluster 0 ?cs b) (\<lambda>(e, b).
                seqc (modc (cluster_buffer_update (\<lambda>_. b)))
               (ret (True, \<lparr>cache_id = ?k + 1, last_cluster_read = cluster\<rparr>)))))
          else ret (True, cache))
     (\<lambda>(found, cache') t. redir s t \<and> (found \<longleftrightarrow> ?k < length cs) \<and> (found \<longrightarrow> cluster_buffer t = cdata view s (cs ! ?k) \<and> cache_ok view t cs cache')) s"
  proof (cases "cache_id cache = 0")
    case True
    have "16 \<le> ?e" using g fat_wfD(4) [OF wf] by presburger
    then have "?k \<le> i div 2" using div_le_mono2 [of 2 ?e i] by simp
    then have "?k < 2147483648" using i by simp
    moreover have "u32_sub (cache_id cache) 1 = 4294967295" using True by (simp add: u32_sub_def u32_def)
    ultimately show ?thesis using rd [of 0 4294967295] ne c0 by (simp add: Let_def)
  next
    case False
    let ?m = "cache_id cache - 1"
    have m: "?m < length cs" "last_cluster_read cache = cs ! ?m" "cluster_buffer s = cdata view s (cs ! ?m)"
      using ca False by (auto simp: cache_ok_def)
    have um: "u32_sub (cache_id cache) 1 = ?m" using m(1) lc False by (intro u32_sub_small) simp_all
    note um = um um [unfolded One_nat_def]
    show ?thesis
    proof (cases "?k = ?m")
      case True
      then show ?thesis using m ca redir_refl [OF s] by (simp add: um wp_simps)
    next
      case kf: False
      show ?thesis
      proof (cases "?m \<noteq> 0 \<and> ?m < ?k")
        case True
        then show ?thesis using kf rd [of ?m ?m] m by (simp add: um Let_def)
      next
        case False
        then show ?thesis using kf rd [of 0 ?m] ne c0 by (auto simp: um Let_def)
      qed
    qed
  qed
  have fin: "wp (case fc of (found, cache) \<Rightarrow>
       if \<not> found then ret (None, cache)
       else
         bindc (getc cluster_buffer) (\<lambda>b.
         let off = i mod ?e * ENTRY_SIZE in
         if off + ENTRY_SIZE \<le> length b then ret (Some (field off ENTRY_SIZE b), cache) else stop OutOfBounds))
      (\<lambda>(r, cache') t. redir s t \<and>
      (if i < ?e * length cs then r = Some (dir_entry view s cs i) \<and> cache_ok view t cs cache' else r = None)) t"
    if "(\<lambda>(found, cache') t. redir s t \<and> (found \<longleftrightarrow> ?k < length cs) \<and> (found \<longrightarrow> cluster_buffer t = cdata view s (cs ! ?k) \<and> cache_ok view t cs cache')) fc t"
    for fc t
    using that dir_entry_cluster [OF g(1,3), of i cs view] fit
    by (cases fc) (auto simp: kl wp_simps ENTRY_SIZE_def Let_def)
  have e0: "(?e = 0) = False" using g(3) by simp
  show ?thesis
    unfolding fat_read_entry_with_cache_def using wp_mono [OF last fin]
    by (simp only: wp_bindc ctxc_def wp_getc Let_def ku e0 if_False)
qed

lemma dir_size_loop_wp:
  assumes s: "dir_state s" and ch: "chain (fat (fctx s)) c cs" and ne: "cs \<noteq> []" and N: "N = entries_per_cluster (fctx s) * length cs" "N < 2 ^ 32"
    and "cache_ok view s cs cache" "i \<le> N" "N - i < n" "lv = used (\<lambda>i. fat_entry_valid (dir_entry view s cs i)) i"
  shows "wp (dir_size_loop n c i lv cache) (\<lambda>r t. redir s t \<and> r = used (\<lambda>i. fat_entry_valid (dir_entry view s cs i)) N) s"
  using s ch N(1) assms(6-)
proof (induction n arbitrary: s i lv cache)
  case (Suc n)
  let ?P = "\<lambda>i. fat_entry_valid (dir_entry view s cs i)"
  have i: "i < 2 ^ 32" using Suc.prems(5) N(2) by linarith
  show ?case unfolding dir_size_loop.simps wp_bindc
  proof (rule wp_mono [OF read_entry_wp [OF Suc.prems(1,2) ne Suc.prems(4) i]], clarify)
    fix r cache' t
    assume t: "redir s t" "if i < entries_per_cluster (fctx s) * length cs then r = Some (dir_entry view s cs i) \<and> cache_ok view t cs cache' else r = None"
    note d = redirD [OF t(1)]
    show "wp (case r of None \<Rightarrow> ret lv | Some dir \<Rightarrow> let entry_index = u32 (i + 1) in
         dir_size_loop n c entry_index (if fat_entry_valid dir then entry_index else lv) cache') (\<lambda>r t. redir s t \<and> r = used ?P N) t"
    proof (cases "i < N")
      case True
      then have r: "r = Some (dir_entry view s cs i)" "cache_ok view t cs cache'" using t(2) Suc.prems(3) by simp_all
      have u: "u32 (Suc i) = Suc i" using True N(2) by simp
      have "wp (dir_size_loop n c (Suc i) (if ?P i then Suc i else lv) cache') (\<lambda>r u. redir t u \<and> r = used (\<lambda>i. fat_entry_valid (dir_entry view t cs i)) N) t"
        by (rule Suc.IH) (use d Suc.prems r(2) True in simp_all)
      then have "wp (dir_size_loop n c (Suc i) (if ?P i then Suc i else lv) cache') (\<lambda>r u. redir s u \<and> r = used ?P N) t"
        by (rule wp_mono) (use redir_trans [OF t(1)] d(5) in simp)
      then show ?thesis by (simp add: r(1) u Let_def)
    next
      case False
      then show ?thesis using t Suc.prems by (simp add: wp_simps)
    qed
  qed
qed simp

lemma dir_size_wp:
  assumes s: "dir_state s" and ch: "chain (fat (fctx s)) (fat_get_cluster_entry (fctx s) dir) cs" and ne: "cs \<noteq> []"
    and N: "entries_per_cluster (fctx s) * length cs < 2 ^ 32"
  shows "wp (fat_get_dir_size dir) (\<lambda>r t. redir s t \<and>
      r = 32 * used (\<lambda>i. fat_entry_valid (dir_entry view s cs i)) (entries_per_cluster (fctx s) * length cs)) s"
proof -
  have "card (set cs) \<le> card {..<length (fat (fctx s))}" using chain_set [OF ch] by (intro card_mono) auto
  then have "length cs \<le> length (fat (fctx s))" using distinct_card [OF chain_distinct [OF ch]] by simp
  then have f: "entries_per_cluster (fctx s) * length cs - 0 < dir_fuel (fctx s)"
    unfolding dir_fuel_def by (simp add: less_Suc_eq_le trans_le_add2)
  have c: "cache_ok view s cs cache_empty" by (simp add: cache_ok_def cache_empty_def)
  show ?thesis
    unfolding fat_get_dir_size_def
    using dir_size_loop_wp [OF s ch ne refl N c _ f, of 0] by (simp add: wp_bindc ctxc_def wp_getc wp_ret ENTRY_SIZE_def mult.commute)
qed

end

end
