(* ===== verification/Spec2Isabelle.thy ===== *)
theory Spec2Isabelle
  imports Pmm_Boot Page_Allocator Heap_Correct Kstring_Correct Resources Lock Mm Mm_Correct Vector Crc32 Bytes Ktime Storage_Device Fat32 Fat32_Dir Fat32_File Fat32_Correct Fat32_Chain Ahci Ahci_Correct Fat32_Dir_Correct
begin

section \<open>Kot: verification of the kernel core\<close>

text \<open>
  Header to be completed.
\<close>

end
